(* ===== verification/Hicn_Prelude.thy ===== *)
theory Hicn_Prelude
  imports Main "HOL-Library.Word" "HOL-Library.Monad_Syntax"
begin

text \<open>
  Vocabulary shared by every component: the C integer types, the option monad
  in which a failed \<open>assert\<close>, a null dereference and an out-of-range memory
  access are the value \<^term>\<open>None\<close>, and the arithmetic helper
  \<open>next_pow2\<close> of \<open>lib/includes/hicn/common.h\<close>.

  Sizes and indices (\<open>size_t\<close>, \<open>off_t\<close>) are natural numbers; values whose
  width matters are words.
\<close>

unbundle bit_operations_syntax

named_theorems run_simps \<open>unfolding of the option monad and of the assertions\<close>
named_theorems inv_intros \<open>an operation keeps the invariant of its component\<close>

type_synonym u8 = "8 word"
type_synonym u16 = "16 word"
type_synonym u32 = "32 word"
type_synonym u64 = "64 word"

section \<open>Assertions and partial steps\<close>

text \<open>C's \<open>assert\<close>: the program goes on exactly when the condition holds.\<close>

definition assert_that :: "bool \<Rightarrow> unit option" where
  "assert_that b = (if b then Some () else None)"

text \<open>A read and a write of an array of known length.\<close>

definition read_at :: "'a list \<Rightarrow> nat \<Rightarrow> 'a option" where
  "read_at xs i = (if i < length xs then Some (xs ! i) else None)"

definition write_at :: "'a list \<Rightarrow> nat \<Rightarrow> 'a \<Rightarrow> 'a list option" where
  "write_at xs i v = (if i < length xs then Some (xs[i := v]) else None)"

text \<open>The number of significant bits, \<open>64 - __builtin_clzl (n)\<close> for \<open>n > 0\<close>.\<close>

fun bit_length :: "nat \<Rightarrow> nat" where
  "bit_length n = (if n = 0 then 0 else Suc (bit_length (n div 2)))"

declare bit_length.simps [simp del]

definition next_pow2 :: "nat \<Rightarrow> nat" where
  "next_pow2 x = (if x \<le> 1 then 1 else 2 ^ bit_length (x - 1))"

text \<open>A loop over a list whose body may fail, and the list of the results of a
  partial function.\<close>

fun foldM :: "('s \<Rightarrow> 'a \<Rightarrow> 's option) \<Rightarrow> 's \<Rightarrow> 'a list \<Rightarrow> 's option" where
  "foldM f s [] = Some s"
| "foldM f s (x # xs) = do { s' \<leftarrow> f s x; foldM f s' xs }"

fun mapM :: "('a \<Rightarrow> 'b option) \<Rightarrow> 'a list \<Rightarrow> 'b list option" where
  "mapM f [] = Some []"
| "mapM f (x # xs) = do { y \<leftarrow> f x; ys \<leftarrow> mapM f xs; Some (y # ys) }"

section \<open>Lemmas\<close>

lemma foldM_append: "foldM f s (xs @ ys) = do { s' \<leftarrow> foldM f s xs; foldM f s' ys }"
  by (induction xs arbitrary: s) auto

lemma foldM_invariant:
  assumes "foldM f s xs = Some s'" "P s"
    and "\<And>s x s'. x \<in> set xs \<Longrightarrow> P s \<Longrightarrow> f s x = Some s' \<Longrightarrow> P s'"
  shows "P s'"
  using assms by (induction xs arbitrary: s) (auto simp: bind_eq_Some_conv)

lemma foldM_total:
  assumes "P s" "\<And>s x. x \<in> set xs \<Longrightarrow> P s \<Longrightarrow> \<exists>s'. f s x = Some s' \<and> P s'"
  shows "\<exists>s'. foldM f s xs = Some s' \<and> P s'"
  using assms
proof (induction xs arbitrary: s)
  case (Cons x xs)
  then obtain s1 where "f s x = Some s1" "P s1" by (meson list.set_intros(1))
  moreover from this Cons have "\<exists>s'. foldM f s1 xs = Some s' \<and> P s'" by simp
  ultimately show ?case by auto
qed simp

lemma mapM_eq_map: "(\<And>x. x \<in> set xs \<Longrightarrow> f x = Some (g x)) \<Longrightarrow> mapM f xs = Some (map g xs)"
  by (induction xs) auto

lemma assert_that_True [simp]: "assert_that True = Some ()"
  by (simp add: assert_that_def)

lemma assert_that_False [simp]: "assert_that False = None"
  by (simp add: assert_that_def)

lemma assert_that_eq_Some [simp, run_simps]: "assert_that b = Some u \<longleftrightarrow> b"
  by (simp add: assert_that_def)

lemma assert_that_eq_None [simp, run_simps]: "assert_that b = None \<longleftrightarrow> \<not> b"
  by (simp add: assert_that_def)

lemma assert_bind [simp, run_simps]:
  "(assert_that b \<bind> f) = (if b then f () else None)"
  by (simp add: assert_that_def)

lemma read_at_eq_Some [simp, run_simps]:
  "read_at xs i = Some v \<longleftrightarrow> i < length xs \<and> xs ! i = v"
  by (auto simp: read_at_def)

lemma read_at_in_range [simp]: "i < length xs \<Longrightarrow> read_at xs i = Some (xs ! i)"
  by (simp add: read_at_def)

lemma write_at_in_range [simp]: "i < length xs \<Longrightarrow> write_at xs i v = Some (xs[i := v])"
  by (simp add: write_at_def)

lemma write_at_eq_Some [simp, run_simps]:
  "write_at xs i v = Some ys \<longleftrightarrow> i < length xs \<and> ys = xs[i := v]"
  by (auto simp: write_at_def)

declare bind_eq_Some_conv [run_simps]

lemma bit_length_0 [simp]: "bit_length 0 = 0"
  by (simp add: bit_length.simps)

lemma bit_length_pos: "0 < n \<Longrightarrow> bit_length n = Suc (bit_length (n div 2))"
  by (subst bit_length.simps) simp

lemma less_power_bit_length: "n < 2 ^ bit_length n"
proof (induction n rule: bit_length.induct)
  case (1 n)
  show ?case
  proof (cases "n = 0")
    case False
    then have "n div 2 < 2 ^ bit_length (n div 2)" by (rule 1)
    with False show ?thesis by (simp add: bit_length_pos)
  qed simp
qed

lemma power_bit_length_le: "0 < n \<Longrightarrow> 2 ^ (bit_length n - 1) \<le> n"
proof (induction n rule: bit_length.induct)
  case (1 n)
  show ?case
  proof (cases "n div 2 = 0")
    case True
    with 1(2) have "n = 1" by simp
    then show ?thesis by (simp add: bit_length_pos)
  next
    case False
    with 1 have "2 ^ (bit_length (n div 2) - 1) \<le> n div 2" by simp
    with False 1(2) show ?thesis
      by (simp add: bit_length_pos [of n] bit_length_pos [of "n div 2"])
  qed
qed

lemma next_pow2_ge: "x \<le> next_pow2 x"
  using less_power_bit_length [of "x - 1"] by (auto simp: next_pow2_def)

lemma next_pow2_pos [simp]: "0 < next_pow2 x"
  by (simp add: next_pow2_def)

lemma next_pow2_less_double: "0 < x \<Longrightarrow> next_pow2 x < 2 * x"
proof (cases "x \<le> 1")
  case False
  then have "2 ^ (bit_length (x - 1) - 1) \<le> x - 1" "0 < bit_length (x - 1)"
    using power_bit_length_le [of "x - 1"] by (simp_all add: bit_length_pos)
  then have "(2::nat) ^ bit_length (x - 1) = 2 * 2 ^ (bit_length (x - 1) - 1)"
    by (simp flip: power_Suc)
  with \<open>2 ^ (bit_length (x - 1) - 1) \<le> x - 1\<close> False show ?thesis
    by (simp add: next_pow2_def)
qed (simp add: next_pow2_def)

lemma next_pow2_is_power: "\<exists>k. next_pow2 x = 2 ^ k"
  by (auto simp: next_pow2_def intro: exI [of _ 0])

lemma next_pow2_power [simp]: "next_pow2 (2 ^ k) = 2 ^ k"
proof -
  obtain j where j: "next_pow2 (2 ^ k) = 2 ^ j" using next_pow2_is_power by blast
  have "k \<le> j" using next_pow2_ge [of "2 ^ k"] j by simp
  moreover have "(2::nat) ^ j < 2 ^ Suc k" using next_pow2_less_double [of "2 ^ k"] j by simp
  then have "j < Suc k" by (rule power_less_imp_less_exp [rotated]) simp
  ultimately have "j = k" by simp
  with j show ?thesis by simp
qed

lemma next_pow2_idem [simp]: "next_pow2 (next_pow2 n) = next_pow2 n"
  using next_pow2_is_power [of n] by auto

lemma dvd_next_pow2: "64 \<le> n \<Longrightarrow> 64 dvd next_pow2 n"
proof -
  assume "64 \<le> n"
  obtain k where k: "next_pow2 n = 2 ^ k" using next_pow2_is_power by blast
  have "(2::nat) ^ 6 \<le> 2 ^ k" using next_pow2_ge [of n] \<open>64 \<le> n\<close> k by simp
  then have "6 \<le> k" by (rule power_le_imp_le_exp [rotated]) simp
  then have "(2::nat) ^ 6 dvd 2 ^ k" by (rule le_imp_power_dvd)
  with k show ?thesis by simp
qed


end
