(* ===== verification/Util_Ring.thy ===== *)
theory Util_Ring
  imports Hicn_Prelude
begin

text \<open>
  The ring buffer of \<open>lib/includes/hicn/util/ring.h\<close> and
  \<open>lib/src/util/ring.c\<close>: a fixed array with a read and a write offset, whose
  \<open>ring_add\<close> overwrites the oldest element when the ring is full.  The
  abstraction is the list of the stored elements, oldest first; the locale
  \<open>dropping_queue\<close> is the contract the ring is shown to satisfy.
\<close>

section \<open>Model\<close>

record 'a ring =
  roff :: nat
  woff :: nat
  ring_size :: nat
  ring_max_size :: nat
  ring_cells :: "'a list"

text \<open>\<open>malloc\<close> leaves the cells uninitialised: \<open>junk\<close> is what they happen to hold.\<close>

definition ring_init :: "(nat \<Rightarrow> 'a) \<Rightarrow> nat \<Rightarrow> 'a ring option" where
  "ring_init junk max_size = do {
     assert_that (max_size \<noteq> 0);
     Some \<lparr>roff = 0, woff = 0, ring_size = 0, ring_max_size = max_size,
           ring_cells = map junk [0..<max_size]\<rparr>
   }"

definition ring_add :: "'a ring \<Rightarrow> 'a \<Rightarrow> 'a ring option" where
  "ring_add rh elt = do {
     cells \<leftarrow> write_at (ring_cells rh) (woff rh) elt;
     let rh = rh\<lparr>ring_cells := cells\<rparr>;
     let w = woff rh + 1;
     let rh = rh\<lparr>woff := (if w = ring_max_size rh then 0 else w)\<rparr>;
     if ring_size rh < ring_max_size rh
     then Some (rh\<lparr>ring_size := ring_size rh + 1\<rparr>)
     else (let r = roff rh + 1
           in Some (rh\<lparr>roff := (if r = ring_max_size rh then 0 else r)\<rparr>))
   }"

text \<open>\<open>size * 100\<close> is a \<open>size_t\<close> product and the result is cast to \<open>unsigned\<close>;
  the division by a null \<open>max_size\<close> is undefined.\<close>

definition ring_get_fullness :: "'a ring \<Rightarrow> nat option" where
  "ring_get_fullness rh =
     (if ring_max_size rh = 0 then None
      else Some ((ring_size rh * 100 mod 2 ^ 64) div ring_max_size rh mod 2 ^ 32))"

definition ring_is_full :: "'a ring \<Rightarrow> bool" where
  "ring_is_full rh = (ring_size rh = ring_max_size rh)"

definition ring_get_size :: "'a ring \<Rightarrow> nat" where
  "ring_get_size rh = ring_size rh"

text \<open>The loop that brings the read offset back into the array; it does not
  end on a ring of size 0.\<close>

partial_function (option) ring_wrap :: "nat \<Rightarrow> nat \<Rightarrow> nat option" where
  "ring_wrap max_size r = (if max_size \<le> r then ring_wrap max_size (r - max_size) else Some r)"

definition ring_advance :: "'a ring \<Rightarrow> nat \<Rightarrow> 'a ring option" where
  "ring_advance rh n = do {
     assert_that (n \<le> ring_size rh);
     r \<leftarrow> ring_wrap (ring_max_size rh) (roff rh + n);
     Some (rh\<lparr>roff := r, ring_size := ring_size rh - n\<rparr>)
   }"

definition ring_get :: "'a ring \<Rightarrow> nat \<Rightarrow> 'a option" where
  "ring_get rh i = do {
     assert_that (i \<le> ring_size rh);
     let pos = roff rh + i;
     read_at (ring_cells rh) (if ring_max_size rh \<le> pos then pos - ring_max_size rh else pos)
   }"

text \<open>\<open>ring_enumerate_n\<close> runs its body on the elements of index below
  \<open>MIN (size, count)\<close>; the model returns the elements in the order visited.
  \<open>ring_foreach\<close> passes the count 1.\<close>

definition ring_enumerate_n :: "'a ring \<Rightarrow> nat \<Rightarrow> 'a list option" where
  "ring_enumerate_n rh count = mapM (ring_get rh) [0..<min (ring_get_size rh) count]"

definition ring_foreach :: "'a ring \<Rightarrow> 'a list option" where
  "ring_foreach rh = ring_enumerate_n rh 1"

section \<open>Invariant and abstraction\<close>

definition ring_inv :: "'a ring \<Rightarrow> bool" where
  "ring_inv rh \<longleftrightarrow>
     0 < ring_max_size rh \<and> length (ring_cells rh) = ring_max_size rh \<and>
     ring_size rh \<le> ring_max_size rh \<and> roff rh < ring_max_size rh \<and>
     woff rh = (roff rh + ring_size rh) mod ring_max_size rh"

definition ring_list :: "'a ring \<Rightarrow> 'a list" where
  "ring_list rh = map (\<lambda>i. ring_cells rh ! ((roff rh + i) mod ring_max_size rh)) [0..<ring_size rh]"

text \<open>A bounded queue that drops its oldest element when it overflows.\<close>

locale dropping_queue =
  fixes add :: "'q \<Rightarrow> 'a \<Rightarrow> 'q option"
    and advance :: "'q \<Rightarrow> nat \<Rightarrow> 'q option"
    and get :: "'q \<Rightarrow> nat \<Rightarrow> 'a option"
    and elems :: "'q \<Rightarrow> 'a list"
    and cap :: "'q \<Rightarrow> nat"
    and invar :: "'q \<Rightarrow> bool"
  assumes cap_bound: "invar q \<Longrightarrow> length (elems q) \<le> cap q \<and> 0 < cap q"
    and add_some: "invar q \<Longrightarrow>
      \<exists>q'. add q x = Some q' \<and> invar q' \<and> cap q' = cap q \<and>
           elems q' = (if length (elems q) < cap q then elems q else tl (elems q)) @ [x]"
    and advance_some: "invar q \<Longrightarrow> n \<le> length (elems q) \<Longrightarrow>
      \<exists>q'. advance q n = Some q' \<and> invar q' \<and> cap q' = cap q \<and> elems q' = drop n (elems q)"
    and get_some: "invar q \<Longrightarrow> i < length (elems q) \<Longrightarrow> get q i = Some (elems q ! i)"
begin

text \<open>After any number of insertions the queue holds the last \<open>cap\<close> elements.\<close>

lemma add_all_last:
  assumes "invar q"
  shows "\<exists>q'. foldM add q xs = Some q' \<and> invar q' \<and> cap q' = cap q \<and>
              elems q' = drop (length (elems q) + length xs - cap q) (elems q @ xs)"
  using assms
proof (induction xs arbitrary: q)
  case Nil
  then show ?case using cap_bound [of q] by simp
next
  case (Cons x xs)
  obtain q1 where q1: "add q x = Some q1" "invar q1" "cap q1 = cap q"
    "elems q1 = (if length (elems q) < cap q then elems q else tl (elems q)) @ [x]"
    using add_some [OF Cons.prems] by blast
  obtain q2 where q2: "foldM add q1 xs = Some q2" "invar q2" "cap q2 = cap q1"
    "elems q2 = drop (length (elems q1) + length xs - cap q1) (elems q1 @ xs)"
    using Cons.IH [OF q1(2)] by blast
  have "elems q2 = drop (length (elems q) + length (x # xs) - cap q) (elems q @ x # xs)"
  proof (cases "length (elems q) < cap q")
    case True
    then show ?thesis using q1 q2 by simp
  next
    case False
    then have full: "length (elems q) = cap q" "0 < cap q"
      using cap_bound [OF Cons.prems] by auto
    then obtain y ys where "elems q = y # ys" by (cases "elems q") auto
    with full q1 q2 show ?thesis by auto
  qed
  with q1 q2 show ?case by auto
qed

lemma add_all_get:
  assumes "invar q" "elems q = []" "length xs \<le> cap q" "i < length xs"
  shows "\<exists>q'. foldM add q xs = Some q' \<and> get q' i = Some (xs ! i)"
  using add_all_last [OF assms(1), of xs] assms get_some by fastforce

end

section \<open>Lemmas\<close>

lemma ring_wrap_mod: "0 < m \<Longrightarrow> ring_wrap m r = Some (r mod m)"
proof (induction r rule: less_induct)
  case (less r)
  then show ?case
    by (subst ring_wrap.simps) (auto simp: le_mod_geq not_le)
qed

lemma ring_list_length [simp]: "length (ring_list rh) = ring_size rh"
  by (simp add: ring_list_def)

lemma ring_list_nth [simp]:
  "i < ring_size rh \<Longrightarrow> ring_list rh ! i = ring_cells rh ! ((roff rh + i) mod ring_max_size rh)"
  by (simp add: ring_list_def)

lemma mod_Suc_wrap: "a < m \<Longrightarrow> (if Suc a = m then 0 else Suc a) = Suc a mod (m :: nat)"
  by (auto simp: mod_Suc)

lemma mod_add_neq:
  assumes "i < k" "k < (m :: nat)"
  shows "(a + i) mod m \<noteq> (a + k) mod m"
proof
  assume "(a + i) mod m = (a + k) mod m"
  then have "i mod m = k mod m" by (simp add: nat_mod_eq_iff)
  with assms show False by simp
qed

lemma ring_init_inv:
  assumes "ring_init junk n = Some rh"
  shows "ring_inv rh \<and> ring_list rh = [] \<and> ring_max_size rh = n"
  using assms by (auto simp: ring_init_def ring_inv_def ring_list_def split: if_splits)

lemma ring_add_refines:
  assumes "ring_inv rh"
  shows "\<exists>rh'. ring_add rh x = Some rh' \<and> ring_inv rh' \<and> ring_max_size rh' = ring_max_size rh \<and>
    ring_list rh' = (if length (ring_list rh) < ring_max_size rh then ring_list rh
                     else tl (ring_list rh)) @ [x]"
proof (cases "ring_size rh < ring_max_size rh")
  case True
  let ?w = "woff rh" and ?m = "ring_max_size rh"
  let ?rh' = "rh\<lparr>ring_cells := (ring_cells rh)[?w := x], woff := Suc ?w mod ?m,
                 ring_size := ring_size rh + 1\<rparr>"
  have w: "?w < ?m" "?w = (roff rh + ring_size rh) mod ?m" "length (ring_cells rh) = ?m"
    using assms by (auto simp: ring_inv_def)
  have run: "ring_add rh x = Some ?rh'"
    using True w(1,3) mod_Suc_wrap [OF w(1)] by (simp add: ring_add_def Let_def)
  have "ring_list ?rh' = ring_list rh @ [x]"
  proof (rule nth_equalityI)
    fix i assume "i < length (ring_list ?rh')"
    then consider "i < ring_size rh" | "i = ring_size rh" by fastforce
    then show "ring_list ?rh' ! i = (ring_list rh @ [x]) ! i"
      using True w mod_add_neq [of i "ring_size rh" ?m "roff rh"]
      by cases (auto simp: nth_append)
  qed simp
  moreover have "ring_inv ?rh'"
    using assms True by (auto simp: ring_inv_def mod_Suc_eq)
  ultimately show ?thesis using run True by auto
next
  case False
  let ?w = "woff rh" and ?m = "ring_max_size rh"
  let ?rh' = "rh\<lparr>ring_cells := (ring_cells rh)[?w := x], woff := Suc ?w mod ?m,
                 roff := Suc (roff rh) mod ?m\<rparr>"
  have full: "ring_size rh = ?m" "?w = roff rh" "roff rh < ?m" "length (ring_cells rh) = ?m"
    using assms False by (auto simp: ring_inv_def)
  have run: "ring_add rh x = Some ?rh'"
    using full mod_Suc_wrap [of "roff rh" ?m] by (simp add: ring_add_def Let_def)
  have "ring_list ?rh' = tl (ring_list rh) @ [x]"
  proof (rule nth_equalityI)
    fix i assume i: "i < length (ring_list ?rh')"
    have step: "(Suc (roff rh) mod ?m + i) mod ?m = (roff rh + Suc i) mod ?m"
      by (simp add: mod_add_left_eq)
    show "ring_list ?rh' ! i = (tl (ring_list rh) @ [x]) ! i"
    proof (cases "Suc i < ?m")
      case True
      with full step mod_add_neq [of 0 "Suc i" ?m "roff rh"] i show ?thesis
        by (simp add: nth_append nth_tl less_diff_conv)
    next
      case False
      with i full have "i = ?m - 1" by simp
      with full step have "(Suc (roff rh) mod ?m + i) mod ?m = roff rh" by simp
      with False i full show ?thesis by (auto simp: nth_append)
    qed
  qed (use full in simp)
  moreover have "ring_inv ?rh'"
    using assms full by (auto simp: ring_inv_def)
  ultimately show ?thesis using run False by auto
qed

lemma ring_advance_refines:
  assumes "ring_inv rh" "n \<le> length (ring_list rh)"
  shows "\<exists>rh'. ring_advance rh n = Some rh' \<and> ring_inv rh' \<and>
    ring_max_size rh' = ring_max_size rh \<and> ring_list rh' = drop n (ring_list rh)"
proof -
  let ?m = "ring_max_size rh"
  let ?rh' = "rh\<lparr>roff := (roff rh + n) mod ?m, ring_size := ring_size rh - n\<rparr>"
  have "ring_advance rh n = Some ?rh'"
    using assms by (simp add: ring_advance_def ring_wrap_mod ring_inv_def)
  moreover have "ring_inv ?rh'"
    using assms mod_add_left_eq [of "roff rh + n" ?m "ring_size rh - n"] by (auto simp: ring_inv_def)
  moreover have "ring_list ?rh' = drop n (ring_list rh)"
    using assms(2) by (intro nth_equalityI) (auto simp: mod_add_left_eq add.assoc)
  ultimately show ?thesis by auto
qed

lemma ring_get_refines:
  assumes "ring_inv rh" "i < length (ring_list rh)"
  shows "ring_get rh i = Some (ring_list rh ! i)"
proof -
  have "(if ring_max_size rh \<le> roff rh + i then roff rh + i - ring_max_size rh else roff rh + i)
      = (roff rh + i) mod ring_max_size rh"
    using assms by (auto simp: ring_inv_def le_mod_geq)
  with assms show ?thesis by (simp add: ring_get_def ring_inv_def Let_def)
qed

interpretation rq: dropping_queue ring_add ring_advance ring_get ring_list ring_max_size ring_inv
proof unfold_locales
  fix q :: "'a ring" and x assume "ring_inv q"
  then show "length (ring_list q) \<le> ring_max_size q \<and> 0 < ring_max_size q"
    by (simp add: ring_inv_def)
  show "\<exists>q'. ring_add q x = Some q' \<and> ring_inv q' \<and> ring_max_size q' = ring_max_size q \<and>
    ring_list q' = (if length (ring_list q) < ring_max_size q then ring_list q
                    else tl (ring_list q)) @ [x]"
    by (rule ring_add_refines) fact
qed (simp_all add: ring_advance_refines ring_get_refines)

lemma ring_enumerate_n_prefix:
  "ring_inv rh \<Longrightarrow> ring_enumerate_n rh n = Some (take n (ring_list rh))"
  unfolding ring_enumerate_n_def ring_get_size_def
  by (subst mapM_eq_map [where g = "\<lambda>i. ring_list rh ! i"])
     (auto simp: ring_get_refines intro: nth_equalityI)

section \<open>Properties\<close>

text \<open>C37: a ring of size \<open>n\<close> behaves as a bounded queue: after any sequence of
  \<open>ring_add\<close> on a fresh ring, none of which fails, the ring holds exactly the
  last \<open>n\<close> elements added, oldest first, and \<open>ring_get\<close> reads them back in order.\<close>

theorem ring_holds_last_elements:
  assumes "0 < n"
  shows "\<exists>rh rh'. ring_init junk n = Some rh \<and> foldM ring_add rh xs = Some rh' \<and> ring_inv rh' \<and>
    ring_list rh' = drop (length xs - n) xs \<and>
    map (ring_get rh') [0..<ring_get_size rh'] = map Some (drop (length xs - n) xs)"
proof -
  obtain rh where rh: "ring_init junk n = Some rh"
    using assms by (simp add: ring_init_def)
  note fresh = ring_init_inv [OF rh]
  from rq.add_all_last [of rh xs] fresh obtain rh' where rh':
    "foldM ring_add rh xs = Some rh'" "ring_inv rh'" "ring_list rh' = drop (length xs - n) xs"
    by auto
  moreover have "map (ring_get rh') [0..<ring_get_size rh'] = map Some (ring_list rh')"
    using rh'(2) by (intro nth_equalityI) (auto simp: ring_get_size_def ring_get_refines)
  ultimately show ?thesis using rh by auto
qed

theorem ring_holds_last_elements_witness:
  "0 < (2::nat) \<and> (\<exists>rh rh'. ring_init (\<lambda>_. 0) 2 = Some rh \<and>
    foldM ring_add rh [1, 2, 3::nat] = Some rh' \<and> ring_list rh' = [2, 3])"
  using ring_holds_last_elements [of 2 "\<lambda>_. 0::nat" "[1, 2, 3]"] by auto

text \<open>\<open>ring_advance\<close> removes the \<open>n\<close> oldest elements: it ends (its wrap-around
  loop included), keeps the invariant, and leaves the rest of the queue in order.\<close>

theorem ring_advance_drops:
  assumes "ring_inv rh" "n \<le> ring_get_size rh"
  shows "\<exists>rh'. ring_advance rh n = Some rh' \<and> ring_inv rh' \<and>
    ring_list rh' = drop n (ring_list rh) \<and> ring_get_size rh' = ring_get_size rh - n"
  using rq.advance_some [OF assms(1), of n] assms(2)
  by (auto simp: ring_get_size_def) (metis length_drop ring_list_length)

definition ring_example :: "nat ring" where
  "ring_example = \<lparr>roff = 2, woff = 1, ring_size = 2, ring_max_size = 3, ring_cells = [7, 8, 9]\<rparr>"

theorem ring_advance_drops_witness:
  "ring_inv ring_example \<and> (\<exists>rh'. ring_advance ring_example 1 = Some rh' \<and> ring_list rh' = [7])"
proof -
  have "ring_inv ring_example" "ring_list ring_example = [9, 7]" "ring_get_size ring_example = 2"
    by (simp_all add: ring_inv_def ring_list_def ring_example_def upt_rec ring_get_size_def)
  with ring_advance_drops [of ring_example 1] show ?thesis by auto
qed

text \<open>\<open>ring_foreach\<close> visits at most one element, the oldest one, although it
  is documented to visit all the elements of the ring.\<close>

theorem ring_foreach_visits_one:
  assumes "ring_inv rh"
  shows "ring_foreach rh = Some (take 1 (ring_list rh))"
  using assms by (simp add: ring_foreach_def ring_enumerate_n_prefix)

theorem ring_foreach_visits_one_witness:
  "ring_inv ring_example \<and> ring_foreach ring_example = Some [9]"
proof -
  have "ring_inv ring_example" "ring_list ring_example = [9, 7]"
    by (simp_all add: ring_inv_def ring_list_def ring_example_def upt_rec)
  with ring_foreach_visits_one [of ring_example] show ?thesis by simp
qed

end
