(* ===== verification/Util_Vector.thy ===== *)
theory Util_Vector
  imports Hicn_Prelude "HOL-Library.Multiset"
begin

text \<open>
  The resizable vector of \<open>lib/includes/hicn/util/vector.h\<close> and
  \<open>lib/src/util/vector.c\<close>.  The allocated cells are a list, whose length is the
  \<open>alloc_size\<close> of the header; a growth appends zeroed cells.  The abstraction
  \<open>vec\<close> is the list of the first \<open>cur_size\<close> cells.  Operations that return an
  error code return it first (0, or -1); allocation itself never fails.
\<close>

section \<open>Model\<close>

record 'a vector =
  cur_size :: nat
  vector_max_size :: nat
  cells :: "'a list"

definition DEFAULT_VECTOR_SIZE :: nat where
  "DEFAULT_VECTOR_SIZE = 64"

definition vector_get_alloc_size :: "'a vector \<Rightarrow> nat" where
  "vector_get_alloc_size v = length (cells v)"

definition vector_len :: "'a vector \<Rightarrow> nat" where
  "vector_len v = cur_size v"

definition vector_resize :: "'a::zero vector \<Rightarrow> nat \<Rightarrow> int \<times> 'a vector" where
  "vector_resize v pos =
     (let old_size = vector_get_alloc_size v;
          new_size = next_pow2 pos
      in if new_size < old_size then (0, v)
         else if vector_max_size v \<noteq> 0 \<and> vector_max_size v < new_size then (-1, v)
         else (0, v\<lparr>cells := cells v @ replicate (new_size - old_size) 0\<rparr>))"

text \<open>\<open>_vector_init\<close> starts from a null vector, for which \<open>_vector_resize\<close> checks
  no maximum.\<close>

definition vector_init :: "nat \<Rightarrow> nat \<Rightarrow> 'a::zero vector option" where
  "vector_init init_size max_size = do {
     assert_that (max_size = 0 \<or> init_size < max_size);
     let init_size = (if init_size = 0 then DEFAULT_VECTOR_SIZE else init_size);
     let v = snd (vector_resize \<lparr>cur_size = 0, vector_max_size = 0, cells = []\<rparr> init_size);
     Some (v\<lparr>cur_size := 0, vector_max_size := max_size\<rparr>)
   }"

definition vector_ensure_pos :: "'a::zero vector \<Rightarrow> nat \<Rightarrow> int \<times> 'a vector" where
  "vector_ensure_pos v pos =
     (if vector_get_alloc_size v \<le> pos then vector_resize v (pos + 1) else (0, v))"

definition vector_push :: "'a::zero vector \<Rightarrow> 'a \<Rightarrow> (int \<times> 'a vector) option" where
  "vector_push v elt =
     (let (rc, v) = vector_ensure_pos v (cur_size v)
      in if rc < 0 then Some (-1, v)
         else do {
           cs \<leftarrow> write_at (cells v) (cur_size v) elt;
           Some (0, v\<lparr>cells := cs, cur_size := cur_size v + 1\<rparr>)
         })"

text \<open>The removal loop: the cell after a removal is not examined again, although
  it now holds the former last element.\<close>

function vector_remove_loop :: "'a vector \<Rightarrow> 'a \<Rightarrow> nat \<Rightarrow> nat \<Rightarrow> nat \<times> 'a vector" where
  "vector_remove_loop v elt i num_removed =
     (if i < cur_size v
      then (if cells v ! i = elt
            then vector_remove_loop
                   (v\<lparr>cur_size := cur_size v - 1, cells := (cells v)[i := cells v ! (cur_size v - 1)]\<rparr>)
                   elt (i + 1) (num_removed + 1)
            else vector_remove_loop v elt (i + 1) num_removed)
      else (num_removed, v))"
  by pat_completeness auto
termination by (relation "measure (\<lambda>(v, elt, i, n). cur_size v - i)") auto

declare vector_remove_loop.simps [simp del]

definition vector_remove_unordered :: "'a vector \<Rightarrow> 'a \<Rightarrow> nat \<times> 'a vector" where
  "vector_remove_unordered v elt = vector_remove_loop v elt 0 0"

definition vector_get :: "'a vector \<Rightarrow> nat \<Rightarrow> 'a option" where
  "vector_get v pos = (if vector_get_alloc_size v \<le> pos then None else Some (cells v ! pos))"

definition vector_contains :: "'a vector \<Rightarrow> 'a \<Rightarrow> bool" where
  "vector_contains v elt = (\<exists>i\<in>set [0..<cur_size v]. cells v ! i = elt)"

definition vector_remove_at :: "'a vector \<Rightarrow> nat \<Rightarrow> int \<times> 'a vector" where
  "vector_remove_at v pos =
     (if cur_size v \<le> pos then (-1, v)
      else (0, v\<lparr>cells := take pos (cells v) @ take (cur_size v - 1 - pos) (drop (pos + 1) (cells v))
                          @ drop (cur_size v - 1) (cells v),
                cur_size := cur_size v - 1\<rparr>))"

definition vector_at :: "'a vector \<Rightarrow> nat \<Rightarrow> 'a option" where
  "vector_at v pos = do { assert_that (pos < cur_size v); read_at (cells v) pos }"

definition vector_set :: "'a vector \<Rightarrow> nat \<Rightarrow> 'a \<Rightarrow> 'a vector option" where
  "vector_set v pos elt = do {
     assert_that (pos < cur_size v);
     cs \<leftarrow> write_at (cells v) pos elt;
     Some (v\<lparr>cells := cs\<rparr>)
   }"

definition vector_reset :: "'a vector \<Rightarrow> 'a vector" where
  "vector_reset v = v\<lparr>cur_size := 0\<rparr>"

section \<open>Invariant and abstraction\<close>

definition vector_inv :: "'a vector \<Rightarrow> bool" where
  "vector_inv v \<longleftrightarrow> cur_size v \<le> vector_get_alloc_size v"

definition vec :: "'a vector \<Rightarrow> 'a list" where
  "vec v = take (cur_size v) (cells v)"

section \<open>Lemmas\<close>

lemma vec_length [simp]: "vector_inv v \<Longrightarrow> length (vec v) = vector_len v"
  by (simp add: vec_def vector_inv_def vector_len_def vector_get_alloc_size_def)

lemma vec_nth [simp]: "i < cur_size v \<Longrightarrow> vec v ! i = cells v ! i"
  by (simp add: vec_def)

lemma vector_init_inv:
  assumes "vector_init n m = Some v"
  shows "vector_inv v \<and> vec v = [] \<and> cur_size v = 0 \<and> vector_max_size v = m \<and>
         cells v = replicate (next_pow2 (if n = 0 then 64 else n)) 0"
  using assms
  by (auto simp: vector_init_def vector_inv_def vec_def vector_resize_def Let_def
      vector_get_alloc_size_def DEFAULT_VECTOR_SIZE_def split: if_splits)

lemma vector_init_unlimited:
  assumes "0 < n"
  shows "\<exists>v. vector_init n 0 = Some v \<and> cells v = replicate (next_pow2 n) 0 \<and> vector_max_size v = 0"
proof -
  obtain v where "vector_init n 0 = Some (v :: 'a vector)" by (simp add: vector_init_def)
  with vector_init_inv [OF this] assms show ?thesis by simp
qed

text \<open>Making room never changes the contents, and succeeds unless the rounded size
  exceeds the maximum.\<close>

lemma vector_ensure_pos_cases:
  fixes v :: "'a::zero vector"
  assumes "vector_ensure_pos v pos = (rc, v')"
  shows "(rc = -1 \<and> v' = v \<and> vector_max_size v \<noteq> 0 \<and> vector_max_size v < next_pow2 (pos + 1)
           \<and> vector_get_alloc_size v \<le> pos) \<or>
         (rc = 0 \<and> pos < vector_get_alloc_size v' \<and> cur_size v' = cur_size v \<and>
          vector_max_size v' = vector_max_size v \<and>
          (\<exists>n. cells v' = cells v @ replicate n 0))"
proof (cases "vector_get_alloc_size v \<le> pos")
  case True
  have "pos < next_pow2 (pos + 1)" using next_pow2_ge [of "pos + 1"] by simp
  with True assms show ?thesis
    by (auto simp: vector_ensure_pos_def vector_resize_def Let_def vector_get_alloc_size_def
        split: if_splits)
next
  case False
  with assms show ?thesis
    by (auto simp: vector_ensure_pos_def intro: exI [of _ 0])
qed

lemma vector_ensure_pos_unlimited:
  assumes "vector_max_size v = 0"
  shows "fst (vector_ensure_pos v pos) = 0"
  using assms by (simp add: vector_ensure_pos_def vector_resize_def Let_def)

lemma vec_append_cells:
  assumes "vector_inv v" "cells v' = cells v @ xs" "cur_size v' = cur_size v"
  shows "vec v' = vec v"
  using assms by (simp add: vec_def vector_inv_def vector_get_alloc_size_def)

lemma vector_push_appends:
  fixes v :: "'a::zero vector"
  assumes "vector_inv v"
  shows "(\<exists>v'. vector_push v x = Some (0, v') \<and> vector_inv v' \<and> vec v' = vec v @ [x] \<and>
               vector_max_size v' = vector_max_size v) \<or>
         (vector_push v x = Some (-1, v) \<and> vector_max_size v \<noteq> 0 \<and>
          vector_max_size v < next_pow2 (vector_len v + 1))"
proof -
  obtain rc v1 where e: "vector_ensure_pos v (cur_size v) = (rc, v1)" by force
  from vector_ensure_pos_cases [OF this] show ?thesis
  proof (elim disjE conjE exE)
    fix n assume *: "rc = 0" "cur_size v < vector_get_alloc_size v1" "cur_size v1 = cur_size v"
      "vector_max_size v1 = vector_max_size v" "cells v1 = cells v @ replicate n 0"
    let ?v' = "v1\<lparr>cells := (cells v1)[cur_size v := x], cur_size := cur_size v + 1\<rparr>"
    have "vec v1 = vec v" by (rule vec_append_cells) (use assms * in auto)
    then have "vec ?v' = vec v @ [x]"
      using * by (simp add: vec_def vector_get_alloc_size_def take_Suc_conv_app_nth)
    moreover have "vector_push v x = Some (0, ?v')"
      using e * by (simp add: vector_push_def vector_get_alloc_size_def)
    ultimately show ?thesis
      using * by (auto simp: vector_inv_def vector_get_alloc_size_def)
  qed (use e in \<open>auto simp: vector_push_def vector_len_def\<close>)
qed

lemma vector_contains_iff: "vector_inv v \<Longrightarrow> vector_contains v x \<longleftrightarrow> x \<in> set (vec v)"
  by (auto simp: vector_contains_def in_set_conv_nth vec_def vector_inv_def
      vector_get_alloc_size_def min_def)

lemma vector_remove_at_list:
  assumes "vector_inv v" "pos < vector_len v"
  shows "\<exists>v'. vector_remove_at v pos = (0, v') \<and> vector_inv v' \<and>
              vec v' = take pos (vec v) @ drop (Suc pos) (vec v) \<and>
              vector_get_alloc_size v' = vector_get_alloc_size v"
proof (cases "cur_size v = Suc pos")
  case True
  then show ?thesis using assms
    by (auto simp: vector_remove_at_def vector_inv_def vec_def vector_get_alloc_size_def)
next
  case False
  then show ?thesis using assms
    by (auto simp: vector_remove_at_def vector_inv_def vec_def vector_get_alloc_size_def
        vector_len_def min_def drop_take)
qed

lemma mset_swap_remove:
  assumes "i < length xs"
  shows "mset xs = add_mset (xs ! i) (mset (butlast (xs[i := last xs])))"
proof -
  obtain ys l where xs: "xs = ys @ [l]" using assms by (cases xs rule: rev_cases) auto
  show ?thesis
  proof (cases "i < length ys")
    case True
    then have "ys ! i \<in># mset ys" by simp
    with True xs show ?thesis
      by (simp add: list_update_append nth_append mset_update)
  next
    case False
    with assms xs show ?thesis by (simp add: less_Suc_eq)
  qed
qed

lemma vec_swap_remove:
  assumes "vector_inv v" "i < cur_size v"
  shows "vec (v\<lparr>cur_size := cur_size v - 1, cells := (cells v)[i := cells v ! (cur_size v - 1)]\<rparr>)
         = butlast ((vec v)[i := last (vec v)])"
proof -
  have "last (vec v) = cells v ! (cur_size v - 1)"
    using assms by (subst last_conv_nth) (auto simp: vec_def vector_inv_def vector_get_alloc_size_def)
  then show ?thesis
    using assms by (simp add: vec_def vector_inv_def vector_get_alloc_size_def butlast_conv_take
        take_update_swap)
qed

lemma vector_remove_loop_mset:
  assumes "vector_remove_loop v elt i k = (k', v')" "vector_inv v"
  shows "vector_inv v' \<and> k \<le> k' \<and> mset (vec v) = mset (vec v') + replicate_mset (k' - k) elt"
  using assms
proof (induction v elt i k rule: vector_remove_loop.induct)
  case (1 v elt i k)
  let ?v1 = "v\<lparr>cur_size := cur_size v - 1, cells := (cells v)[i := cells v ! (cur_size v - 1)]\<rparr>"
  consider "\<not> i < cur_size v" | "i < cur_size v" "cells v ! i \<noteq> elt" | "i < cur_size v" "cells v ! i = elt"
    by blast
  then show ?case
  proof cases
    case 3
    have "vector_inv ?v1" using 1 by (auto simp: vector_inv_def vector_get_alloc_size_def)
    moreover have "vector_remove_loop ?v1 elt (i + 1) (k + 1) = (k', v')"
      using 1(3) 3 by (subst (asm) vector_remove_loop.simps) simp
    ultimately have "vector_inv v'" "k + 1 \<le> k'"
      "mset (vec ?v1) = mset (vec v') + replicate_mset (k' - (k + 1)) elt"
      using 1(1) [OF 3] by auto
    moreover have "mset (vec v) = add_mset elt (mset (vec ?v1))"
      using 1(4) 3 mset_swap_remove [of i "vec v"]
      by (subst vec_swap_remove) (simp_all add: vector_len_def)
    moreover have "k' - k = Suc (k' - (k + 1))" using \<open>k + 1 \<le> k'\<close> by simp
    ultimately show ?thesis by (simp del: diff_Suc_Suc)
  qed (use 1 in \<open>auto simp: vector_remove_loop.simps [of v elt i k]\<close>)
qed

lemma vector_remove_loop_found:
  assumes "vector_remove_loop v elt i k = (k', v')" "vector_inv v" "elt \<in> set (drop i (vec v))"
  shows "k < k'"
  using assms
proof (induction v elt i k rule: vector_remove_loop.induct)
  case (1 v elt i k)
  let ?v1 = "v\<lparr>cur_size := cur_size v - 1, cells := (cells v)[i := cells v ! (cur_size v - 1)]\<rparr>"
  have i: "i < cur_size v"
    using 1(4,5) by (cases "i < cur_size v") (auto simp: vector_len_def)
  then have d: "drop i (vec v) = cells v ! i # drop (Suc i) (vec v)"
    using 1(4) by (simp add: vector_len_def flip: Cons_nth_drop_Suc)
  show ?case
  proof (cases "cells v ! i = elt")
    case True
    have "vector_remove_loop ?v1 elt (i + 1) (k + 1) = (k', v')"
      using 1(3) i True by (simp add: vector_remove_loop.simps [of v])
    moreover have "vector_inv ?v1" using 1 by (auto simp: vector_inv_def vector_get_alloc_size_def)
    ultimately show ?thesis using vector_remove_loop_mset by fastforce
  next
    case False
    with 1(2) [OF i] 1(3-5) i d show ?thesis
      by (simp add: vector_remove_loop.simps [of v])
  qed
qed

lemma vector_remove_unordered_mset:
  assumes "vector_inv v" "vector_remove_unordered v x = (n, v')"
  shows "vector_inv v'" "mset (vec v) = mset (vec v') + replicate_mset n x"
    "x \<in> set (vec v) \<Longrightarrow> 0 < n"
  using vector_remove_loop_mset [of v x 0 0 n v'] vector_remove_loop_found [of v x 0 0 n v'] assms
  by (simp_all add: vector_remove_unordered_def)

section \<open>Properties\<close>

text \<open>\<open>vector_remove_unordered\<close> keeps every other element: the multiset of the
  elements is the one before minus exactly the reported number of copies of
  \<open>x\<close>, at least one copy is removed when there is one, and on a vector without
  duplicates \<open>x\<close> is gone.\<close>

theorem vector_remove_unordered_correct:
  assumes "vector_inv v" "vector_remove_unordered v x = (n, v')"
  shows "vector_inv v' \<and> mset (vec v) = mset (vec v') + replicate_mset n x \<and>
    (0 < n \<longleftrightarrow> vector_contains v x) \<and> (distinct (vec v) \<longrightarrow> \<not> vector_contains v' x)"
proof -
  note * = vector_remove_unordered_mset [OF assms]
  have "0 < n \<Longrightarrow> x \<in># mset (vec v)" using *(2) by simp
  then have "0 < n \<longleftrightarrow> x \<in> set (vec v)" using *(3) by (metis set_mset_mset)
  moreover have "x \<notin> set (vec v')" if "distinct (vec v)"
  proof
    assume x: "x \<in> set (vec v')"
    then have "x \<in># mset (vec v)" using *(2) by simp
    then have "0 < n" using *(3) by simp
    moreover have "0 < count (mset (vec v')) x" using x by simp
    moreover have "count (mset (vec v)) x = count (mset (vec v')) x + n" using *(2) by simp
    ultimately have "2 \<le> count (mset (vec v)) x" by linarith
    moreover have "count (mset (vec v)) x \<le> 1" using that by (simp add: distinct_count_atmost_1)
    ultimately show False by simp
  qed
  ultimately show ?thesis using * assms(1) by (simp add: vector_contains_iff)
qed

definition vector_example :: "nat vector" where
  "vector_example = \<lparr>cur_size = 3, vector_max_size = 0, cells = [5, 6, 7, 0]\<rparr>"

theorem vector_remove_unordered_witness:
  "\<exists>v'. vector_remove_unordered vector_example 5 = (1, v') \<and> \<not> vector_contains v' 5"
proof -
  have "vector_inv vector_example" "distinct (vec vector_example)"
    by (simp_all add: vector_inv_def vec_def vector_example_def vector_get_alloc_size_def)
  moreover obtain v' where "vector_remove_unordered vector_example 5 = (1, v')"
    by (simp add: vector_remove_unordered_def vector_example_def vector_remove_loop.simps)
  ultimately show ?thesis using vector_remove_unordered_correct [of vector_example 5 1 v'] by blast
qed

text \<open>When an element occurs twice, \<open>vector_remove_unordered\<close> may leave a copy
  behind: it does not look again at the cell into which it moved the last element,
  so it does not remove all the occurrences as its comment says.\<close>

theorem vector_remove_unordered_misses_copy:
  "\<exists>v n v' x. vector_inv v \<and> vector_remove_unordered v x = (n, v') \<and>
     vec v = [x, x] \<and> vector_contains v' (x::nat)"
proof -
  let ?v = "\<lparr>cur_size = 2, vector_max_size = 0, cells = [1, 1::nat]\<rparr>"
  have "vector_remove_unordered ?v 1 = (1, \<lparr>cur_size = 1, vector_max_size = 0, cells = [1, 1]\<rparr>)"
    by (simp add: vector_remove_unordered_def vector_remove_loop.simps)
  moreover have "vector_inv ?v" "vec ?v = [1, 1]"
    by (simp_all add: vector_inv_def vec_def vector_get_alloc_size_def)
  moreover have "vector_contains \<lparr>cur_size = 1, vector_max_size = 0, cells = [1, 1::nat]\<rparr> 1"
    by (simp add: vector_contains_def)
  ultimately show ?thesis by blast
qed

end
