(* ===== verification/Util_Bitmap.thy ===== *)
theory Util_Bitmap
  imports Util_Vector
begin

text \<open>
  The bitmap of \<open>lib/includes/hicn/util/bitmap.h\<close>: a vector of 64-bit words.
  The abstraction \<open>bm_bit bm i\<close> is the i-th bit.  \<open>bitmap_set_range\<close>
  is translated with its three phases (leading bits, trailing bits, whole words).
\<close>

section \<open>Model\<close>

type_synonym bitmap = "u64 vector"

definition BITMAP_WIDTH :: nat where
  "BITMAP_WIDTH = 64"

definition BITMAP_INVALID_INDEX :: nat where
  "BITMAP_INVALID_INDEX = 2 ^ 32 - 1"

text \<open>\<open>__builtin_ctzll\<close>, the number of trailing zero bits.\<close>

definition hicn_get_lowest_set_bit_index :: "u64 \<Rightarrow> nat" where
  "hicn_get_lowest_set_bit_index w = length (takeWhile (\<lambda>n. \<not> bit w n) [0..<64])"

definition bitmap_init :: "nat \<Rightarrow> nat \<Rightarrow> bitmap option" where
  "bitmap_init init_size max_size =
     vector_init (next_pow2 (init_size div BITMAP_WIDTH))
       (if max_size = 0 then 0 else next_pow2 (max_size div BITMAP_WIDTH))"

definition bitmap_ensure_pos :: "bitmap \<Rightarrow> nat \<Rightarrow> int \<times> bitmap" where
  "bitmap_ensure_pos bm pos = vector_ensure_pos bm (pos div BITMAP_WIDTH)"

definition bitmap_get :: "bitmap \<Rightarrow> nat \<Rightarrow> bool option" where
  "bitmap_get bm i = do {
     let offset = i div BITMAP_WIDTH;
     assert_that (offset < vector_get_alloc_size bm);
     let pos = i mod BITMAP_WIDTH;
     w \<leftarrow> read_at (cells bm) offset;
     Some (drop_bit pos w AND 1 = 1)
   }"

definition bitmap_get_no_check :: "bitmap \<Rightarrow> nat \<Rightarrow> bool option" where
  "bitmap_get_no_check bm i = do {
     w \<leftarrow> read_at (cells bm) (i div BITMAP_WIDTH);
     Some (drop_bit (i mod BITMAP_WIDTH) w AND 1 = 1)
   }"

definition bitmap_set_no_check :: "bitmap \<Rightarrow> nat \<Rightarrow> bitmap option" where
  "bitmap_set_no_check bm i = do {
     let offset = i div BITMAP_WIDTH;
     let pos = i mod BITMAP_WIDTH;
     w \<leftarrow> read_at (cells bm) offset;
     cs \<leftarrow> write_at (cells bm) offset (w OR push_bit pos 1);
     Some (bm\<lparr>cells := cs\<rparr>)
   }"

definition bitmap_set :: "bitmap \<Rightarrow> nat \<Rightarrow> (int \<times> bitmap) option" where
  "bitmap_set bm i =
     (let (rc, bm) = bitmap_ensure_pos bm i
      in if rc < 0 then Some (-1, bm)
         else do { bm \<leftarrow> bitmap_set_no_check bm i; Some (0, bm) })"

definition bitmap_unset :: "bitmap \<Rightarrow> nat \<Rightarrow> bool \<Rightarrow> (int \<times> bitmap) option" where
  "bitmap_unset bm i check =
     (let (rc, bm) = (if check then bitmap_ensure_pos bm i else (0, bm))
      in if rc < 0 then Some (-1, bm)
         else do {
           let offset = i div BITMAP_WIDTH;
           let pos = i mod BITMAP_WIDTH;
           w \<leftarrow> read_at (cells bm) offset;
           cs \<leftarrow> write_at (cells bm) offset (w AND NOT (push_bit pos 1));
           Some (0, bm\<lparr>cells := cs\<rparr>)
         })"

text \<open>A \<open>for\<close> loop of \<open>bitmap_set\<close>, left at the first failure.\<close>

fun bitmap_set_each :: "bitmap \<Rightarrow> nat list \<Rightarrow> (int \<times> bitmap) option" where
  "bitmap_set_each bm [] = Some (0, bm)"
| "bitmap_set_each bm (k # ks) = do {
     (rc, bm) \<leftarrow> bitmap_set bm k;
     if rc < 0 then Some (-1, bm) else bitmap_set_each bm ks
   }"

text \<open>\<open>memset (&bitmap[from], 0xFF, n * sizeof (bitmap[0]))\<close>.\<close>

definition memset_words :: "u64 list \<Rightarrow> nat \<Rightarrow> nat \<Rightarrow> u64 list option" where
  "memset_words ws from n =
     (if from + n \<le> length ws then Some (take from ws @ replicate n (NOT 0) @ drop (from + n) ws)
      else None)"

text \<open>\<open>bitmap_set_range\<close> takes the bitmap by value: when \<open>bitmap_set\<close> moves it to a larger block,
  only the local pointer follows, and the caller keeps the old one. The model returns the bitmap the
  local pointer reaches, which is the caller's whenever the range is allocated beforehand, as in
  \<open>_pool_resize\<close> and in the properties below.\<close>

definition bitmap_set_range :: "bitmap \<Rightarrow> nat \<Rightarrow> nat \<Rightarrow> (int \<times> bitmap) option" where
  "bitmap_set_range bm from to = do {
     assert_that (from \<le> to);
     let offset_from = from div BITMAP_WIDTH;
     let offset_to = to div BITMAP_WIDTH;
     let pos_from = from mod BITMAP_WIDTH;
     let pos_to = to mod BITMAP_WIDTH;
     (rc1, bm) \<leftarrow>
       (if pos_from \<noteq> 0 \<or> offset_to = offset_from \<and> pos_to \<noteq> BITMAP_WIDTH - 1
        then bitmap_set_each bm [from..<min to ((offset_from + 1) * BITMAP_WIDTH)]
        else Some (0, bm));
     if rc1 < 0 then Some (-1, bm) else do {
     (rc2, bm) \<leftarrow>
       (if pos_to \<noteq> BITMAP_WIDTH - 1 \<and> offset_to \<noteq> offset_from
        then bitmap_set_each bm [max from (offset_to * BITMAP_WIDTH)..<to]
        else Some (0, bm));
     if rc2 < 0 then Some (-1, bm) else do {
     let ofrom = (if pos_from \<noteq> 0 then int offset_from + 1 else int offset_from);
     let oto = (if pos_to \<noteq> BITMAP_WIDTH - 1 then int offset_to - 1 else int offset_to);
     if ofrom \<le> oto
     then do {
       ws \<leftarrow> memset_words (cells bm) (nat ofrom) (nat (oto - ofrom + 1));
       Some (0, bm\<lparr>cells := ws\<rparr>)
     }
     else Some (0, bm) } }
   }"

definition bitmap_set_to :: "bitmap \<Rightarrow> nat \<Rightarrow> (int \<times> bitmap) option" where
  "bitmap_set_to bm to = bitmap_set_range bm 0 to"

text \<open>The word loop of \<open>bitmap_next_set_no_check\<close> and
  \<open>bitmap_next_unset_no_check\<close>: the first non-null word from \<open>pos\<close> on, under
  the per-word view \<open>f\<close> (the word or its complement).\<close>

function next_word :: "(u64 \<Rightarrow> u64) \<Rightarrow> u64 list \<Rightarrow> nat \<Rightarrow> nat \<Rightarrow> nat option" where
  "next_word f ws pos len =
     (if pos < len
      then do {
        w \<leftarrow> read_at ws pos;
        let tmp = f w;
        if tmp \<noteq> 0 then Some (hicn_get_lowest_set_bit_index tmp + pos * 64)
        else next_word f ws (pos + 1) len
      }
      else Some BITMAP_INVALID_INDEX)"
  by pat_completeness auto
termination by (relation "measure (\<lambda>(f, ws, pos, len). len - pos)") auto

declare next_word.simps [simp del]

definition bitmap_next_set_no_check :: "u64 list \<Rightarrow> nat \<Rightarrow> nat \<Rightarrow> nat option" where
  "bitmap_next_set_no_check ws i len =
     (let pos = i div 64; offset = i mod 64; mask = NOT (push_bit offset 1 - 1)
      in if pos < len
         then do {
           w \<leftarrow> read_at ws pos;
           let tmp = w AND mask;
           if tmp \<noteq> 0 then Some (hicn_get_lowest_set_bit_index tmp + pos * 64)
           else next_word (\<lambda>w. w) ws (pos + 1) len
         }
         else Some BITMAP_INVALID_INDEX)"

definition bitmap_next_set :: "bitmap \<Rightarrow> nat \<Rightarrow> nat option" where
  "bitmap_next_set bm i = bitmap_next_set_no_check (cells bm) i (vector_get_alloc_size bm)"

definition bitmap_next_unset_no_check :: "u64 list \<Rightarrow> nat \<Rightarrow> nat \<Rightarrow> nat option" where
  "bitmap_next_unset_no_check ws i len =
     (let pos = i div 64; offset = i mod 64; mask = NOT (push_bit offset 1 - 1)
      in if pos < len
         then do {
           w \<leftarrow> read_at ws pos;
           let tmp = NOT w AND mask;
           if tmp \<noteq> 0 then Some (hicn_get_lowest_set_bit_index tmp + pos * 64)
           else next_word NOT ws (pos + 1) len
         }
         else Some BITMAP_INVALID_INDEX)"

definition bitmap_next_unset :: "bitmap \<Rightarrow> nat \<Rightarrow> nat option" where
  "bitmap_next_unset bm i = bitmap_next_unset_no_check (cells bm) i (vector_get_alloc_size bm)"

section \<open>Abstraction\<close>

definition word_bit :: "u64 list \<Rightarrow> nat \<Rightarrow> bool" where
  "word_bit ws i \<longleftrightarrow> i div 64 < length ws \<and> bit (ws ! (i div 64)) (i mod 64)"

definition bm_bit :: "bitmap \<Rightarrow> nat \<Rightarrow> bool" where
  "bm_bit bm i = word_bit (cells bm) i"

definition bm_bits :: "bitmap \<Rightarrow> nat" where
  "bm_bits bm = 64 * vector_get_alloc_size bm"

text \<open>The last bit of the range is set only when its word is set as a whole.\<close>

definition set_range_last :: "nat \<Rightarrow> nat \<Rightarrow> bool" where
  "set_range_last from to \<longleftrightarrow> to mod 64 = 63 \<and> (from mod 64 = 0 \<or> from div 64 < to div 64)"

text \<open>What a search over the words returns: the least index from \<open>i\<close> on that has the
  property, or the invalid index when there is none below \<open>64 * len\<close>.\<close>

definition is_next :: "(nat \<Rightarrow> bool) \<Rightarrow> nat \<Rightarrow> nat \<Rightarrow> nat \<Rightarrow> bool" where
  "is_next P i len r \<longleftrightarrow>
     (i \<le> r \<and> r < 64 * len \<and> P r \<and> (\<forall>j. i \<le> j \<and> j < r \<longrightarrow> \<not> P j)) \<or>
     (r = BITMAP_INVALID_INDEX \<and> (\<forall>j. i \<le> j \<and> j < 64 * len \<longrightarrow> \<not> P j))"

section \<open>Lemmas\<close>

lemma drop_bit_and_1 [simp]: "drop_bit n w AND 1 = 1 \<longleftrightarrow> bit (w :: u64) n"
  by (simp add: and_one_eq bit_iff_odd_drop_bit odd_iff_mod_2_eq_one)

lemma bm_bit_range: "bm_bit bm i \<Longrightarrow> i < bm_bits bm"
  by (auto simp: bm_bit_def word_bit_def bm_bits_def vector_get_alloc_size_def)

lemma less_bm_bits: "i < bm_bits bm \<longleftrightarrow> i div 64 < length (cells bm)"
  by (auto simp: bm_bits_def vector_get_alloc_size_def)

lemma bitmap_get_bit: "i < bm_bits bm \<Longrightarrow> bitmap_get bm i = Some (bm_bit bm i)"
  by (simp add: less_bm_bits bitmap_get_def bm_bit_def word_bit_def BITMAP_WIDTH_def Let_def
      vector_get_alloc_size_def)

lemma bitmap_get_no_check_bit: "i < bm_bits bm \<Longrightarrow> bitmap_get_no_check bm i = Some (bm_bit bm i)"
  by (simp add: less_bm_bits bitmap_get_no_check_def bm_bit_def word_bit_def BITMAP_WIDTH_def)

lemma div_mod_64_eq: "i = (j::nat) \<longleftrightarrow> i div 64 = j div 64 \<and> i mod 64 = j mod 64"
  by (metis div_mult_mod_eq)

lemma word_bit_or:
  assumes "i < 64 * length ws"
  shows "word_bit (ws[i div 64 := ws ! (i div 64) OR 2 ^ (i mod 64)]) j \<longleftrightarrow> j = i \<or> word_bit ws j"
  using assms by (cases "j div 64 = i div 64")
    (auto simp: word_bit_def bit_simps div_mod_64_eq [of j i])

lemma word_bit_and_not:
  assumes "i < 64 * length ws"
  shows "word_bit (ws[i div 64 := ws ! (i div 64) AND NOT (2 ^ (i mod 64))]) j \<longleftrightarrow>
    j \<noteq> i \<and> word_bit ws j"
  using assms by (cases "j div 64 = i div 64")
    (auto simp: word_bit_def bit_simps div_mod_64_eq [of j i])

lemma word_bit_append_0: "word_bit (ws @ replicate n 0) i = word_bit ws i"
  by (auto simp: word_bit_def nth_append)

lemma bitmap_set_no_check_bit:
  assumes "i < bm_bits bm"
  shows "\<exists>bm'. bitmap_set_no_check bm i = Some bm' \<and> (\<forall>j. bm_bit bm' j \<longleftrightarrow> j = i \<or> bm_bit bm j) \<and>
    bm_bits bm' = bm_bits bm \<and> vector_max_size bm' = vector_max_size bm"
  using assms
  by (auto simp: less_bm_bits bitmap_set_no_check_def BITMAP_WIDTH_def Let_def bm_bit_def
      word_bit_or bm_bits_def vector_get_alloc_size_def)

lemma bitmap_ensure_pos_bits:
  assumes "bitmap_ensure_pos bm i = (rc, bm')" "vector_max_size bm = 0 \<or> i < bm_bits bm"
  shows "rc = 0 \<and> (\<forall>j. bm_bit bm' j = bm_bit bm j) \<and> i < bm_bits bm' \<and> bm_bits bm \<le> bm_bits bm' \<and>
    vector_max_size bm' = vector_max_size bm \<and> (i < bm_bits bm \<longrightarrow> bm_bits bm' = bm_bits bm)"
proof -
  have "i < bm_bits bm \<Longrightarrow> bm' = bm \<and> rc = 0"
    using assms(1) by (auto simp: bitmap_ensure_pos_def vector_ensure_pos_def BITMAP_WIDTH_def
        less_bm_bits vector_get_alloc_size_def)
  moreover have "rc = 0" if "vector_max_size bm = 0"
    using vector_ensure_pos_unlimited [OF that, of "i div 64"] assms(1)
    by (simp add: bitmap_ensure_pos_def BITMAP_WIDTH_def)
  ultimately show ?thesis
    using vector_ensure_pos_cases [of bm "i div 64" rc bm'] assms
    by (auto simp: bitmap_ensure_pos_def BITMAP_WIDTH_def bm_bit_def word_bit_append_0 less_bm_bits
      bm_bits_def vector_get_alloc_size_def)
qed

lemma bitmap_set_bit:
  assumes "vector_max_size bm = 0 \<or> i < bm_bits bm"
  shows "\<exists>bm'. bitmap_set bm i = Some (0, bm') \<and> (\<forall>j. bm_bit bm' j \<longleftrightarrow> j = i \<or> bm_bit bm j) \<and>
    bm_bits bm \<le> bm_bits bm' \<and> vector_max_size bm' = vector_max_size bm \<and>
    (i < bm_bits bm \<longrightarrow> bm_bits bm' = bm_bits bm)"
proof -
  obtain rc bm1 where e: "bitmap_ensure_pos bm i = (rc, bm1)" by force
  note * = bitmap_ensure_pos_bits [OF e assms]
  with bitmap_set_no_check_bit [of i bm1] e show ?thesis
    by (auto simp: bitmap_set_def)
qed

lemma bitmap_unset_bit:
  assumes "i < bm_bits bm"
  shows "\<exists>bm'. bitmap_unset bm i check = Some (0, bm') \<and> (\<forall>j. bm_bit bm' j \<longleftrightarrow> j \<noteq> i \<and> bm_bit bm j) \<and>
    bm_bits bm' = bm_bits bm \<and> vector_max_size bm' = vector_max_size bm"
proof -
  have "(if check then bitmap_ensure_pos bm i else (0, bm)) = (0, bm)"
    using assms by (simp add: bitmap_ensure_pos_def vector_ensure_pos_def BITMAP_WIDTH_def
      less_bm_bits vector_get_alloc_size_def)
  with assms show ?thesis
    by (auto simp: less_bm_bits bitmap_unset_def BITMAP_WIDTH_def Let_def bm_bit_def
      word_bit_and_not bm_bits_def vector_get_alloc_size_def)
qed

lemma bitmap_set_each_bits:
  assumes "\<forall>k\<in>set ks. k < bm_bits bm"
  shows "\<exists>bm'. bitmap_set_each bm ks = Some (0, bm') \<and>
    (\<forall>j. bm_bit bm' j \<longleftrightarrow> j \<in> set ks \<or> bm_bit bm j) \<and> bm_bits bm' = bm_bits bm \<and>
    vector_max_size bm' = vector_max_size bm"
  using assms
proof (induction ks arbitrary: bm)
  case (Cons k ks)
  then obtain bm1 where "bitmap_set bm k = Some (0, bm1)" "\<forall>j. bm_bit bm1 j \<longleftrightarrow> j = k \<or> bm_bit bm j"
    "bm_bits bm1 = bm_bits bm" "vector_max_size bm1 = vector_max_size bm"
    using bitmap_set_bit [of bm k] by auto
  moreover from Cons.IH [of bm1] Cons.prems this obtain bm2 where
    "bitmap_set_each bm1 ks = Some (0, bm2)" "\<forall>j. bm_bit bm2 j \<longleftrightarrow> j \<in> set ks \<or> bm_bit bm1 j"
    "bm_bits bm2 = bm_bits bm1" "vector_max_size bm2 = vector_max_size bm1"
    by auto
  ultimately show ?case by auto
qed simp

lemma memset_words_bits:
  assumes "from + n \<le> length ws"
  shows "\<exists>ws'. memset_words ws from n = Some ws' \<and> length ws' = length ws \<and>
    (\<forall>i. word_bit ws' i \<longleftrightarrow> from \<le> i div 64 \<and> i div 64 < from + n \<or> word_bit ws i)"
proof -
  let ?ws = "take from ws @ replicate n (NOT 0) @ drop (from + n) ws"
  have "?ws ! k = (if from \<le> k \<and> k < from + n then NOT 0 else ws ! k)" if "k < length ws" for k
    using assms that by (cases "k < from"; cases "k < from + n") (auto simp: nth_append)
  moreover have "length ?ws = length ws" using assms by simp
  ultimately have "word_bit ?ws i \<longleftrightarrow>
      from \<le> i div 64 \<and> i div 64 < from + n \<or> word_bit ws i" for i
    using assms by (cases "i div 64 < length ws"; cases "from \<le> i div 64 \<and> i div 64 < from + n")
      (auto simp: word_bit_def simp del: div_less_iff_less_mult)
  with assms show ?thesis by (simp add: memset_words_def)
qed

lemma word_neq_0_bit: "(w::u64) \<noteq> 0 \<Longrightarrow> \<exists>n<64. bit w n"
  using bit_word_eqI [of w 0] by auto

lemma takeWhile_upt:
  assumes "P n" "n < m"
  defines "k \<equiv> length (takeWhile (\<lambda>i. \<not> P i) [0..<m])"
  shows "k \<le> n \<and> P k \<and> (\<forall>i<k. \<not> P i)"
proof -
  let ?xs = "takeWhile (\<lambda>i. \<not> P i) [0..<m]"
  have nth: "?xs ! i = i \<and> \<not> P i" if "i < k" for i
  proof -
    have "length ?xs \<le> m" using length_takeWhile_le [of _ "[0..<m]"] by simp
    then have "?xs ! i = i" using that unfolding k_def by (simp add: takeWhile_nth)
    moreover have "?xs ! i \<in> set ?xs" using that unfolding k_def by (rule nth_mem)
    ultimately show ?thesis by (metis set_takeWhileD)
  qed
  then have "k \<le> n" using assms(1) by (meson not_le)
  moreover have "P ([0..<m] ! k)"
    using nth_length_takeWhile [of "\<lambda>i. \<not> P i" "[0..<m]"] \<open>k \<le> n\<close> assms(2) unfolding k_def by simp
  ultimately show ?thesis using nth assms(2) by simp
qed

lemma hicn_get_lowest_set_bit_index_least:
  assumes "w \<noteq> 0"
  shows "hicn_get_lowest_set_bit_index w < 64 \<and> bit w (hicn_get_lowest_set_bit_index w) \<and>
    (\<forall>m < hicn_get_lowest_set_bit_index w. \<not> bit w m)"
proof -
  obtain n where "bit w n" "n < 64" using word_neq_0_bit [OF assms] by blast
  from takeWhile_upt [of "bit w", OF this] this show ?thesis
    by (simp add: hicn_get_lowest_set_bit_index_def)
qed

lemma range_words_aux:
  fixes qf rf qt rt qj rj :: nat
  assumes "64 * qf + rf \<le> 64 * qt + rt" "rf < 64" "rt < 64" "rj < 64"
  shows "((if rf \<noteq> 0 then qf < qj else qf \<le> qj) \<and> (if rt \<noteq> 63 then qj < qt else qj \<le> qt)) \<or>
     ((rf \<noteq> 0 \<or> qt = qf \<and> rt \<noteq> 63) \<and> 64 * qf + rf \<le> 64 * qj + rj \<and>
        64 * qj + rj < 64 * qt + rt \<and> 64 * qj + rj < 64 * qf + 64) \<or>
     ((rt \<noteq> 63 \<and> qt \<noteq> qf) \<and> 64 * qf + rf \<le> 64 * qj + rj \<and> 64 * qt \<le> 64 * qj + rj \<and>
        64 * qj + rj < 64 * qt + rt) \<longleftrightarrow>
     (64 * qf + rf \<le> 64 * qj + rj \<and> 64 * qj + rj < 64 * qt + rt) \<or>
     (rt = 63 \<and> (rf = 0 \<or> qf < qt) \<and> 64 * qj + rj = 64 * qt + rt)"
  using assms by (cases "rf = 0"; cases "rt = 63"; cases "qf = qt"; cases "qj = qt"; cases "qj = qf") auto

lemma range_words:
  fixes f t j :: nat
  assumes "f \<le> t"
  shows "((if f mod 64 \<noteq> 0 then f div 64 < j div 64 else f div 64 \<le> j div 64) \<and>
      (if t mod 64 \<noteq> 63 then j div 64 < t div 64 else j div 64 \<le> t div 64)) \<or>
     ((f mod 64 \<noteq> 0 \<or> t div 64 = f div 64 \<and> t mod 64 \<noteq> 63) \<and> f \<le> j \<and> j < t \<and> j < 64 * (f div 64) + 64) \<or>
     ((t mod 64 \<noteq> 63 \<and> t div 64 \<noteq> f div 64) \<and> f \<le> j \<and> 64 * (t div 64) \<le> j \<and> j < t) \<longleftrightarrow>
     (f \<le> j \<and> j < t) \<or> (set_range_last f t \<and> j = t)"
proof -
  have "64 * (n div 64) + n mod 64 = n" "n mod 64 < 64" for n :: nat by simp_all
  with range_words_aux [of "f div 64" "f mod 64" "t div 64" "t mod 64" "j mod 64" "j div 64"] assms
  show ?thesis unfolding set_range_last_def by (simp only: conj_assoc)
qed

lemma word_interval:
  fixes qf qt qj :: nat and b c :: bool
  defines "ofr \<equiv> (if b then int qf + 1 else int qf)" and "oto \<equiv> (if c then int qt - 1 else int qt)"
  shows "ofr \<le> oto \<and> nat ofr \<le> qj \<and> qj < nat ofr + nat (oto - ofr + 1) \<longleftrightarrow>
      (if b then qf < qj else qf \<le> qj) \<and> (if c then qj < qt else qj \<le> qt)"
    and "ofr \<le> oto \<Longrightarrow> nat ofr + nat (oto - ofr + 1) = (if c then qt else qt + 1)"
  unfolding ofr_def oto_def by (cases b; cases c; simp; linarith)+

lemma bitmap_set_range_exact:
  assumes "from \<le> to" "to \<le> bm_bits bm"
  shows "\<exists>bm'. bitmap_set_range bm from to = Some (0, bm') \<and> bm_bits bm' = bm_bits bm \<and>
    vector_max_size bm' = vector_max_size bm \<and>
    (\<forall>j. bm_bit bm' j \<longleftrightarrow> bm_bit bm j \<or> from \<le> j \<and> j < to \<or> set_range_last from to \<and> j = to)"
proof -
  define c1 where "c1 \<longleftrightarrow> from mod 64 \<noteq> 0 \<or> to div 64 = from div 64 \<and> to mod 64 \<noteq> 63"
  define c2 where "c2 \<longleftrightarrow> to mod 64 \<noteq> 63 \<and> to div 64 \<noteq> from div 64"
  let ?k1 = "if c1 then [from..<min to ((from div 64 + 1) * 64)] else []"
  let ?k2 = "if c2 then [max from (to div 64 * 64)..<to] else []"
  obtain bm1 where bm1: "bitmap_set_each bm ?k1 = Some (0, bm1)" "bm_bits bm1 = bm_bits bm"
    "\<forall>j. bm_bit bm1 j \<longleftrightarrow> j \<in> set ?k1 \<or> bm_bit bm j" "vector_max_size bm1 = vector_max_size bm"
    using bitmap_set_each_bits [of ?k1 bm] assms by auto
  obtain bm2 where bm2: "bitmap_set_each bm1 ?k2 = Some (0, bm2)" "bm_bits bm2 = bm_bits bm1"
    "\<forall>j. bm_bit bm2 j \<longleftrightarrow> j \<in> set ?k2 \<or> bm_bit bm1 j" "vector_max_size bm2 = vector_max_size bm1"
    using bitmap_set_each_bits [of ?k2 bm1] assms bm1 by auto
  define ofr where "ofr = (if from mod 64 \<noteq> 0 then int (from div 64) + 1 else int (from div 64))"
  define oto where "oto = (if to mod 64 \<noteq> 63 then int (to div 64) - 1 else int (to div 64))"
  define m where "m = nat (oto - ofr + 1)"
  have "to mod 64 = 63 \<Longrightarrow> to \<noteq> 64 * length (cells bm)" by auto
  then have "to mod 64 = 63 \<Longrightarrow> to div 64 < length (cells bm)" "to div 64 \<le> length (cells bm)"
    using assms(2) by (auto simp: bm_bits_def vector_get_alloc_size_def)
  then have m: "nat ofr + m \<le> length (cells bm2)" if "ofr \<le> oto"
    using word_interval(2) [of "from mod 64 \<noteq> 0" "from div 64" "to mod 64 \<noteq> 63" "to div 64",
        folded ofr_def oto_def m_def, OF that] bm1(2) bm2(2)
    by (simp add: bm_bits_def vector_get_alloc_size_def Suc_le_eq)
  note words = word_interval(1) [of "from mod 64 \<noteq> 0" "from div 64" "to mod 64 \<noteq> 63" "to div 64",
      folded ofr_def oto_def m_def]
  have bits: "(ofr \<le> oto \<and> nat ofr \<le> j div 64 \<and> j div 64 < nat ofr + m) \<or> bm_bit bm2 j \<longleftrightarrow>
      bm_bit bm j \<or> from \<le> j \<and> j < to \<or> set_range_last from to \<and> j = to" for j
  proof -
    have "bm_bit bm2 j \<longleftrightarrow> ((c2 \<and> from \<le> j \<and> 64 * (to div 64) \<le> j \<and> j < to) \<or>
        (c1 \<and> from \<le> j \<and> j < to \<and> j < 64 * (from div 64) + 64)) \<or> bm_bit bm j"
      using spec [OF bm1(3), of j] spec [OF bm2(3), of j]
      by (cases c1; cases c2) (simp_all add: mult.commute add.commute conj_ac disj_ac)
    then show ?thesis unfolding words
      using range_words [OF assms(1), of j, folded c1_def c2_def] by argo
  qed
  have run: "bitmap_set_range bm from to =
     (if ofr \<le> oto then do { ws \<leftarrow> memset_words (cells bm2) (nat ofr) m; Some (0, bm2\<lparr>cells := ws\<rparr>) }
      else Some (0, bm2))"
  proof -
    have p1: "(if c1 then bitmap_set_each bm [from..<min to ((from div 64 + 1) * 64)] else Some (0, bm))
        = Some (0, bm1)"
      and p2: "(if c2 then bitmap_set_each bm1 [max from (to div 64 * 64)..<to] else Some (0, bm1))
        = Some (0, bm2)"
      using bm1(1) bm2(1) by (cases c1; cases c2; simp)+
    have w: "(64::nat) - 1 = 63" by simp
    show ?thesis
      unfolding bitmap_set_range_def BITMAP_WIDTH_def Let_def w c1_def [symmetric] c2_def [symmetric]
        ofr_def [symmetric] oto_def [symmetric]
      using assms(1) by (simp add: p1 p2 m_def)
  qed
  show ?thesis
  proof (cases "ofr \<le> oto")
    case True
    with memset_words_bits [OF m [OF True]] obtain ws where ws:
      "memset_words (cells bm2) (nat ofr) m = Some ws" "length ws = length (cells bm2)"
      "\<forall>i. word_bit ws i \<longleftrightarrow> nat ofr \<le> i div 64 \<and> i div 64 < nat ofr + m \<or> word_bit (cells bm2) i"
      by blast
    then have "bm_bit (bm2\<lparr>cells := ws\<rparr>) j \<longleftrightarrow>
      bm_bit bm j \<or> from \<le> j \<and> j < to \<or> set_range_last from to \<and> j = to" for j
      using bits [of j] True by (simp add: bm_bit_def)
    with run True ws(1,2) bm1(2,4) bm2(2,4) show ?thesis
      by (simp add: bm_bits_def vector_get_alloc_size_def)
  next
    case False
    then show ?thesis using bits run bm1(2,4) bm2(2,4) by simp
  qed
qed

lemma bit_high_mask: "bit (NOT (push_bit n 1 - 1) :: u64) k \<longleftrightarrow> n \<le> k \<and> k < 64"
proof -
  have "push_bit n 1 - 1 = (mask n :: u64)" by (simp add: mask_eq_exp_minus_1)
  then show ?thesis by (auto simp: bit_simps not_less)
qed

lemma is_next_here:
  assumes "w \<noteq> 0" "q < len" "\<And>k. k < 64 \<Longrightarrow> bit w k \<longleftrightarrow> i \<le> q * 64 + k \<and> P (q * 64 + k)"
    "q * 64 \<le> i \<or> i \<le> q * 64 \<and> (\<forall>j. i \<le> j \<and> j < q * 64 \<longrightarrow> \<not> P j)"
  shows "is_next P i len (hicn_get_lowest_set_bit_index w + q * 64)"
proof -
  let ?k = "hicn_get_lowest_set_bit_index w"
  have k: "?k < 64" "bit w ?k" "\<forall>m<?k. \<not> bit w m"
    using hicn_get_lowest_set_bit_index_least [OF assms(1)] by auto
  then have "i \<le> q * 64 + ?k" "P (q * 64 + ?k)" using assms(3) [of ?k] by auto
  moreover have "q * 64 + ?k < 64 * len" using assms(2) k(1) by linarith
  moreover have "\<not> P j" if "i \<le> j" "j < q * 64 + ?k" for j
  proof (cases "q * 64 \<le> j")
    case True
    with that k(1) have "j - q * 64 < 64" "\<not> bit w (j - q * 64)"
      using k(3) by auto
    with assms(3) [of "j - q * 64"] that True show ?thesis by auto
  next
    case False
    with that assms(4) show ?thesis by auto
  qed
  ultimately show ?thesis by (auto simp: is_next_def ac_simps)
qed

lemma is_next_step:
  assumes "is_next P i' len r" "i \<le> i'" "\<forall>j. i \<le> j \<and> j < i' \<longrightarrow> \<not> P j"
  shows "is_next P i len r"
  using assms unfolding is_next_def by (meson le_trans not_le)

lemma next_word_is_next:
  assumes "len \<le> length ws" "pos \<le> len" "\<And>q k. q < len \<Longrightarrow> k < 64 \<Longrightarrow> bit (f (ws ! q)) k = P (q * 64 + k)"
  shows "\<exists>r. next_word f ws pos len = Some r \<and> is_next P (pos * 64) len r"
  using assms(2)
proof (induction "len - pos" arbitrary: pos)
  case 0
  then have "next_word f ws pos len = Some BITMAP_INVALID_INDEX"
    by (subst next_word.simps) simp
  with 0 show ?case by (auto simp: is_next_def)
next
  case (Suc n)
  then have pos: "pos < len" by simp
  show ?case
  proof (cases "f (ws ! pos) = 0")
    case True
    have "\<not> P j" if "pos * 64 \<le> j" "j < (pos + 1) * 64" for j
      using assms(3) [OF pos, of "j - pos * 64"] that True by auto
    moreover obtain r where "next_word f ws (pos + 1) len = Some r" "is_next P ((pos + 1) * 64) len r"
      using Suc(1) [of "pos + 1"] Suc(2) pos by (metis Suc_diff_Suc Suc_eq_plus1 Suc_inject Suc_leI)
    ultimately show ?thesis
      using True pos assms(1) is_next_step [of P "(pos + 1) * 64" len r "pos * 64"]
      by (simp add: next_word.simps [of f ws pos len])
  next
    case False
    have "is_next P (pos * 64) len (hicn_get_lowest_set_bit_index (f (ws ! pos)) + pos * 64)"
      by (rule is_next_here [OF False pos]) (use assms(3) [OF pos] in auto)
    then show ?thesis using False pos assms(1) by (simp add: next_word.simps [of f ws pos len])
  qed
qed

lemma search_is_next:
  assumes "len \<le> length ws" "\<And>q k. q < len \<Longrightarrow> k < 64 \<Longrightarrow> bit (f (ws ! q)) k = P (q * 64 + k)"
  shows "\<exists>r. (if i div 64 < len
      then do {
        w \<leftarrow> read_at ws (i div 64);
        let tmp = f w AND NOT (push_bit (i mod 64) 1 - 1);
        if tmp \<noteq> 0 then Some (hicn_get_lowest_set_bit_index tmp + i div 64 * 64)
        else next_word f ws (i div 64 + 1) len
      }
      else Some BITMAP_INVALID_INDEX) = Some r \<and> is_next P i len r"
proof (cases "i div 64 < len")
  case False
  then show ?thesis by (auto simp: is_next_def)
next
  case pos: True
  define tmp where "tmp = f (ws ! (i div 64)) AND NOT (push_bit (i mod 64) 1 - 1)"
  have bits: "bit tmp k \<longleftrightarrow> i mod 64 \<le> k \<and> P (i div 64 * 64 + k)" if "k < 64" for k
    using assms(2) [OF pos that] that unfolding tmp_def bit_and_iff bit_high_mask by auto
  have le: "i mod 64 \<le> k \<longleftrightarrow> i \<le> i div 64 * 64 + k" for k by presburger
  show ?thesis
  proof (cases "tmp = 0")
    case True
    have "\<not> P j" if "i \<le> j" "j < (i div 64 + 1) * 64" for j
    proof -
      have "i div 64 * 64 \<le> j" "j - i div 64 * 64 < 64"
        using that div_times_less_eq_dividend [of i 64] by (auto simp: less_diff_conv2)
      with bits [of "j - i div 64 * 64"] True le [of "j - i div 64 * 64"] that(1) show ?thesis by simp
    qed
    moreover have "i \<le> (i div 64 + 1) * 64" by simp
    moreover obtain r where "next_word f ws (i div 64 + 1) len = Some r"
      "is_next P ((i div 64 + 1) * 64) len r"
      using next_word_is_next [of len ws "i div 64 + 1" f P] assms pos by auto
    ultimately show ?thesis
      using is_next_step [of P "(i div 64 + 1) * 64" len r i] pos True assms(1)
      by (simp add: tmp_def)
  next
    case False
    have "is_next P i len (hicn_get_lowest_set_bit_index tmp + i div 64 * 64)"
      by (rule is_next_here [OF False pos]) (use bits le in auto)
    then show ?thesis using False pos assms(1) by (simp add: tmp_def)
  qed
qed

section \<open>Properties\<close>

text \<open>Setting and clearing bits is exact: \<open>bitmap_set\<close> (which may grow the
  bitmap with zeros) and \<open>bitmap_unset\<close> change the addressed bit and no other,
  and \<open>bitmap_get\<close> reads it back.\<close>

theorem bitmap_set_get:
  assumes "vector_max_size bm = 0"
  shows "\<exists>bm1. bitmap_set bm i = Some (0, bm1) \<and> bitmap_get bm1 i = Some True \<and>
    (\<forall>j < bm_bits bm. j \<noteq> i \<longrightarrow> bitmap_get bm1 j = bitmap_get bm j) \<and>
    (\<exists>bm2. bitmap_unset bm1 i True = Some (0, bm2) \<and> bitmap_get bm2 i = Some False \<and>
      (\<forall>j < bm_bits bm. j \<noteq> i \<longrightarrow> bitmap_get bm2 j = bitmap_get bm j))"
proof -
  obtain bm1 where bm1: "bitmap_set bm i = Some (0, bm1)" "\<forall>j. bm_bit bm1 j \<longleftrightarrow> j = i \<or> bm_bit bm j"
    "bm_bits bm \<le> bm_bits bm1" using bitmap_set_bit [of bm i] assms by auto
  then have i: "i < bm_bits bm1" using bm_bit_range by blast
  obtain bm2 where "bitmap_unset bm1 i True = Some (0, bm2)" "bm_bits bm2 = bm_bits bm1"
    "\<forall>j. bm_bit bm2 j \<longleftrightarrow> j \<noteq> i \<and> bm_bit bm1 j"
    using bitmap_unset_bit [OF i] by blast
  with bm1 i show ?thesis by (auto simp: bitmap_get_bit)
qed

definition bitmap_example :: bitmap where
  "bitmap_example = \<lparr>cur_size = 0, vector_max_size = 0, cells = [8, 1]\<rparr>"

theorem bitmap_set_get_witness:
  "vector_max_size bitmap_example = 0 \<and>
   (\<exists>bm1. bitmap_set bitmap_example 200 = Some (0, bm1) \<and> bitmap_get bm1 200 = Some True)"
  using bitmap_set_get [of bitmap_example 200] by (auto simp: bitmap_example_def)

text \<open>C32: \<open>bitmap_set_range\<close> sets every bit of \<open>from..to - 1\<close>, keeps the
  others, and sets the bit \<open>to\<close> exactly when \<open>to\<close> is the last bit of a word that
  the range covers from its first bit.\<close>

theorem bitmap_set_range_bits:
  assumes "from \<le> to" "to \<le> bm_bits bm"
  shows "\<exists>bm'. bitmap_set_range bm from to = Some (0, bm') \<and> bm_bits bm' = bm_bits bm \<and>
    (\<forall>j. bm_bit bm' j \<longleftrightarrow> bm_bit bm j \<or> from \<le> j \<and> j < to \<or>
       j = to \<and> to mod 64 = 63 \<and> (from mod 64 = 0 \<or> from div 64 < to div 64))"
  using bitmap_set_range_exact [OF assms] unfolding set_range_last_def by metis

theorem bitmap_set_range_bits_witness:
  "\<exists>bm'. bitmap_set_range bitmap_example 10 20 = Some (0, bm') \<and> bm_bit bm' 19 \<and> \<not> bm_bit bm' 20"
proof -
  have "bm_bits bitmap_example = 128" "\<not> bm_bit bitmap_example 20"
    by (simp_all add: bitmap_example_def bm_bits_def vector_get_alloc_size_def bm_bit_def word_bit_def
        bit_iff_odd)
  with bitmap_set_range_bits [of 10 20 bitmap_example] show ?thesis by auto
qed

text \<open>\<open>bitmap_next_set\<close> and \<open>bitmap_next_unset\<close> return the least set
  (respectively unset) bit from \<open>i\<close> on, and the invalid index when there is none.\<close>

theorem bitmap_next_set_least:
  "\<exists>r s. bitmap_next_set bm i = Some r \<and> bitmap_next_unset bm i = Some s \<and>
    is_next (bm_bit bm) i (vector_get_alloc_size bm) r \<and>
    is_next (\<lambda>j. \<not> bm_bit bm j) i (vector_get_alloc_size bm) s"
proof -
  let ?ws = "cells bm" and ?n = "length (cells bm)"
  have "bit (?ws ! q) k = bm_bit bm (q * 64 + k)" if "q < ?n" "k < 64" for q k
    using that by (simp add: bm_bit_def word_bit_def)
  moreover have "bit (NOT (?ws ! q)) k = (\<not> bm_bit bm (q * 64 + k))" if "q < ?n" "k < 64" for q k
    using that by (simp add: bm_bit_def word_bit_def bit_simps)
  ultimately show ?thesis
    using search_is_next [of ?n ?ws "\<lambda>w. w" "bm_bit bm" i]
      search_is_next [of ?n ?ws NOT "\<lambda>j. \<not> bm_bit bm j" i]
    unfolding bitmap_next_set_def bitmap_next_unset_def bitmap_next_set_no_check_def
      bitmap_next_unset_no_check_def vector_get_alloc_size_def Let_def by blast
qed

end
