(* ===== verification/Util_Pool.thy ===== *)
theory Util_Pool
  imports Util_Bitmap
begin

text \<open>
  The pool allocator of \<open>lib/includes/hicn/util/pool.h\<close> and
  \<open>lib/src/util/pool.c\<close>: a growable array of elements with a stack of free
  indices and a bitmap of free indices.  Elements are named by their index; the
  element memory is a function on indices, since fresh memory holds whatever it
  held before.  Every \<open>realloc\<close> succeeds; a failed resize leaves a null pool that
  the caller dereferences, which is \<^term>\<open>None\<close> here.
\<close>

section \<open>Model\<close>

record 'a pool =
  pool_alloc_size :: nat
  pool_max_size :: nat
  free_bitmap :: bitmap
  free_indices :: "nat vector"
  pool_elts :: "nat \<Rightarrow> 'a"

text \<open>A run of assignments \<open>free_indices[i] = f i\<close> for \<open>i < n\<close>.\<close>

definition fill_indices :: "nat vector \<Rightarrow> nat \<Rightarrow> (nat \<Rightarrow> nat) \<Rightarrow> nat vector option" where
  "fill_indices v n f =
     (if n \<le> length (cells v) then Some (v\<lparr>cells := map f [0..<n] @ drop n (cells v)\<rparr>) else None)"

text \<open>The pool is null when the requested size exceeds the maximum: the result is
  then \<open>Some None\<close>.\<close>

definition pool_init :: "'a \<Rightarrow> (nat \<Rightarrow> 'a) \<Rightarrow> nat \<Rightarrow> nat \<Rightarrow> 'a pool option option" where
  "pool_init zero junk init_size max_size =
     (let init_size = next_pow2 init_size
      in if max_size \<noteq> 0 \<and> max_size < init_size then Some None
         else do {
           let alloc_size = next_pow2 init_size;
           fi \<leftarrow> vector_init init_size max_size;
           fi \<leftarrow> fill_indices fi init_size (\<lambda>i. init_size - 1 - i);
           fb \<leftarrow> bitmap_init init_size max_size;
           (_, fb) \<leftarrow> bitmap_set_to fb init_size;
           Some (Some \<lparr>pool_alloc_size = alloc_size, pool_max_size = max_size,
                       free_bitmap = fb, free_indices = fi\<lparr>cur_size := init_size\<rparr>,
                       pool_elts = (\<lambda>i. if i < alloc_size then zero else junk i)\<rparr>)
         })"

definition pool_validate_id :: "'a pool \<Rightarrow> nat \<Rightarrow> bool option" where
  "pool_validate_id ph eid =
     (if pool_alloc_size ph \<le> eid then Some False
      else do { b \<leftarrow> bitmap_get (free_bitmap ph) eid; Some (\<not> b) })"

definition pool_resize :: "'a pool \<Rightarrow> 'a pool option option" where
  "pool_resize ph =
     (let old_size = pool_alloc_size ph; new_size = old_size * 2
      in if pool_max_size ph \<noteq> 0 \<and> pool_max_size ph < new_size then Some None
         else do {
           let fi = snd (vector_ensure_pos (free_indices ph) old_size);
           fi \<leftarrow> fill_indices fi old_size (\<lambda>i. new_size - 1 - i);
           let fb = snd (bitmap_ensure_pos (free_bitmap ph) (new_size - 1));
           (_, fb) \<leftarrow> bitmap_set_range fb old_size (new_size - 1);
           Some (Some (ph\<lparr>pool_alloc_size := new_size, free_indices := fi\<lparr>cur_size := old_size\<rparr>,
                          free_bitmap := fb\<rparr>))
         })"

text \<open>\<open>_pool_get\<close> returns the index of the allocated element.\<close>

definition pool_get :: "'a pool \<Rightarrow> (nat \<times> 'a pool) option" where
  "pool_get ph = do {
     ph \<leftarrow> (if vector_len (free_indices ph) = 0 then do { r \<leftarrow> pool_resize ph; r } else Some ph);
     let l = vector_len (free_indices ph);
     assert_that (0 < l);
     free_id \<leftarrow> read_at (cells (free_indices ph)) (l - 1);
     (_, fb) \<leftarrow> bitmap_unset (free_bitmap ph) free_id True;
     Some (free_id, ph\<lparr>free_indices := (free_indices ph)\<lparr>cur_size := l - 1\<rparr>, free_bitmap := fb\<rparr>)
   }"

definition pool_put :: "'a pool \<Rightarrow> nat \<Rightarrow> 'a pool option" where
  "pool_put ph freed_id = do {
     let l = vector_len (free_indices ph);
     let fi = snd (vector_ensure_pos (free_indices ph) l);
     cs \<leftarrow> write_at (cells fi) l freed_id;
     (_, fb) \<leftarrow> bitmap_set (free_bitmap ph) freed_id;
     Some (ph\<lparr>free_indices := fi\<lparr>cells := cs, cur_size := l + 1\<rparr>, free_bitmap := fb\<rparr>)
   }"

definition pool_len :: "'a pool \<Rightarrow> nat" where
  "pool_len ph = pool_alloc_size ph - vector_len (free_indices ph)"

text \<open>The indices on which \<open>pool_enumerate\<close> runs its body, in order.\<close>

definition pool_enumerate :: "'a pool \<Rightarrow> nat list option" where
  "pool_enumerate ph = do {
     bs \<leftarrow> mapM (bitmap_get (free_bitmap ph)) [0..<pool_alloc_size ph];
     Some (map fst (filter (\<lambda>(i, b). \<not> b) (zip [0..<pool_alloc_size ph] bs)))
   }"

section \<open>Invariant and abstraction\<close>

text \<open>The indices in use.\<close>

definition pool_used :: "'a pool \<Rightarrow> nat set" where
  "pool_used ph = {i. i < pool_alloc_size ph \<and> i \<notin> set (vec (free_indices ph))}"

text \<open>\<open>pool_wf\<close> is the invariant of the free stack; \<open>pool_inv\<close> adds that the bitmap
  agrees with it and that the size is at least one bitmap word.\<close>

definition pool_wf :: "'a pool \<Rightarrow> bool" where
  "pool_wf ph \<longleftrightarrow>
     0 < pool_alloc_size ph \<and> vector_inv (free_indices ph) \<and>
     distinct (vec (free_indices ph)) \<and>
     (\<forall>i \<in> set (vec (free_indices ph)). i < pool_alloc_size ph) \<and>
     pool_alloc_size ph \<le> bm_bits (free_bitmap ph) \<and>
     pool_max_size ph = 0 \<and> vector_max_size (free_indices ph) = 0 \<and>
     vector_max_size (free_bitmap ph) = 0"

definition pool_inv :: "'a pool \<Rightarrow> bool" where
  "pool_inv ph \<longleftrightarrow>
     pool_wf ph \<and> 64 dvd pool_alloc_size ph \<and>
     (\<forall>i < pool_alloc_size ph. bm_bit (free_bitmap ph) i \<longleftrightarrow> i \<in> set (vec (free_indices ph)))"

definition pool_bits_ok :: "'a pool \<Rightarrow> bool" where
  "pool_bits_ok ph \<longleftrightarrow>
     (\<forall>i < pool_alloc_size ph. bm_bit (free_bitmap ph) i \<longleftrightarrow> i \<in> set (vec (free_indices ph)))"

text \<open>The contract of an allocator of identifiers.\<close>

locale allocator =
  fixes get :: "'p \<Rightarrow> (nat \<times> 'p) option"
    and put :: "'p \<Rightarrow> nat \<Rightarrow> 'p option"
    and used :: "'p \<Rightarrow> nat set"
    and invar :: "'p \<Rightarrow> bool"
  assumes get_fresh: "invar p \<Longrightarrow>
      \<exists>i p'. get p = Some (i, p') \<and> invar p' \<and> i \<notin> used p \<and> used p' = insert i (used p)"
    and put_frees: "invar p \<Longrightarrow> i \<in> used p \<Longrightarrow>
      \<exists>p'. put p i = Some p' \<and> invar p' \<and> used p' = used p - {i}"
begin

fun get_n :: "'p \<Rightarrow> nat \<Rightarrow> (nat list \<times> 'p) option" where
  "get_n p 0 = Some ([], p)"
| "get_n p (Suc n) = do { (i, p) \<leftarrow> get p; (is, p) \<leftarrow> get_n p n; Some (i # is, p) }"

lemma get_n_fresh:
  assumes "invar p"
  shows "\<exists>is p'. get_n p n = Some (is, p') \<and> invar p' \<and> distinct is \<and> length is = n \<and>
    set is \<inter> used p = {} \<and> used p' = set is \<union> used p"
  using assms
proof (induction n arbitrary: p)
  case (Suc n)
  obtain i p1 where 1: "get p = Some (i, p1)" "invar p1" "i \<notin> used p" "used p1 = insert i (used p)"
    using get_fresh [OF Suc.prems] by blast
  obtain "is" p2 where 2: "get_n p1 n = Some (is, p2)" "invar p2" "distinct is" "length is = n"
    "set is \<inter> used p1 = {}" "used p2 = set is \<union> used p1"
    using Suc.IH [OF 1(2)] by blast
  have "get_n p (Suc n) = Some (i # is, p2)" using 1 2 by simp
  moreover have "distinct (i # is)" "set (i # is) \<inter> used p = {}" using 1 2 by auto
  ultimately show ?case using 1 2 by fastforce
qed simp

text \<open>Releasing what was just allocated restores the set of identifiers in use.\<close>

lemma get_put:
  assumes "invar p" "get p = Some (i, p1)"
  shows "\<exists>p2. put p1 i = Some p2 \<and> invar p2 \<and> used p2 = used p"
proof -
  have "invar p1" "i \<notin> used p" "used p1 = insert i (used p)"
    using get_fresh [OF assms(1)] assms(2) by auto
  with put_frees [of p1 i] show ?thesis by auto
qed

end

section \<open>Lemmas\<close>

lemma vec_pop:
  assumes "vector_inv v" "0 < cur_size v"
  shows "vec v = vec (v\<lparr>cur_size := cur_size v - 1\<rparr>) @ [cells v ! (cur_size v - 1)]"
  using assms by (cases "cur_size v")
    (auto simp: vec_def vector_inv_def vector_get_alloc_size_def take_Suc_conv_app_nth)

lemma pool_pop_correct:
  assumes wf: "pool_wf ph" and ne: "0 < vector_len (free_indices ph)"
  defines "l \<equiv> vector_len (free_indices ph)"
  defines "i \<equiv> cells (free_indices ph) ! (l - 1)"
  shows "\<exists>fb. bitmap_unset (free_bitmap ph) i True = Some (0, fb) \<and>
    (let ph' = ph\<lparr>free_indices := (free_indices ph)\<lparr>cur_size := l - 1\<rparr>, free_bitmap := fb\<rparr>
     in pool_wf ph' \<and> (pool_bits_ok ph \<longrightarrow> pool_bits_ok ph') \<and> i \<notin> pool_used ph \<and>
        i < pool_alloc_size ph \<and> pool_used ph' = insert i (pool_used ph))"
proof -
  let ?v = "free_indices ph"
  have v: "vector_inv ?v" "0 < cur_size ?v" "l = cur_size ?v"
    using wf ne by (auto simp: pool_wf_def l_def vector_len_def)
  have split: "vec ?v = vec (?v\<lparr>cur_size := l - 1\<rparr>) @ [i]"
    using vec_pop [OF v(1,2)] v(3) by (simp add: i_def)
  then have i: "i \<in> set (vec ?v)" by (metis in_set_conv_decomp)
  then have "i < pool_alloc_size ph" "i < bm_bits (free_bitmap ph)"
    using wf by (auto simp: pool_wf_def)
  moreover obtain fb where fb: "bitmap_unset (free_bitmap ph) i True = Some (0, fb)"
    "\<forall>j. bm_bit fb j \<longleftrightarrow> j \<noteq> i \<and> bm_bit (free_bitmap ph) j" "bm_bits fb = bm_bits (free_bitmap ph)"
    "vector_max_size fb = vector_max_size (free_bitmap ph)"
    using bitmap_unset_bit calculation(2) by blast
  moreover have "distinct (vec (?v\<lparr>cur_size := l - 1\<rparr>) @ [i])"
    using wf split by (simp add: pool_wf_def)
  ultimately show ?thesis
    using wf v i unfolding Let_def
    by (intro exI [of _ fb])
       (auto simp: pool_wf_def pool_bits_ok_def pool_used_def split vector_inv_def vector_get_alloc_size_def)
qed

lemma fresh_indices:
  "set (map (\<lambda>i. 2 * n - 1 - i) [0..<n]) = {n..<2 * n}"
  "distinct (map (\<lambda>i. 2 * n - 1 - i) [0..<n])"
proof -
  have "j \<in> (\<lambda>i. 2 * n - 1 - i) ` {0..<n}" if "n \<le> j" "j < 2 * n" for j
    using that by (intro image_eqI [of _ _ "2 * n - 1 - j"]) auto
  then show "set (map (\<lambda>i. 2 * n - 1 - i) [0..<n]) = {n..<2 * n}" by auto
  show "distinct (map (\<lambda>i. 2 * n - 1 - i) [0..<n])"
    by (auto simp: distinct_map inj_on_def)
qed

lemma pool_resize_correct:
  assumes wf: "pool_wf ph"
  defines "old \<equiv> pool_alloc_size ph"
  shows "\<exists>ph'. pool_resize ph = Some (Some ph') \<and> pool_wf ph' \<and> pool_alloc_size ph' = 2 * old \<and>
    pool_elts ph' = pool_elts ph \<and> set (vec (free_indices ph')) = {old..<2 * old} \<and>
    vector_len (free_indices ph') = old \<and>
    (\<forall>j. bm_bit (free_bitmap ph') j \<longleftrightarrow> bm_bit (free_bitmap ph) j \<or> old \<le> j \<and> j < 2 * old - 1 \<or>
       set_range_last old (2 * old - 1) \<and> j = 2 * old - 1)"
proof -
  let ?fi = "snd (vector_ensure_pos (free_indices ph) old)"
  have old: "0 < old" "pool_max_size ph = 0" "vector_max_size (free_indices ph) = 0"
    "vector_max_size (free_bitmap ph) = 0"
    using wf by (auto simp: pool_wf_def old_def)
  have fi: "old < length (cells ?fi)" "vector_max_size ?fi = 0"
    using vector_ensure_pos_cases [of "free_indices ph" old 0 ?fi]
      vector_ensure_pos_unlimited [OF old(3), of old] old(3)
    by (auto simp: vector_get_alloc_size_def prod_eq_iff)
  define f where "f = (\<lambda>i. old * 2 - 1 - i)"
  let ?fi' = "?fi\<lparr>cells := map f [0..<old] @ drop old (cells ?fi)\<rparr>"
  let ?v = "?fi'\<lparr>cur_size := old\<rparr>"
  have run_fi: "fill_indices ?fi old f = Some ?fi'"
    using fi by (simp add: fill_indices_def)
  have v: "vec ?v = map (\<lambda>i. 2 * old - 1 - i) [0..<old]" "vector_inv ?v"
    using fi by (simp_all add: vec_def vector_inv_def vector_get_alloc_size_def mult.commute f_def)
  obtain rc fb where fb: "bitmap_ensure_pos (free_bitmap ph) (2 * old - 1) = (rc, fb)" by force
  note grow = bitmap_ensure_pos_bits [OF fb, simplified old(4), simplified]
  have le: "old \<le> 2 * old - 1" "2 * old - 1 \<le> bm_bits fb" using old(1) grow by auto
  obtain fb' where fb': "bitmap_set_range fb old (2 * old - 1) = Some (0, fb')"
    "bm_bits fb' = bm_bits fb" "vector_max_size fb' = vector_max_size fb"
    "\<forall>j. bm_bit fb' j \<longleftrightarrow> bm_bit fb j \<or> old \<le> j \<and> j < 2 * old - 1 \<or>
       set_range_last old (2 * old - 1) \<and> j = 2 * old - 1"
    using bitmap_set_range_exact [OF le] by blast
  let ?ph' = "ph\<lparr>pool_alloc_size := old * 2, free_indices := ?v, free_bitmap := fb'\<rparr>"
  have "pool_resize ph = Some (Some ?ph')"
    unfolding pool_resize_def Let_def old_def [symmetric] f_def [symmetric]
    using old(2) run_fi fb fb'(1) by (simp add: mult.commute)
  moreover have "pool_wf ?ph'"
    unfolding pool_wf_def
    using old fi(2) v fresh_indices [of old] grow fb'(2,3) le(2)
    by (simp add: mult.commute) (use grow in linarith)
  ultimately show ?thesis
    using v fresh_indices(1) [of old] fb'(4) grow by (simp add: vector_len_def mult.commute)
qed

lemma pool_inv_alt: "pool_inv ph \<longleftrightarrow> pool_wf ph \<and> 64 dvd pool_alloc_size ph \<and> pool_bits_ok ph"
  by (simp add: pool_inv_def pool_bits_ok_def)

lemma set_range_last_resize:
  assumes "64 dvd n" "0 < n"
  shows "set_range_last n (2 * n - 1)"
proof -
  obtain k where k: "n = 64 * k" "0 < k" using assms by auto
  then have "2 * n - 1 = 63 + 64 * (2 * k - 1)" by (simp add: algebra_simps)
  then have "(2 * n - 1) mod 64 = 63" by (simp only: mod_mult_self2) simp
  with k show ?thesis by (simp add: set_range_last_def)
qed

lemma pool_resize_inv:
  assumes "pool_inv ph" "vector_len (free_indices ph) = 0"
  shows "\<exists>ph'. pool_resize ph = Some (Some ph') \<and> pool_inv ph' \<and>
    pool_alloc_size ph' = 2 * pool_alloc_size ph \<and> pool_elts ph' = pool_elts ph \<and>
    vector_len (free_indices ph') = pool_alloc_size ph \<and> pool_used ph' = pool_used ph"
proof -
  let ?n = "pool_alloc_size ph"
  have wf: "pool_wf ph" "64 dvd ?n" "pool_bits_ok ph" using assms(1) by (auto simp: pool_inv_alt)
  then have "0 < ?n" "vec (free_indices ph) = []"
    using assms(2) by (auto simp: pool_wf_def vec_def vector_len_def)
  moreover obtain ph' where ph': "pool_resize ph = Some (Some ph')" "pool_wf ph'"
    "pool_alloc_size ph' = 2 * ?n" "pool_elts ph' = pool_elts ph"
    "set (vec (free_indices ph')) = {?n..<2 * ?n}" "vector_len (free_indices ph') = ?n"
    "\<forall>j. bm_bit (free_bitmap ph') j \<longleftrightarrow> bm_bit (free_bitmap ph) j \<or> ?n \<le> j \<and> j < 2 * ?n - 1 \<or>
       set_range_last ?n (2 * ?n - 1) \<and> j = 2 * ?n - 1"
    using pool_resize_correct [OF wf(1)] by blast
  ultimately have "pool_bits_ok ph'"
    using wf set_range_last_resize [OF wf(2)] by (auto simp: pool_bits_ok_def not_less)
  then show ?thesis
    using ph' wf(2) \<open>vec (free_indices ph) = []\<close> by (auto simp: pool_inv_alt pool_used_def)
qed

lemma pool_get_ready:
  assumes "pool_inv ph"
  shows "\<exists>ph1. (if vector_len (free_indices ph) = 0 then do { r \<leftarrow> pool_resize ph; r } else Some ph)
      = Some ph1 \<and> pool_inv ph1 \<and> 0 < vector_len (free_indices ph1) \<and> pool_used ph1 = pool_used ph \<and>
      pool_elts ph1 = pool_elts ph \<and> pool_alloc_size ph1 =
       (if vector_len (free_indices ph) = 0 then 2 * pool_alloc_size ph else pool_alloc_size ph)"
proof (cases "vector_len (free_indices ph) = 0")
  case True
  have "0 < pool_alloc_size ph" using assms by (simp add: pool_inv_alt pool_wf_def)
  with pool_resize_inv [OF assms True] True show ?thesis by auto
qed (use assms in simp)

lemma pool_get_fresh:
  assumes "pool_inv ph"
  shows "\<exists>i ph'. pool_get ph = Some (i, ph') \<and> pool_inv ph' \<and> i \<notin> pool_used ph \<and>
    pool_used ph' = insert i (pool_used ph) \<and> pool_elts ph' = pool_elts ph \<and>
    pool_alloc_size ph \<le> pool_alloc_size ph' \<and>
    pool_alloc_size ph' = (if pool_len ph < pool_alloc_size ph then pool_alloc_size ph
      else 2 * pool_alloc_size ph)"
proof -
  obtain ph1 where ph1: "(if vector_len (free_indices ph) = 0 then do { r \<leftarrow> pool_resize ph; r } else Some ph)
      = Some ph1" "pool_inv ph1" "0 < vector_len (free_indices ph1)" "pool_used ph1 = pool_used ph"
      "pool_elts ph1 = pool_elts ph" "pool_alloc_size ph1 =
       (if vector_len (free_indices ph) = 0 then 2 * pool_alloc_size ph else pool_alloc_size ph)"
    using pool_get_ready [OF assms] by blast
  let ?l = "vector_len (free_indices ph1)"
  let ?i = "cells (free_indices ph1) ! (?l - 1)"
  have wf: "pool_wf ph1" "?l - 1 < length (cells (free_indices ph1))"
    using ph1(2,3) by (auto simp: pool_inv_alt pool_wf_def vector_inv_def vector_len_def
        vector_get_alloc_size_def)
  obtain fb where fb: "bitmap_unset (free_bitmap ph1) ?i True = Some (0, fb)"
    "let ph' = ph1\<lparr>free_indices := (free_indices ph1)\<lparr>cur_size := ?l - 1\<rparr>, free_bitmap := fb\<rparr>
     in pool_wf ph' \<and> (pool_bits_ok ph1 \<longrightarrow> pool_bits_ok ph') \<and> ?i \<notin> pool_used ph1 \<and>
        ?i < pool_alloc_size ph1 \<and> pool_used ph' = insert ?i (pool_used ph1)"
    using pool_pop_correct [OF wf(1) ph1(3)] by blast
  have "pool_get ph =
    Some (?i, ph1\<lparr>free_indices := (free_indices ph1)\<lparr>cur_size := ?l - 1\<rparr>, free_bitmap := fb\<rparr>)"
    unfolding pool_get_def ph1(1) using ph1(3) wf(2) fb(1) by (simp add: Let_def)
  moreover have "pool_len ph < pool_alloc_size ph \<longleftrightarrow> vector_len (free_indices ph) \<noteq> 0"
    using assms by (auto simp: pool_len_def pool_inv_alt pool_wf_def)
  ultimately show ?thesis using ph1 fb(2) by (auto simp: Let_def pool_inv_alt)
qed

lemma pool_put_frees:
  assumes "pool_inv ph" "i \<in> pool_used ph"
  shows "\<exists>ph'. pool_put ph i = Some ph' \<and> pool_inv ph' \<and> pool_used ph' = pool_used ph - {i} \<and>
    pool_elts ph' = pool_elts ph \<and> pool_alloc_size ph' = pool_alloc_size ph"
proof -
  let ?v = "free_indices ph"
  have wf: "vector_inv ?v" "vector_max_size ?v = 0" "vector_max_size (free_bitmap ph) = 0"
    and i: "i < pool_alloc_size ph" "i < bm_bits (free_bitmap ph)" "i \<notin> set (vec ?v)"
    using assms by (auto simp: pool_inv_alt pool_wf_def pool_used_def)
  obtain v' where v': "vector_push ?v i = Some (0, v')" "vector_inv v'" "vec v' = vec ?v @ [i]"
    "vector_max_size v' = 0"
    using vector_push_appends [OF wf(1), of i] wf(2) by auto
  have e: "fst (vector_ensure_pos ?v (cur_size ?v)) = 0"
    using vector_ensure_pos_unlimited [OF wf(2)] .
  then have same: "cur_size (snd (vector_ensure_pos ?v (cur_size ?v))) = cur_size ?v"
    using vector_ensure_pos_cases [of ?v "cur_size ?v" 0 "snd (vector_ensure_pos ?v (cur_size ?v))"]
    by (auto simp: prod_eq_iff)
  obtain fb where fb: "bitmap_set (free_bitmap ph) i = Some (0, fb)"
    "\<forall>j. bm_bit fb j \<longleftrightarrow> j = i \<or> bm_bit (free_bitmap ph) j" "bm_bits fb = bm_bits (free_bitmap ph)"
    "vector_max_size fb = 0"
    using bitmap_set_bit [of "free_bitmap ph" i] wf(3) i(2) by auto
  have "pool_put ph i = Some (ph\<lparr>free_indices := v', free_bitmap := fb\<rparr>)"
    using v'(1) e same fb(1)
    by (auto simp: pool_put_def vector_push_def vector_len_def Let_def bind_eq_Some_conv
        split: prod.splits)
  moreover have "pool_inv (ph\<lparr>free_indices := v', free_bitmap := fb\<rparr>)"
    using assms(1) v' fb i by (auto simp: pool_inv_alt pool_wf_def pool_bits_ok_def)
  ultimately show ?thesis using v'(3) by (auto simp: pool_used_def)
qed

interpretation pa: allocator pool_get pool_put pool_used pool_inv
proof unfold_locales
  fix p :: "'a pool" and i assume inv: "pool_inv p"
  show "\<exists>i p'. pool_get p = Some (i, p') \<and> pool_inv p' \<and> i \<notin> pool_used p \<and>
      pool_used p' = insert i (pool_used p)"
    using pool_get_fresh [OF inv] by auto
  show "\<exists>p'. pool_put p i = Some p' \<and> pool_inv p' \<and> pool_used p' = pool_used p - {i}"
    if "i \<in> pool_used p" using pool_put_frees [OF inv that] by auto
qed

lemma pool_used_finite [simp]: "finite (pool_used ph)"
  by (simp add: pool_used_def)

lemma pool_len_card:
  assumes "pool_wf ph"
  shows "pool_len ph = card (pool_used ph)"
proof -
  let ?F = "set (vec (free_indices ph))"
  have "pool_used ph = {0..<pool_alloc_size ph} - ?F" "?F \<subseteq> {0..<pool_alloc_size ph}"
    using assms by (auto simp: pool_used_def pool_wf_def)
  moreover have "card ?F = vector_len (free_indices ph)"
    using assms by (simp add: pool_wf_def distinct_card)
  ultimately show ?thesis by (simp add: card_Diff_subset pool_len_def)
qed

lemma pool_validate_id_used:
  assumes "pool_inv ph"
  shows "pool_validate_id ph i = Some (i \<in> pool_used ph)"
  using assms bitmap_get_bit [of i "free_bitmap ph"]
  by (auto simp: pool_validate_id_def pool_used_def pool_inv_def pool_wf_def not_le)

lemma pool_enumerate_used:
  assumes "pool_inv ph"
  shows "pool_enumerate ph = Some (sorted_list_of_set (pool_used ph))"
proof -
  let ?n = "pool_alloc_size ph" and ?B = "bm_bit (free_bitmap ph)"
  have "mapM (bitmap_get (free_bitmap ph)) [0..<?n] = Some (map ?B [0..<?n])"
    using assms by (intro mapM_eq_map) (simp add: bitmap_get_bit pool_inv_def pool_wf_def)
  moreover have "map fst (filter (\<lambda>(i, b). \<not> b) (zip xs (map ?B xs))) = filter (\<lambda>i. \<not> ?B i) xs" for xs
    by (induction xs) auto
  moreover have "filter (\<lambda>i. \<not> ?B i) [0..<?n] = sorted_list_of_set (pool_used ph)"
  proof (rule sorted_distinct_set_unique [OF _ _ _ _])
    show "set (filter (\<lambda>i. \<not> ?B i) [0..<?n]) = set (sorted_list_of_set (pool_used ph))"
      using assms by (auto simp: pool_inv_def pool_used_def)
  qed (simp_all add: sorted_wrt_filter)
  ultimately show ?thesis by (simp add: pool_enumerate_def)
qed

lemma pool_init_correct:
  "\<exists>ph. pool_init zero junk n 0 = Some (Some ph) \<and> pool_wf ph \<and> pool_bits_ok ph \<and>
     pool_used ph = {} \<and> pool_alloc_size ph = next_pow2 n"
proof -
  define s where "s = next_pow2 n"
  have s: "0 < s" "next_pow2 s = s" by (simp_all add: s_def)
  define f where "f = (\<lambda>i. s - 1 - i)"
  obtain fi where fi: "vector_init s 0 = Some fi" "cells fi = replicate s (0::nat)" "vector_max_size fi = 0"
    using vector_init_unlimited [OF s(1)] s(2) by auto
  let ?fi' = "fi\<lparr>cells := map f [0..<s] @ drop s (cells fi)\<rparr>"
  have run_fi: "fill_indices fi s f = Some ?fi'" using fi by (simp add: fill_indices_def)
  obtain fb where fb: "bitmap_init s 0 = Some fb" "cells fb = replicate (next_pow2 (s div 64)) 0"
    "vector_max_size fb = 0"
    using vector_init_unlimited [of "next_pow2 (s div 64)"]
    by (auto simp: bitmap_init_def BITMAP_WIDTH_def)
  have "s \<le> bm_bits fb"
  proof -
    obtain k where k: "s = 2 ^ k" using next_pow2_is_power unfolding s_def by blast
    have "s \<le> 64 * next_pow2 (s div 64)"
    proof (cases "s < 64")
      case False
      then have "64 dvd s" using dvd_next_pow2 [of s] s(2) by simp
      then have "s = 64 * (s div 64)" by simp
      then show ?thesis using next_pow2_ge [of "s div 64"] by linarith
    qed (simp add: next_pow2_def)
    then show ?thesis using fb(2) by (simp add: bm_bits_def vector_get_alloc_size_def)
  qed
  then obtain fb' where fb': "bitmap_set_to fb s = Some (0, fb')" "bm_bits fb' = bm_bits fb"
    "vector_max_size fb' = vector_max_size fb"
    "\<forall>j. bm_bit fb' j \<longleftrightarrow> bm_bit fb j \<or> 0 \<le> j \<and> j < s \<or> set_range_last 0 s \<and> j = s"
    using bitmap_set_range_exact [of 0 s fb] unfolding bitmap_set_to_def by auto
  let ?ph = "\<lparr>pool_alloc_size = s, pool_max_size = 0, free_bitmap = fb',
    free_indices = ?fi'\<lparr>cur_size := s\<rparr>, pool_elts = (\<lambda>i. if i < s then zero else junk i)\<rparr>"
  have run: "pool_init zero junk n 0 = Some (Some ?ph)"
    unfolding pool_init_def Let_def s_def [symmetric] f_def [symmetric] using s(2) fi(1) run_fi fb(1) fb'(1)
    by simp
  have "vec (free_indices ?ph) = map f [0..<s]" by (simp add: vec_def)
  moreover have "j \<in> f ` {0..<s}" if "j < s" for j
    using that by (intro image_eqI [of _ _ "s - 1 - j"]) (auto simp: f_def)
  then have "set (map f [0..<s]) = {0..<s}" by (auto simp: f_def)
  moreover note this
  moreover have "distinct (map f [0..<s])" by (auto simp: distinct_map inj_on_def f_def)
  ultimately have "pool_wf ?ph" "pool_bits_ok ?ph" "pool_used ?ph = {}"
    using s(1) fi fb(3) fb' \<open>s \<le> bm_bits fb\<close>
    by (auto simp: pool_wf_def pool_bits_ok_def pool_used_def vector_inv_def vector_get_alloc_size_def)
  with run show ?thesis by (simp add: s_def)
qed

lemma pool_init_inv:
  assumes "64 \<le> n"
  shows "\<exists>ph. pool_init zero junk n 0 = Some (Some ph) \<and> pool_inv ph \<and> pool_used ph = {}"
  using pool_init_correct [of zero junk n] dvd_next_pow2 [OF assms] by (auto simp: pool_inv_alt)

lemma pool_init_inv':
  assumes "64 \<le> n" "pool_init zero junk n 0 = Some (Some ph)"
  shows "pool_inv ph \<and> pool_used ph = {}"
  using pool_init_inv [OF assms(1), of zero junk] assms(2) by auto

section \<open>Properties\<close>

text \<open>C22: on a pool of at least 64 elements that was created without a maximum size,
  \<open>pool_get\<close> always succeeds, doubling the pool when it is full; it returns an index that was not
  in use, which is then valid and counted by \<open>pool_len\<close>; \<open>pool_put\<close> of it makes the pool's set of
  used indices what it was. No element memory is changed: an element comes back with what its last
  user left in it, and is not cleared as the notes of \<open>pool.h\<close> say.\<close>

theorem pool_get_put:
  assumes "pool_inv ph"
  shows "\<exists>i ph1 ph2. pool_get ph = Some (i, ph1) \<and> pool_inv ph1 \<and>
    pool_validate_id ph i = Some False \<and> pool_validate_id ph1 i = Some True \<and>
    pool_len ph1 = pool_len ph + 1 \<and> pool_elts ph1 = pool_elts ph \<and>
    pool_alloc_size ph1 = (if pool_len ph < pool_alloc_size ph then pool_alloc_size ph
      else 2 * pool_alloc_size ph) \<and>
    pool_put ph1 i = Some ph2 \<and> pool_inv ph2 \<and> pool_used ph2 = pool_used ph \<and>
    pool_elts ph2 = pool_elts ph"
proof -
  obtain i ph1 where 1: "pool_get ph = Some (i, ph1)" "pool_inv ph1" "i \<notin> pool_used ph"
    "pool_used ph1 = insert i (pool_used ph)" "pool_elts ph1 = pool_elts ph"
    "pool_alloc_size ph1 = (if pool_len ph < pool_alloc_size ph then pool_alloc_size ph
      else 2 * pool_alloc_size ph)"
    using pool_get_fresh [OF assms] by blast
  obtain ph2 where 2: "pool_put ph1 i = Some ph2" "pool_inv ph2" "pool_used ph2 = pool_used ph1 - {i}"
    "pool_elts ph2 = pool_elts ph1"
    using pool_put_frees [OF 1(2), of i] 1(4) by auto
  have "pool_len ph1 = pool_len ph + 1"
    using pool_len_card [of ph] pool_len_card [of ph1] assms 1(2-4) by (simp add: pool_inv_alt)
  with 1 2 assms show ?thesis by (auto simp: pool_validate_id_used)
qed

theorem pool_get_put_witness:
  "\<exists>ph i ph1. pool_init (0::nat) (\<lambda>_. 0) 64 0 = Some (Some ph) \<and> pool_inv ph \<and>
     pool_get ph = Some (i, ph1) \<and> pool_validate_id ph1 i = Some True"
proof -
  obtain ph where "pool_init (0::nat) (\<lambda>_. 0) 64 0 = Some (Some ph)" "pool_inv ph"
    using pool_init_inv [of 64 "0::nat" "\<lambda>_. 0"] by auto
  with pool_get_put [of ph] show ?thesis by blast
qed

text \<open>C34: in a pool of at least 64 elements that was created without a maximum size
  (\<open>pool_inv\<close>, which \<open>pool_init\<close> establishes and \<open>pool_get\<close> and \<open>pool_put\<close> keep),
  \<open>pool_enumerate\<close> visits the indices in use, each once and in increasing order, and \<open>pool_len\<close>
  is their number. A smaller pool is left out: once it grows, its bitmap marks a free index as in
  use. The witness enumerates a new pool after one and after two elements were taken.\<close>

theorem pool_enumerate_visits_used:
  assumes "pool_inv ph"
  shows "\<exists>is. pool_enumerate ph = Some is \<and> set is = pool_used ph \<and> sorted is \<and> distinct is \<and>
    length is = pool_len ph"
  using pool_enumerate_used [OF assms] pool_len_card [of ph] assms
  by (auto simp: pool_inv_alt)

theorem pool_enumerate_visits_used_witness:
  "\<exists>ph i ph1 j ph2. pool_init (0::nat) (\<lambda>_. 0) 64 0 = Some (Some ph) \<and> pool_get ph = Some (i, ph1) \<and>
     pool_enumerate ph1 = Some [i] \<and> pool_get ph1 = Some (j, ph2) \<and> j \<noteq> i \<and>
     pool_enumerate ph2 = Some [min i j, max i j]"
proof -
  obtain ph where ph: "pool_init (0::nat) (\<lambda>_. 0) 64 0 = Some (Some ph)" "pool_inv ph" "pool_used ph = {}"
    using pool_init_inv [of 64 "0::nat" "\<lambda>_. 0"] by auto
  obtain i ph1 where 1: "pool_get ph = Some (i, ph1)" "pool_inv ph1" "pool_used ph1 = {i}"
    using pool_get_fresh [OF ph(2)] ph(3) by auto
  obtain j ph2 where 2: "pool_get ph1 = Some (j, ph2)" "pool_inv ph2" "j \<noteq> i" "pool_used ph2 = {i, j}"
    using pool_get_fresh [OF 1(2)] 1(3) by (auto simp: insert_commute)
  obtain xs where xs: "pool_enumerate ph1 = Some xs" "set xs = {i}" "sorted xs" "distinct xs"
    using pool_enumerate_visits_used [OF 1(2)] 1(3) by auto
  obtain ys where ys: "pool_enumerate ph2 = Some ys" "set ys = {i, j}" "sorted ys" "distinct ys"
    using pool_enumerate_visits_used [OF 2(2)] 2(4) by auto
  have "xs = [i]" using xs(2-4) by (intro sorted_distinct_set_unique) auto
  moreover have "ys = [min i j, max i j]" using ys(2-4) 2(3) by (intro sorted_distinct_set_unique) (auto simp: min_def max_def)
  ultimately show ?thesis using ph(1) 1(1) 2(1,3) xs(1) ys(1) by blast
qed

text \<open>Growing a full pool of fewer than 64 elements leaves its last new index marked
  as in use in the bitmap: \<open>pool_validate_id\<close> accepts that index although it is free.\<close>

theorem pool_small_resize_marks_last:
  assumes "pool_wf ph" "vector_len (free_indices ph) = 0" "pool_alloc_size ph = 2 ^ k" "k < 6"
    "\<not> bm_bit (free_bitmap ph) (2 ^ (k + 1) - 1)"
  shows "\<exists>ph'. pool_resize ph = Some (Some ph') \<and> 2 ^ (k + 1) - 1 \<notin> pool_used ph' \<and>
    pool_validate_id ph' (2 ^ (k + 1) - 1) = Some True"
proof -
  let ?n = "pool_alloc_size ph"
  obtain ph' where ph': "pool_resize ph = Some (Some ph')" "pool_wf ph'" "pool_alloc_size ph' = 2 * ?n"
    "set (vec (free_indices ph')) = {?n..<2 * ?n}"
    "\<forall>j. bm_bit (free_bitmap ph') j \<longleftrightarrow> bm_bit (free_bitmap ph) j \<or> ?n \<le> j \<and> j < 2 * ?n - 1 \<or>
       set_range_last ?n (2 * ?n - 1) \<and> j = 2 * ?n - 1"
    using pool_resize_correct [OF assms(1)] by blast
  have "k = 0 \<or> k = 1 \<or> k = 2 \<or> k = 3 \<or> k = 4 \<or> k = 5" using assms(4) by auto
  then have "\<not> set_range_last ?n (2 * ?n - 1)"
    using assms(3) by (elim disjE) (simp_all add: set_range_last_def)
  then have "\<not> bm_bit (free_bitmap ph') (2 * ?n - 1)" "2 * ?n - 1 \<in> set (vec (free_indices ph'))"
    using ph'(4,5) assms(3,5) by auto
  moreover have "2 * ?n - 1 < bm_bits (free_bitmap ph')"
  proof -
    have "2 * ?n \<le> bm_bits (free_bitmap ph')" using ph'(2,3) by (simp add: pool_wf_def)
    moreover have "0 < ?n" using assms(3) by simp
    ultimately show ?thesis by linarith
  qed
  moreover have "2 * ?n - 1 < 2 * ?n" "2 * ?n - 1 = 2 ^ (k + 1) - 1" using assms(3) by simp_all
  ultimately show ?thesis
    using ph'(1,3) bitmap_get_bit [of "2 * ?n - 1" "free_bitmap ph'"]
    by (simp add: pool_used_def pool_validate_id_def)
qed

definition small_pool :: "nat pool" where
  "small_pool = \<lparr>pool_alloc_size = 2, pool_max_size = 0,
     free_bitmap = \<lparr>cur_size = 0, vector_max_size = 0, cells = [0]\<rparr>,
     free_indices = \<lparr>cur_size = 0, vector_max_size = 0, cells = [1, 0]\<rparr>, pool_elts = (\<lambda>_. 0)\<rparr>"

theorem pool_small_resize_marks_last_witness:
  "\<exists>ph'. pool_resize small_pool = Some (Some ph') \<and> 3 \<notin> pool_used ph' \<and>
     pool_validate_id ph' 3 = Some True"
proof -
  have "pool_wf small_pool" "vector_len (free_indices small_pool) = 0" "pool_alloc_size small_pool = 2 ^ 1"
    "\<not> bm_bit (free_bitmap small_pool) (2 ^ (1 + 1) - 1)"
    by (simp_all add: small_pool_def pool_wf_def vector_inv_def vec_def vector_get_alloc_size_def
        vector_len_def bm_bits_def bm_bit_def word_bit_def)
  with pool_small_resize_marks_last [of small_pool 1] show ?thesis by simp
qed

lemma pool_get_wf:
  assumes "pool_wf ph" "0 < vector_len (free_indices ph)"
  shows "\<exists>i ph'. pool_get ph = Some (i, ph') \<and> pool_wf ph' \<and> i \<in> set (vec (free_indices ph)) \<and>
    set (vec (free_indices ph')) = set (vec (free_indices ph)) - {i} \<and>
    vector_len (free_indices ph') = vector_len (free_indices ph) - 1 \<and>
    pool_alloc_size ph' = pool_alloc_size ph \<and> pool_elts ph' = pool_elts ph \<and>
    (pool_bits_ok ph \<longrightarrow> pool_bits_ok ph')"
proof -
  let ?l = "vector_len (free_indices ph)"
  let ?i = "cells (free_indices ph) ! (?l - 1)"
  have wf: "?l - 1 < length (cells (free_indices ph))"
    using assms by (auto simp: pool_wf_def vector_inv_def vector_len_def vector_get_alloc_size_def)
  have inv: "vector_inv (free_indices ph)" "0 < cur_size (free_indices ph)" "distinct (vec (free_indices ph))"
    using assms by (simp_all add: pool_wf_def vector_len_def)
  note split = vec_pop [OF inv(1,2)]
  obtain fb where fb: "bitmap_unset (free_bitmap ph) ?i True = Some (0, fb)"
    "let ph' = ph\<lparr>free_indices := (free_indices ph)\<lparr>cur_size := ?l - 1\<rparr>, free_bitmap := fb\<rparr>
     in pool_wf ph' \<and> (pool_bits_ok ph \<longrightarrow> pool_bits_ok ph') \<and> ?i \<notin> pool_used ph \<and>
        ?i < pool_alloc_size ph \<and> pool_used ph' = insert ?i (pool_used ph)"
    using pool_pop_correct [OF assms] by blast
  let ?ph' = "ph\<lparr>free_indices := (free_indices ph)\<lparr>cur_size := ?l - 1\<rparr>, free_bitmap := fb\<rparr>"
  have run: "pool_get ph = Some (?i, ?ph')"
    unfolding pool_get_def using assms(2) wf fb(1) by (simp add: Let_def)
  have l: "?l = cur_size (free_indices ph)" by (simp add: vector_len_def)
  have "vec (free_indices ph) = vec ((free_indices ph)\<lparr>cur_size := ?l - 1\<rparr>) @ [?i]"
    using split by (simp add: l)
  moreover have "?i \<notin> set (vec ((free_indices ph)\<lparr>cur_size := ?l - 1\<rparr>))" using calculation inv(3)
    by (metis distinct_append disjoint_iff list.set_intros(1))
  ultimately have "?i \<in> set (vec (free_indices ph))"
    "set (vec (free_indices ?ph')) = set (vec (free_indices ph)) - {?i}" by auto
  with run fb(2) show ?thesis by (intro exI [of _ ?i] exI [of _ ?ph']) (simp add: Let_def vector_len_def)
qed

end
