(* ===== verification/Hicn_Name.thy ===== *)
theory Hicn_Name
  imports Hicn_Prelude "HOL-Library.Sublist"
begin

text \<open>
  Addresses, names and prefixes: \<open>lib/src/util/ip_address.c\<close>,
  \<open>lib/src/name.c\<close> and the headers \<open>ip_address.h\<close> and \<open>name.h\<close>, with the
  FNV-1a hash of \<open>lib/src/common.c\<close>.

  The address union of 16 bytes is held as its two 64-bit words \<open>as_u64[0]\<close> and
  \<open>as_u64[1]\<close>; the byte and 32-bit views are those of a little-endian machine.
  Bytes are in network order: the bit at position \<open>p\<close> of an address is bit
  \<open>7 - p mod 8\<close> of byte \<open>p div 8\<close>.  Prefix lengths are natural numbers.

  \<open>prefix_bits\<close> abstracts a prefix to the list of its bits; the lemmas show what
  \<open>hicn_prefix_lpm\<close>, \<open>hicn_prefix_truncate\<close> and \<open>hicn_prefix_equals\<close> are on
  these lists.
\<close>

section \<open>Addresses\<close>

record hicn_ip_address =
  u64_0 :: u64
  u64_1 :: u64

definition as_u64 :: "hicn_ip_address \<Rightarrow> nat \<Rightarrow> u64" where
  "as_u64 a i = (if i = 0 then u64_0 a else u64_1 a)"

definition as_u8 :: "hicn_ip_address \<Rightarrow> nat \<Rightarrow> u8" where
  "as_u8 a i = ucast (drop_bit (8 * (i mod 8)) (as_u64 a (i div 8)))"

definition set_byte :: "u64 \<Rightarrow> nat \<Rightarrow> u8 \<Rightarrow> u64" where
  "set_byte w k b = (w AND NOT (push_bit (8 * k) 255)) OR push_bit (8 * k) (ucast b)"

definition set_u8 :: "hicn_ip_address \<Rightarrow> nat \<Rightarrow> u8 \<Rightarrow> hicn_ip_address" where
  "set_u8 a i b =
     (if i < 8 then a\<lparr>u64_0 := set_byte (u64_0 a) i b\<rparr>
      else a\<lparr>u64_1 := set_byte (u64_1 a) (i - 8) b\<rparr>)"

definition addr_bytes :: "hicn_ip_address \<Rightarrow> u8 list" where
  "addr_bytes a = map (as_u8 a) [0..<16]"

text \<open>The fields \<open>pad[0..2]\<close> and \<open>v4.as_u32\<close> of the union.\<close>

definition pad :: "hicn_ip_address \<Rightarrow> nat \<Rightarrow> u32" where
  "pad a i = (if i = 0 then ucast (u64_0 a) else if i = 1 then ucast (drop_bit 32 (u64_0 a))
              else ucast (u64_1 a))"

definition v4_as_u32 :: "hicn_ip_address \<Rightarrow> u32" where
  "v4_as_u32 a = ucast (drop_bit 32 (u64_1 a))"

definition IP_ADDRESS_EMPTY :: hicn_ip_address where
  "IP_ADDRESS_EMPTY = \<lparr>u64_0 = 0, u64_1 = 0\<rparr>"

definition hicn_ip_address_is_v4 :: "hicn_ip_address \<Rightarrow> bool" where
  "hicn_ip_address_is_v4 a \<longleftrightarrow> pad a 0 OR pad a 1 OR pad a 2 = 0"

definition AF_INET :: int where "AF_INET = 2"
definition AF_INET6 :: int where "AF_INET6 = 10"
definition IPV6_ADDR_LEN :: nat where "IPV6_ADDR_LEN = 16"
definition IPV4_ADDR_LEN :: nat where "IPV4_ADDR_LEN = 4"
definition IP_ADDRESS_MAX_LEN :: nat where "IP_ADDRESS_MAX_LEN = IPV6_ADDR_LEN"
definition IP_ADDRESS_V4_OFFSET_LEN :: nat where "IP_ADDRESS_V4_OFFSET_LEN = 12"

definition hicn_ip_address_get_family :: "hicn_ip_address \<Rightarrow> int" where
  "hicn_ip_address_get_family a = (if hicn_ip_address_is_v4 a then AF_INET else AF_INET6)"

definition hicn_ip_address_len :: "int \<Rightarrow> nat" where
  "hicn_ip_address_len family =
     (if family = AF_INET6 then IPV6_ADDR_LEN else if family = AF_INET then IPV4_ADDR_LEN else 0)"

definition hicn_ip_address_get_len :: "hicn_ip_address \<Rightarrow> nat" where
  "hicn_ip_address_get_len a = hicn_ip_address_len (hicn_ip_address_get_family a)"

definition hicn_ip_address_get_len_bits :: "hicn_ip_address \<Rightarrow> nat" where
  "hicn_ip_address_get_len_bits a = hicn_ip_address_get_len a * 8"

text \<open>\<open>memcmp\<close>: C fixes the sign of the result.\<close>

fun memcmp :: "u8 list \<Rightarrow> u8 list \<Rightarrow> int" where
  "memcmp (x # xs) (y # ys) = (if x = y then memcmp xs ys else if x < y then -1 else 1)"
| "memcmp _ _ = 0"

definition hicn_ip_address_cmp :: "hicn_ip_address \<Rightarrow> hicn_ip_address \<Rightarrow> int" where
  "hicn_ip_address_cmp ip1 ip2 = memcmp (addr_bytes ip1) (addr_bytes ip2)"

definition hicn_ip_address_equals :: "hicn_ip_address \<Rightarrow> hicn_ip_address \<Rightarrow> bool" where
  "hicn_ip_address_equals ip1 ip2 \<longleftrightarrow> hicn_ip_address_cmp ip1 ip2 = 0"

definition hicn_ip_address_empty :: "hicn_ip_address \<Rightarrow> bool" where
  "hicn_ip_address_empty ip \<longleftrightarrow> memcmp (addr_bytes ip) (addr_bytes IP_ADDRESS_EMPTY) = 0"

definition hicn_ip_address_clear :: "hicn_ip_address \<Rightarrow> hicn_ip_address" where
  "hicn_ip_address_clear a = foldl (\<lambda>a i. set_u8 a i 0) a [0..<16]"

text \<open>\<open>(as_u8[pos / 8] >> (7 - pos % 8)) & 1\<close>; an access past byte 15 is outside
  the address.\<close>

definition hicn_ip_address_get_bit :: "hicn_ip_address \<Rightarrow> nat \<Rightarrow> bool option" where
  "hicn_ip_address_get_bit a pos =
     (if pos div 8 < 16 then Some (drop_bit (7 - pos mod 8) (as_u8 a (pos div 8)) AND 1 = 1) else None)"

definition hicn_ip_address_match_family :: "hicn_ip_address \<Rightarrow> int \<Rightarrow> bool" where
  "hicn_ip_address_match_family a family \<longleftrightarrow> hicn_ip_address_get_family a = family"

section \<open>Hashing\<close>

definition FNV_32_PRIME :: u32 where "FNV_32_PRIME = 0x01000193"
definition FNV1_32A_INIT :: u32 where "FNV1_32A_INIT = 0x811c9dc5"

text \<open>The default build multiplies by shifts and additions.\<close>

fun cumulative_hash32 :: "u8 list \<Rightarrow> u32 \<Rightarrow> u32" where
  "cumulative_hash32 [] hval = hval"
| "cumulative_hash32 (b # bs) hval =
     (let hval = hval XOR ucast b;
          hval = hval + (push_bit 1 hval + push_bit 4 hval + push_bit 7 hval + push_bit 8 hval
                         + push_bit 24 hval)
      in cumulative_hash32 bs hval)"

definition hash32 :: "u8 list \<Rightarrow> u32" where
  "hash32 bytes = cumulative_hash32 bytes FNV1_32A_INIT"

text \<open>\<open>sizeof (address)\<close> is the size of the pointer: eight bytes are hashed.\<close>

definition hicn_ip_address_get_hash :: "hicn_ip_address \<Rightarrow> u32" where
  "hicn_ip_address_get_hash a = hash32 (take 8 (addr_bytes a))"

section \<open>Names\<close>

record hicn_name =
  name_prefix :: hicn_ip_address
  name_suffix :: u32

record hicn_ip_prefix =
  ipp_family :: int
  ipp_address :: hicn_ip_address
  ipp_len :: nat

definition HICN_INVALID_SUFFIX :: u32 where
  "HICN_INVALID_SUFFIX = NOT 0"

definition name_is_unspec :: "hicn_name \<Rightarrow> bool" where
  "name_is_unspec n \<longleftrightarrow>
     pad (name_prefix n) 0 OR pad (name_prefix n) 1 OR pad (name_prefix n) 2
       OR v4_as_u32 (name_prefix n) = 0"

definition u32_bytes :: "u32 \<Rightarrow> u8 list" where
  "u32_bytes w = map (\<lambda>i. ucast (drop_bit (8 * i) w)) [0..<4]"

definition hicn_name_create_from_ip_address :: "hicn_ip_address \<Rightarrow> u32 \<Rightarrow> hicn_name" where
  "hicn_name_create_from_ip_address a sfx = \<lparr>name_prefix = a, name_suffix = sfx\<rparr>"

definition hicn_name_create_from_ip_prefix :: "hicn_ip_prefix \<Rightarrow> u32 \<Rightarrow> hicn_name" where
  "hicn_name_create_from_ip_prefix p sfx = \<lparr>name_prefix = ipp_address p, name_suffix = sfx\<rparr>"

text \<open>\<open>ret |= !(suffix equal)\<close> on the sign of \<open>memcmp\<close>.\<close>

definition hicn_name_compare :: "hicn_name \<Rightarrow> hicn_name \<Rightarrow> bool \<Rightarrow> int" where
  "hicn_name_compare n1 n2 consider_segment =
     (let ret = memcmp (addr_bytes (name_prefix n1)) (addr_bytes (name_prefix n2))
      in if consider_segment then ret OR (if name_suffix n1 = name_suffix n2 then 0 else 1) else ret)"

definition hicn_name_get_hash :: "hicn_name \<Rightarrow> bool \<Rightarrow> u32" where
  "hicn_name_get_hash n consider_suffix =
     (let hash = hash32 (addr_bytes (name_prefix n))
      in if consider_suffix then cumulative_hash32 (u32_bytes (name_suffix n)) hash else hash)"

definition hicn_name_empty :: "hicn_name \<Rightarrow> bool" where
  "hicn_name_empty n \<longleftrightarrow> name_is_unspec n"

definition hicn_name_set_suffix :: "hicn_name \<Rightarrow> u32 \<Rightarrow> hicn_name" where
  "hicn_name_set_suffix n sfx = n\<lparr>name_suffix := sfx\<rparr>"

definition hicn_name_get_family :: "hicn_name \<Rightarrow> int option" where
  "hicn_name_get_family n = do {
     assert_that (\<not> name_is_unspec n);
     Some (if hicn_ip_address_is_v4 (name_prefix n) then AF_INET else AF_INET6)
   }"

definition hicn_name_to_hicn_ip_prefix :: "hicn_name \<Rightarrow> hicn_ip_prefix option" where
  "hicn_name_to_hicn_ip_prefix n = do {
     family \<leftarrow> hicn_name_get_family n;
     Some \<lparr>ipp_family = family,
           ipp_address = \<lparr>u64_0 = as_u64 (name_prefix n) 0, u64_1 = as_u64 (name_prefix n) 1\<rparr>,
           ipp_len = 128\<rparr>
   }"

definition hicn_name_is_v4 :: "hicn_name \<Rightarrow> bool" where
  "hicn_name_is_v4 n = hicn_ip_address_is_v4 (name_prefix n)"

text \<open>The difference of the two suffixes is returned as a signed integer.\<close>

definition hicn_name_cmp :: "hicn_name \<Rightarrow> hicn_name \<Rightarrow> int" where
  "hicn_name_cmp n1 n2 =
     (let rc = hicn_ip_address_cmp (name_prefix n1) (name_prefix n2)
      in if rc \<noteq> 0 then rc else sint (name_suffix n2 - name_suffix n1))"

definition hicn_name_equals :: "hicn_name \<Rightarrow> hicn_name \<Rightarrow> bool" where
  "hicn_name_equals n1 n2 \<longleftrightarrow> hicn_name_cmp n1 n2 = 0"

section \<open>Prefixes\<close>

record hicn_prefix =
  prefix_name :: hicn_ip_address
  prefix_len :: nat

definition hicn_prefix_get_len :: "hicn_prefix \<Rightarrow> nat" where
  "hicn_prefix_get_len p = prefix_len p"

definition hicn_prefix_create_from_ip_prefix :: "hicn_ip_prefix \<Rightarrow> hicn_prefix option" where
  "hicn_prefix_create_from_ip_prefix p =
     (if ipp_family p \<noteq> AF_INET \<and> ipp_family p \<noteq> AF_INET6 then None
      else Some \<lparr>prefix_name = ipp_address p, prefix_len = ipp_len p mod 256\<rparr>)"

definition hicn_prefix_create_from_ip_address_len :: "hicn_ip_address \<Rightarrow> nat \<Rightarrow> hicn_prefix" where
  "hicn_prefix_create_from_ip_address_len a len = \<lparr>prefix_name = a, prefix_len = len\<rparr>"

definition hicn_prefix_is_v4 :: "hicn_prefix \<Rightarrow> bool" where
  "hicn_prefix_is_v4 p = hicn_ip_address_is_v4 (prefix_name p)"

text \<open>\<open>_log2_nbo\<close>: the position of the first set bit in network order, by halving.\<close>

definition log2_nbo :: "u64 \<Rightarrow> u64 option" where
  "log2_nbo val = do {
     assert_that (val \<noteq> 0);
     let result = 0;
     let (val, result) =
       (if val AND 0x00000000FFFFFFFF = 0 then (drop_bit 32 val, result OR 32) else (val, result));
     let (val, result) =
       (if val AND 0x0000FFFF = 0 then (drop_bit 16 val, result OR 16) else (val, result));
     let (val, result) =
       (if val AND 0x00FF = 0 then (drop_bit 8 val, result OR 8) else (val, result));
     let (val, result) =
       (if val AND 0xF0 \<noteq> 0 then (drop_bit 4 val, result) else (val, result OR 4));
     let (val, result) =
       (if val AND 0xC \<noteq> 0 then (drop_bit 2 val, result) else (val, result OR 2));
     let (val, result) =
       (if val AND 0x2 \<noteq> 0 then (drop_bit 1 val, result) else (val, result OR 1));
     Some result
   }"

text \<open>The loop over the two words of \<open>hicn_prefix_lpm\<close>.\<close>

fun lpm_words :: "hicn_ip_address \<Rightarrow> hicn_ip_address \<Rightarrow> nat list \<Rightarrow> nat \<Rightarrow> nat option" where
  "lpm_words a1 a2 [] len = Some len"
| "lpm_words a1 a2 (i # is) len =
     (let diff = as_u64 a1 i XOR as_u64 a2 i
      in if diff \<noteq> 0 then do { r \<leftarrow> log2_nbo diff; Some (len + unat r) }
         else lpm_words a1 a2 is (len + 64))"

definition hicn_prefix_lpm :: "hicn_prefix \<Rightarrow> hicn_prefix \<Rightarrow> nat option" where
  "hicn_prefix_lpm p1 p2 = do {
     len \<leftarrow> lpm_words (prefix_name p1) (prefix_name p2) [0, 1] 0;
     Some (min len (min (hicn_prefix_get_len p1) (hicn_prefix_get_len p2)))
   }"

text \<open>A write past byte 15 of the address is outside the object.\<close>

definition hicn_prefix_clear :: "hicn_prefix \<Rightarrow> nat \<Rightarrow> hicn_prefix option" where
  "hicn_prefix_clear p start_from = do {
     let offset = start_from div 8 +
       (if hicn_prefix_is_v4 p then IP_ADDRESS_V4_OFFSET_LEN else 0);
     let pos = start_from mod 8;
     let mask = (0xFF :: u8) XOR (push_bit (8 - pos) 1 - 1);
     assert_that (offset < 16);
     let a = set_u8 (prefix_name p) offset (as_u8 (prefix_name p) offset AND mask);
     Some (p\<lparr>prefix_name := foldl (\<lambda>a i. set_u8 a i 0) a [offset + 1..<IP_ADDRESS_MAX_LEN]\<rparr>)
   }"

definition hicn_prefix_truncate :: "hicn_prefix \<Rightarrow> nat \<Rightarrow> hicn_prefix option" where
  "hicn_prefix_truncate p len = do {
     p \<leftarrow> hicn_prefix_clear p len;
     Some (p\<lparr>prefix_len := len\<rparr>)
   }"

definition hicn_prefix_cmp :: "hicn_prefix \<Rightarrow> hicn_prefix \<Rightarrow> int" where
  "hicn_prefix_cmp p1 p2 =
     (if prefix_len p1 \<noteq> prefix_len p2 then int (prefix_len p2) - int (prefix_len p1)
      else hicn_ip_address_cmp (prefix_name p1) (prefix_name p2))"

definition hicn_prefix_equals :: "hicn_prefix \<Rightarrow> hicn_prefix \<Rightarrow> bool" where
  "hicn_prefix_equals p1 p2 \<longleftrightarrow> hicn_prefix_cmp p1 p2 = 0"

definition hicn_prefix_get_bit :: "hicn_prefix \<Rightarrow> nat \<Rightarrow> bool option" where
  "hicn_prefix_get_bit p pos = do {
     assert_that (pos \<le> hicn_prefix_get_len p);
     hicn_ip_address_get_bit (prefix_name p) pos
   }"

section \<open>Abstraction\<close>

text \<open>The index, inside a 64-bit word, of the bit at network position \<open>p < 64\<close>.\<close>

definition nbo :: "nat \<Rightarrow> nat" where
  "nbo p = 8 * (p div 8) + (7 - p mod 8)"

definition addr_bit :: "hicn_ip_address \<Rightarrow> nat \<Rightarrow> bool" where
  "addr_bit a p \<longleftrightarrow> bit (as_u64 a (p div 64)) (nbo (p mod 64))"

definition prefix_bits :: "hicn_prefix \<Rightarrow> bool list" where
  "prefix_bits p = map (addr_bit (prefix_name p)) [0..<prefix_len p]"

lemma and_mask_eq_0_iff:
  fixes w :: u64
  assumes "n \<le> 64"
  shows "w AND mask n = 0 \<longleftrightarrow> (\<forall>i<n. \<not> bit w i)"
proof
  assume "w AND mask n = 0"
  then have "\<not> bit w i" if "i < n" for i
  proof -
    have "\<not> bit (w AND mask n) i" using \<open>w AND mask n = 0\<close> by simp
    then show ?thesis using that assms by (simp add: bit_simps)
  qed
  then show "\<forall>i<n. \<not> bit w i" by blast
next
  assume "\<forall>i<n. \<not> bit w i"
  then show "w AND mask n = 0" by (auto intro!: bit_word_eqI simp: bit_simps)
qed

lemma and_shifted_mask:
  fixes w :: u64
  assumes "k + n \<le> 64"
  shows "w AND push_bit k (mask n) \<noteq> 0 \<longleftrightarrow> (\<exists>i<n. bit w (k + i))"
proof
  assume "w AND push_bit k (mask n) \<noteq> 0"
  then obtain j where "bit (w AND push_bit k (mask n)) j" by (auto simp: bit_eq_iff)
  then have "k \<le> j" "j - k < n" "bit w j" by (auto simp: bit_simps)
  then show "\<exists>i<n. bit w (k + i)" by (intro exI [of _ "j - k"]) simp
next
  assume "\<exists>i<n. bit w (k + i)"
  then obtain i where "i < n" "bit w (k + i)" by blast
  then have "bit (w AND push_bit k (mask n)) (k + i)" using assms by (simp add: bit_simps)
  then show "w AND push_bit k (mask n) \<noteq> 0" by auto
qed

lemma log2_skip:
  fixes val v :: u64
  assumes "v = drop_bit (8 * k) val" "\<forall>i<8 * k. \<not> bit val i" "v AND mask (16 * j) \<noteq> 0" "16 * j \<le> 64"
  shows "v AND mask (8 * j) = 0 \<Longrightarrow> drop_bit (8 * j) v = drop_bit (8 * (k + j)) val \<and>
      (\<forall>i<8 * (k + j). \<not> bit val i) \<and> drop_bit (8 * j) v AND mask (8 * j) \<noteq> 0"
proof -
  assume z: "v AND mask (8 * j) = 0"
  have low: "\<forall>i<8 * j. \<not> bit v i" using z assms(4) by (simp add: and_mask_eq_0_iff)
  have "\<not> bit val i" if "i < 8 * (k + j)" for i
  proof (cases "i < 8 * k")
    case False
    then have "i - 8 * k < 8 * j" "i = 8 * k + (i - 8 * k)" using that by auto
    with low assms(1) show ?thesis by (metis bit_drop_bit_eq comp_def)
  qed (use assms(2) in simp)
  then have zero: "\<forall>i<8 * (k + j). \<not> bit val i" by blast
  obtain i where "i < 16 * j" "bit v i" using assms(3,4) by (auto simp: and_mask_eq_0_iff)
  then have "\<not> i < 8 * j" "i - 8 * j < 8 * j" using low by auto
  moreover from this \<open>bit v i\<close> have "bit (drop_bit (8 * j) v) (i - 8 * j)"
    by (simp add: bit_simps)
  ultimately have "drop_bit (8 * j) v AND mask (8 * j) \<noteq> 0" using assms(4) by (auto simp: and_mask_eq_0_iff)
  moreover have "drop_bit (8 * j) v = drop_bit (8 * (k + j)) val"
    by (simp add: assms(1) drop_bit_drop_bit algebra_simps)
  ultimately show ?thesis using zero by blast
qed

lemma ex_less_numeral:
  "(\<exists>i<4. P i) \<longleftrightarrow> P 0 \<or> P 1 \<or> P 2 \<or> P (3::nat)" "(\<exists>i<2. P i) \<longleftrightarrow> P 0 \<or> P (1::nat)"
  by (simp_all add: numeral_eq_Suc Ex_less_Suc disj_ac)

lemma all_less_numeral:
  "(\<forall>i<2. P i) \<longleftrightarrow> P 0 \<and> P (1::nat)" "(\<forall>i<3. P i) \<longleftrightarrow> P 0 \<and> P 1 \<and> P (2::nat)"
  "(\<forall>i<4. P i) \<longleftrightarrow> P 0 \<and> P 1 \<and> P 2 \<and> P (3::nat)"
  "(\<forall>i<5. P i) \<longleftrightarrow> P 0 \<and> P 1 \<and> P 2 \<and> P 3 \<and> P (4::nat)"
  "(\<forall>i<6. P i) \<longleftrightarrow> P 0 \<and> P 1 \<and> P 2 \<and> P 3 \<and> P 4 \<and> P (5::nat)"
  "(\<forall>i<7. P i) \<longleftrightarrow> P 0 \<and> P 1 \<and> P 2 \<and> P 3 \<and> P 4 \<and> P 5 \<and> P (6::nat)"
  "(\<forall>i<8. P i) \<longleftrightarrow> P 0 \<and> P 1 \<and> P 2 \<and> P 3 \<and> P 4 \<and> P 5 \<and> P 6 \<and> P (7::nat)"
  by (simp_all add: numeral_eq_Suc All_less_Suc conj_ac)

lemma byte_masks:
  fixes w :: u64
  shows "w AND 0xF0 \<noteq> 0 \<longleftrightarrow> bit w 4 \<or> bit w 5 \<or> bit w 6 \<or> bit w 7"
    and "w AND 0xC \<noteq> 0 \<longleftrightarrow> bit w 2 \<or> bit w 3"
    and "w AND 0x2 \<noteq> 0 \<longleftrightarrow> bit w 1"
    and "w AND 0xFF = 0 \<longleftrightarrow> (\<forall>i<8. \<not> bit w i)"
proof -
  have c: "0xFF = (mask 8 :: u64)" "0xF0 = push_bit 4 (mask 4 :: u64)" "0xC = push_bit 2 (mask 2 :: u64)"
    "0x2 = push_bit 1 (mask 1 :: u64)"
    by (simp_all add: mask_eq_exp_minus_1)
  show "w AND 0xF0 \<noteq> 0 \<longleftrightarrow> bit w 4 \<or> bit w 5 \<or> bit w 6 \<or> bit w 7"
    unfolding c(2) by (subst and_shifted_mask) (simp_all add: ex_less_numeral)
  show "w AND 0xC \<noteq> 0 \<longleftrightarrow> bit w 2 \<or> bit w 3"
    unfolding c(3) by (subst and_shifted_mask) (simp_all add: numeral_eq_Suc Ex_less_Suc disj_ac)
  show "w AND 0x2 \<noteq> 0 \<longleftrightarrow> bit w 1"
    unfolding c(4) by (subst and_shifted_mask) simp_all
  show "w AND 0xFF = 0 \<longleftrightarrow> (\<forall>i<8. \<not> bit w i)"
    unfolding c(1) by (rule and_mask_eq_0_iff) simp
qed

lemma log2_byte:
  fixes v r :: u64
  assumes "v AND 0xFF \<noteq> 0"
  defines "p1 \<equiv> (if v AND 0xF0 \<noteq> 0 then (drop_bit 4 v, r) else (v, r OR 4))"
  defines "p2 \<equiv> (if fst p1 AND 0xC \<noteq> 0 then (drop_bit 2 (fst p1), snd p1) else (fst p1, snd p1 OR 2))"
  defines "p3 \<equiv> (if fst p2 AND 0x2 \<noteq> 0 then (drop_bit 1 (fst p2), snd p2) else (fst p2, snd p2 OR 1))"
  shows "\<exists>q<8. snd p3 = r OR of_nat q \<and> bit v (7 - q) \<and> (\<forall>q'<q. \<not> bit v (7 - q'))"
proof -
  have "\<not> (\<not> bit v 0 \<and> \<not> bit v 1 \<and> \<not> bit v 2 \<and> \<not> bit v 3 \<and> \<not> bit v 4 \<and> \<not> bit v 5 \<and> \<not> bit v 6 \<and> \<not> bit v 7)"
    using assms(1) by (simp add: byte_masks(4) all_less_numeral)
  then consider "bit v 7"
    | "\<not> bit v 7" "bit v 6"
    | "\<not> bit v 7" "\<not> bit v 6" "bit v 5"
    | "\<not> bit v 7" "\<not> bit v 6" "\<not> bit v 5" "bit v 4"
    | "\<not> bit v 7" "\<not> bit v 6" "\<not> bit v 5" "\<not> bit v 4" "bit v 3"
    | "\<not> bit v 7" "\<not> bit v 6" "\<not> bit v 5" "\<not> bit v 4" "\<not> bit v 3" "bit v 2"
    | "\<not> bit v 7" "\<not> bit v 6" "\<not> bit v 5" "\<not> bit v 4" "\<not> bit v 3" "\<not> bit v 2" "bit v 1"
    | "\<not> bit v 7" "\<not> bit v 6" "\<not> bit v 5" "\<not> bit v 4" "\<not> bit v 3" "\<not> bit v 2" "\<not> bit v 1" "bit v 0"
    by blast
  then show ?thesis
  proof cases
    case 1 then show ?thesis unfolding p3_def p2_def p1_def
      by (intro exI [of _ 0]) (simp add: bit_simps byte_masks all_less_numeral or.assoc)
  next
    case 2 then show ?thesis unfolding p3_def p2_def p1_def
      by (intro exI [of _ 1]) (simp add: bit_simps byte_masks all_less_numeral or.assoc)
  next
    case 3 then show ?thesis unfolding p3_def p2_def p1_def
      by (intro exI [of _ 2]) (simp add: bit_simps byte_masks all_less_numeral or.assoc)
  next
    case 4 then show ?thesis unfolding p3_def p2_def p1_def
      by (intro exI [of _ 3]) (simp add: bit_simps byte_masks all_less_numeral or.assoc)
  next
    case 5 then show ?thesis unfolding p3_def p2_def p1_def
      by (intro exI [of _ 4]) (simp add: bit_simps byte_masks all_less_numeral or.assoc)
  next
    case 6 then show ?thesis unfolding p3_def p2_def p1_def
      by (intro exI [of _ 5]) (simp add: bit_simps byte_masks all_less_numeral or.assoc)
  next
    case 7 then show ?thesis unfolding p3_def p2_def p1_def
      by (intro exI [of _ 6]) (simp add: bit_simps byte_masks all_less_numeral or.assoc)
  next
    case 8 then show ?thesis unfolding p3_def p2_def p1_def
      by (intro exI [of _ 7]) (simp add: bit_simps byte_masks all_less_numeral or.assoc)
  qed
qed

lemma nbo_byte: "q < 8 \<Longrightarrow> nbo (8 * k + q) = 8 * k + (7 - q)"
  by (simp add: nbo_def)

lemma nbo_less:
  assumes "p < 8 * k"
  shows "nbo p < 8 * k"
proof -
  have "p div 8 < k" using assms by (simp add: less_mult_imp_div_less mult.commute)
  then show ?thesis unfolding nbo_def by linarith
qed

lemma nbo_lt: "p < 64 \<Longrightarrow> nbo p < 64"
  using nbo_less [of p 8] by simp

lemma or_of_nat_byte:
  assumes "k < 8" "q < 8"
  shows "unat (of_nat (8 * k) OR of_nat q :: u64) = 8 * k + q"
proof -
  have d: "\<not> bit (of_nat (8 * k) :: u64) n \<or> \<not> bit (of_nat q :: u64) n" for n
  proof (cases "n < 3")
    case True
    have "of_nat (8 * k) = (push_bit 3 (of_nat k) :: u64)" by (simp add: push_bit_eq_mult)
    with True show ?thesis by (simp add: bit_simps)
  next
    case False
    have "(2::nat) ^ 3 \<le> 2 ^ n" using False by (intro power_increasing) auto
    then have "q div 2 ^ n = 0" using assms(2) by simp
    then have "\<not> bit q n" by (simp add: bit_iff_odd)
    then show ?thesis by (simp add: bit_of_nat_iff)
  qed
  then have "of_nat (8 * k) OR of_nat q = (of_nat (8 * k + q) :: u64)"
    by (simp add: disjunctive_add)
  moreover have "unat (of_nat (8 * k + q) :: u64) = 8 * k + q"
    using assms by (simp only: unat_of_nat) simp
  ultimately show ?thesis by simp
qed

definition nbo_state :: "u64 \<Rightarrow> nat \<Rightarrow> nat \<Rightarrow> u64 \<times> u64 \<Rightarrow> bool" where
  "nbo_state val k j s \<longleftrightarrow> s = (drop_bit (8 * k) val, of_nat (8 * k)) \<and>
     (\<forall>i<8 * k. \<not> bit val i) \<and> fst s AND mask (8 * j) \<noteq> 0"

lemma nbo_state_step:
  assumes "nbo_state val k (2 * j) s" "2 * j \<le> 8"
    and "of_nat (8 * k) OR of_nat (8 * j) = (of_nat (8 * (k + j)) :: u64)"
  shows "\<exists>k'\<in>{k, k + j}. nbo_state val k' j
    (if fst s AND mask (8 * j) = 0 then (drop_bit (8 * j) (fst s), snd s OR of_nat (8 * j)) else s)"
proof (cases "fst s AND mask (8 * j) = 0")
  case True
  with log2_skip [of "fst s" k val j] assms show ?thesis
    by (auto simp: nbo_state_def)
next
  case False
  with assms(1) show ?thesis by (auto simp: nbo_state_def)
qed

lemma log2_nbo_first:
  assumes "val \<noteq> 0"
  shows "\<exists>r. log2_nbo val = Some r \<and> unat r < 64 \<and> bit val (nbo (unat r)) \<and>
    (\<forall>p<unat r. \<not> bit val (nbo p))"
proof -
  define q1 where "q1 = (if val AND 0xFFFFFFFF = 0 then (drop_bit 32 val, 0 OR 32) else (val, 0::u64))"
  define q2 where "q2 = (if fst q1 AND 0xFFFF = 0 then (drop_bit 16 (fst q1), snd q1 OR 16) else q1)"
  define q3 where "q3 = (if fst q2 AND 0xFF = 0 then (drop_bit 8 (fst q2), snd q2 OR 8) else q2)"
  define p1 where "p1 = (if fst q3 AND 0xF0 \<noteq> 0 then (drop_bit 4 (fst q3), snd q3) else (fst q3, snd q3 OR 4))"
  define p2 where "p2 = (if fst p1 AND 0xC \<noteq> 0 then (drop_bit 2 (fst p1), snd p1) else (fst p1, snd p1 OR 2))"
  define p3 where "p3 = (if fst p2 AND 0x2 \<noteq> 0 then (drop_bit 1 (fst p2), snd p2) else (fst p2, snd p2 OR 1))"
  have run: "log2_nbo val = Some (snd p3)"
    using assms unfolding log2_nbo_def p3_def p2_def p1_def q3_def q2_def q1_def Let_def split_beta
    by (simp only: prod.collapse assert_bind fst_conv snd_conv simp_thms if_True not_False_eq_True)
  have m: "0xFFFFFFFF = (mask (8 * 4) :: u64)" "0xFFFF = (mask (8 * 2) :: u64)" "0xFF = (mask (8 * 1) :: u64)"
    by (simp_all add: mask_eq_exp_minus_1)
  have "val AND mask (8 * 8) = val" by (rule bit_word_eqI) (simp add: bit_simps)
  then have "nbo_state val 0 (2 * 4) (val, 0)" using assms by (simp add: nbo_state_def)
  moreover have q: "q1 = (if fst (val, 0) AND mask (8 * 4) = 0
      then (drop_bit (8 * 4) (fst (val, 0)), snd (val, 0) OR of_nat (8 * 4)) else (val, 0))"
    "q2 = (if fst q1 AND mask (8 * 2) = 0 then (drop_bit (8 * 2) (fst q1), snd q1 OR of_nat (8 * 2)) else q1)"
    "q3 = (if fst q2 AND mask (8 * 1) = 0 then (drop_bit (8 * 1) (fst q2), snd q2 OR of_nat (8 * 1)) else q2)"
    unfolding q1_def q2_def q3_def m [symmetric] by simp_all
  ultimately obtain k1 where k1: "k1 = 0 \<or> k1 = 4" "nbo_state val k1 (2 * 2) q1"
    using nbo_state_step [of val 0 4 "(val, 0)", folded q] by auto
  have "of_nat (8 * k1) OR of_nat (8 * 2) = (of_nat (8 * (k1 + 2)) :: u64)" using k1(1) by auto
  from nbo_state_step [OF k1(2) _ this, folded q] obtain k2 where
    "k2 = k1 \<or> k2 = k1 + 2" "nbo_state val k2 (2 * 1) q2" by auto
  with k1(1) have k2: "k2 = 0 \<or> k2 = 2 \<or> k2 = 4 \<or> k2 = 6" "nbo_state val k2 (2 * 1) q2" by auto
  have "of_nat (8 * k2) OR of_nat (8 * 1) = (of_nat (8 * (k2 + 1)) :: u64)" using k2(1) by auto
  from nbo_state_step [OF k2(2) _ this, folded q] obtain k where
    "k = k2 \<or> k = k2 + 1" "nbo_state val k 1 q3" by auto
  with k2(1) have k: "k < 8" "nbo_state val k 1 q3" by auto
  then have k': "fst q3 = drop_bit (8 * k) val" "snd q3 = of_nat (8 * k)" "\<forall>i<8 * k. \<not> bit val i"
    "fst q3 AND 0xFF \<noteq> 0"
    by (auto simp: nbo_state_def mask_eq_exp_minus_1)
  obtain q where q: "q < 8" "snd p3 = snd q3 OR of_nat q" "bit (fst q3) (7 - q)"
    "\<forall>q'<q. \<not> bit (fst q3) (7 - q')"
    using log2_byte [OF k'(4), of "snd q3", folded p1_def, folded p2_def, folded p3_def] by blast
  have r: "unat (snd p3) = 8 * k + q" unfolding q(2) k'(2) by (rule or_of_nat_byte [OF k(1) q(1)])
  have "\<not> bit val (nbo p)" if "p < 8 * k + q" for p
  proof (cases "p < 8 * k")
    case True
    with k'(3) nbo_less [of p k] show ?thesis by blast
  next
    case False
    define q' where "q' = p - 8 * k"
    with False that q(1) have "q' < q" "p = 8 * k + q'" "q' < 8" by auto
    then have "\<not> bit (fst q3) (7 - q')" using q(4) by blast
    then have "\<not> bit val (8 * k + (7 - q'))" by (simp only: k'(1) bit_drop_bit_eq comp_def simp_thms)
    with nbo_byte [of q' k] show ?thesis by (simp only: \<open>p = 8 * k + q'\<close> \<open>q' < 8\<close> simp_thms)
  qed
  moreover have "bit val (nbo (8 * k + q))"
    using q(1,3) k'(1) by (simp add: nbo_byte bit_simps)
  ultimately show ?thesis using run r k(1) q(1) by auto
qed

lemma word_index: "(p div 8) mod 8 = (p mod 64) div (8::nat)" "p div 8 div 8 = p div (64::nat)"
  "p mod 64 mod 8 = p mod (8::nat)"
  using mod_mult2_eq [of p 8 8] by (simp_all add: div_mult2_eq [symmetric] mod_mod_cancel)

lemma bit_as_u8:
  assumes "p < 128"
  shows "bit (as_u8 a (p div 8)) (7 - p mod 8) = addr_bit a p"
proof -
  have "7 - p mod 8 < 8" by linarith
  then show ?thesis by (simp add: as_u8_def addr_bit_def bit_simps nbo_def word_index)
qed

lemma nbo_div_mod: "nbo p div 8 = p div 8" "nbo p mod 8 = 7 - p mod 8"
proof -
  define r where "r = 7 - p mod 8"
  have "r < 8" "nbo p = 8 * (p div 8) + r" unfolding r_def nbo_def by linarith+
  then show "nbo p div 8 = p div 8" "nbo p mod 8 = 7 - p mod 8" by (simp_all flip: r_def)
qed

lemma hicn_ip_address_get_bit_eq: "p < 128 \<Longrightarrow> hicn_ip_address_get_bit a p = Some (addr_bit a p)"
  by (simp add: hicn_ip_address_get_bit_def flip: bit_as_u8) (simp add: and_one_eq bit_iff_odd_drop_bit odd_iff_mod_2_eq_one)

lemma bit_set_byte:
  assumes "k < 8" "n < 64"
  shows "bit (set_byte w k b) n = (if n div 8 = k then bit b (n mod 8) else bit w n)"
proof -
  have c: "255 = (mask 8 :: u64)" by (simp add: mask_eq_exp_minus_1)
  have d: "n div 8 = k \<longleftrightarrow> 8 * k \<le> n \<and> n < 8 * k + 8"
    by (auto simp: div_nat_eqI intro: div_nat_eqI)
  have m: "8 * k \<le> n \<Longrightarrow> n < 8 * k + 8 \<Longrightarrow> n mod 8 = n - 8 * k"
    using d by (metis minus_mult_div_eq_mod)
  show ?thesis
    unfolding set_byte_def c bit_or_iff bit_and_iff bit_not_iff bit_push_bit_iff bit_mask_iff bit_ucast_iff d
    using assms m by (auto simp: not_le not_less dest: bit_imp_le_length)
qed

lemma addr_bit_set_u8:
  assumes "i < 16" "p < 128"
  shows "addr_bit (set_u8 a i b) p = (if p div 8 = i then bit b (7 - p mod 8) else addr_bit a p)"
proof -
  have nb: "nbo (p mod 64) < 64" by (rule nbo_lt) simp
  have byte: "nbo (p mod 64) div 8 = p mod 64 div 8" "nbo (p mod 64) mod 8 = 7 - p mod 8"
    by (simp_all add: nbo_div_mod word_index)
  have eq: "p div 8 = i \<longleftrightarrow> p div 64 = i div 8 \<and> p mod 64 div 8 = i mod 8"
    using word_index [of p] by (metis mult_div_mod_eq)
  have "p div 64 < 2" using assms(2) by simp
  then have "p div 64 = 0 \<or> p div 64 = 1" by linarith
  then show ?thesis
  proof (elim disjE; cases "i < 8")
    assume "p div 64 = 0" "i < 8"
    then show ?thesis using bit_set_byte [of i "nbo (p mod 64)" "u64_0 a" b] nb
      unfolding byte eq by (simp add: addr_bit_def set_u8_def as_u64_def)
  next
    assume "p div 64 = 0" "\<not> i < 8"
    moreover have "i div 8 \<noteq> 0" using \<open>\<not> i < 8\<close> by simp
    ultimately show ?thesis unfolding eq by (simp add: addr_bit_def set_u8_def as_u64_def)
  next
    assume "p div 64 = 1" "i < 8"
    then show ?thesis unfolding eq by (simp add: addr_bit_def set_u8_def as_u64_def)
  next
    assume *: "p div 64 = 1" "\<not> i < 8"
    with assms(1) have "i mod 8 = i - 8" "i div 8 = 1" "i - 8 < 8" by (simp_all add: le_mod_geq le_div_geq)
    with * bit_set_byte [of "i - 8" "nbo (p mod 64)" "u64_1 a" b] nb show ?thesis
      unfolding byte eq by (simp add: addr_bit_def set_u8_def as_u64_def)
  qed
qed

lemma addr_bit_clear_bytes:
  assumes "p < 128" "\<forall>i\<in>set is. i < 16"
  shows "addr_bit (foldl (\<lambda>a i. set_u8 a i 0) a is) p \<longleftrightarrow> p div 8 \<notin> set is \<and> addr_bit a p"
  using assms by (induction "is" arbitrary: a) (auto simp: addr_bit_set_u8)

text \<open>The first position cleared: past the 96 bits of padding for an IPv4 address.\<close>

definition clear_from :: "hicn_prefix \<Rightarrow> nat \<Rightarrow> nat" where
  "clear_from p n = n + (if hicn_prefix_is_v4 p then 96 else 0)"

lemma hicn_prefix_clear_bits:
  assumes "clear_from p n < 128"
  shows "\<exists>a. hicn_prefix_clear p n = Some (p\<lparr>prefix_name := a\<rparr>) \<and>
    (\<forall>q<128. addr_bit a q \<longleftrightarrow> q < clear_from p n \<and> addr_bit (prefix_name p) q)"
proof -
  let ?c = "clear_from p n" and ?old = "prefix_name p"
  define off where "off = n div 8 + (if hicn_prefix_is_v4 p then IP_ADDRESS_V4_OFFSET_LEN else 0)"
  have "(n + 96) mod 8 = n mod 8" using mod_mult_self1 [of n 12 8] by simp
  then have off: "off = ?c div 8" "n mod 8 = ?c mod 8" "off < 16"
    using assms by (cases "hicn_prefix_is_v4 p";
      simp add: off_def clear_from_def IP_ADDRESS_V4_OFFSET_LEN_def)+
  define msk where "msk = (0xFF :: u8) XOR (push_bit (8 - n mod 8) 1 - 1)"
  have msk: "bit msk (7 - r) \<longleftrightarrow> r < n mod 8" if "r < 8" for r
  proof -
    have "msk = mask 8 XOR mask (8 - n mod 8)"
      by (simp add: msk_def mask_eq_exp_minus_1)
    then show ?thesis using that by (auto simp: bit_simps)
  qed
  let ?a1 = "set_u8 ?old off (as_u8 ?old off AND msk)"
  let ?a = "foldl (\<lambda>a i. set_u8 a i 0) ?a1 [off + 1..<IP_ADDRESS_MAX_LEN]"
  have "hicn_prefix_clear p n = Some (p\<lparr>prefix_name := ?a\<rparr>)"
    using off(3) by (simp add: hicn_prefix_clear_def off_def msk_def Let_def)
  moreover have "addr_bit ?a q \<longleftrightarrow> q < ?c \<and> addr_bit ?old q" if q: "q < 128" for q
  proof -
    have lt: "q < ?c \<longleftrightarrow> q div 8 < off \<or> q div 8 = off \<and> q mod 8 < n mod 8"
    proof -
      have "q = 8 * (q div 8) + q mod 8" "?c = 8 * off + n mod 8" "q mod 8 < 8" "n mod 8 < 8"
        unfolding off(1,2) by simp_all
      then show ?thesis by linarith
    qed
    have "q div 8 < 16" using q by simp
    then have "addr_bit ?a q \<longleftrightarrow> \<not> off < q div 8 \<and> addr_bit ?a1 q"
      using q by (subst addr_bit_clear_bytes) (auto simp: IP_ADDRESS_MAX_LEN_def IPV6_ADDR_LEN_def)
    also have "addr_bit ?a1 q \<longleftrightarrow> (if q div 8 = off then addr_bit ?old q \<and> q mod 8 < n mod 8 else addr_bit ?old q)"
      using q off(3) msk [of "q mod 8"] bit_as_u8 [OF q, of ?old]
      by (auto simp: addr_bit_set_u8 bit_and_iff)
    finally show ?thesis using lt by auto
  qed
  ultimately show ?thesis by blast
qed

lemma hicn_prefix_truncate_bits:
  assumes "clear_from p n < 128" "n \<le> prefix_len p"
  shows "\<exists>p'. hicn_prefix_truncate p n = Some p' \<and> prefix_len p' = n \<and>
    prefix_bits p' = take n (prefix_bits p) \<and>
    (\<forall>q<128. addr_bit (prefix_name p') q \<longleftrightarrow> q < clear_from p n \<and> addr_bit (prefix_name p) q)"
proof -
  obtain a where a: "hicn_prefix_clear p n = Some (p\<lparr>prefix_name := a\<rparr>)"
    "\<forall>q<128. addr_bit a q \<longleftrightarrow> q < clear_from p n \<and> addr_bit (prefix_name p) q"
    using hicn_prefix_clear_bits [OF assms(1)] by blast
  let ?p' = "p\<lparr>prefix_name := a, prefix_len := n\<rparr>"
  have "addr_bit a q = addr_bit (prefix_name p) q" if "q < n" for q
    using a(2) that assms(1) by (auto simp: clear_from_def split: if_splits)
  then have "prefix_bits ?p' = take n (prefix_bits p)"
    using assms(2) by (simp add: prefix_bits_def take_map)
  with a show ?thesis by (auto simp: hicn_prefix_truncate_def)
qed

text \<open>The number of leading bits two addresses share.\<close>

lemma lpm_words_common:
  "\<exists>n. lpm_words a1 a2 [0, 1] 0 = Some n \<and> n \<le> 128 \<and>
     (\<forall>p<n. addr_bit a1 p = addr_bit a2 p) \<and> (n < 128 \<longrightarrow> addr_bit a1 n \<noteq> addr_bit a2 n)"
proof -
  have diff: "bit (as_u64 a1 i XOR as_u64 a2 i) (nbo p) \<longleftrightarrow> addr_bit a1 (64 * i + p) \<noteq> addr_bit a2 (64 * i + p)"
    if "p < 64" for i p
    using that by (simp add: addr_bit_def bit_xor_iff)
  have word: "\<exists>r. log2_nbo (as_u64 a1 i XOR as_u64 a2 i) = Some r \<and> unat r < 64 \<and>
      addr_bit a1 (64 * i + unat r) \<noteq> addr_bit a2 (64 * i + unat r) \<and>
      (\<forall>p<unat r. addr_bit a1 (64 * i + p) = addr_bit a2 (64 * i + p))"
    if "as_u64 a1 i XOR as_u64 a2 i \<noteq> 0" for i
    using log2_nbo_first [OF that] diff by fastforce
  have same: "addr_bit a1 (64 * i + p) = addr_bit a2 (64 * i + p)"
    if "as_u64 a1 i XOR as_u64 a2 i = 0" "p < 64" for i p
    using diff [OF that(2), of i] that(1) by simp
  show ?thesis
  proof (cases "as_u64 a1 0 XOR as_u64 a2 0 = 0")
    case False
    with word [of 0] show ?thesis by fastforce
  next
    case w0: True
    have eq0: "addr_bit a1 p = addr_bit a2 p" if "p < 64" for p
      using same [OF w0 that] by simp
    show ?thesis
    proof (cases "as_u64 a1 1 XOR as_u64 a2 1 = 0")
      case True
      have "addr_bit a1 p = addr_bit a2 p" if "p < 128" for p
        using eq0 [of p] same [OF True, of "p - 64"] that by (cases "p < 64") auto
      with w0 True show ?thesis by simp
    next
      case False
      then obtain r where r: "log2_nbo (as_u64 a1 1 XOR as_u64 a2 1) = Some r" "unat r < 64"
        "addr_bit a1 (64 + unat r) \<noteq> addr_bit a2 (64 + unat r)"
        "\<forall>p<unat r. addr_bit a1 (64 + p) = addr_bit a2 (64 + p)"
        using word [of 1] by auto
      have "addr_bit a1 p = addr_bit a2 p" if "p < 64 + unat r" for p
        using eq0 [of p] r(4) [rule_format, of "p - 64"] that by (cases "p < 64") auto
      with w0 False r show ?thesis by simp
    qed
  qed
qed

lemma hicn_prefix_lpm_common:
  assumes "prefix_len p1 \<le> 128" "prefix_len p2 \<le> 128"
  shows "\<exists>n. hicn_prefix_lpm p1 p2 = Some n \<and> n \<le> prefix_len p1 \<and> n \<le> prefix_len p2 \<and>
    (\<forall>i<n. prefix_bits p1 ! i = prefix_bits p2 ! i) \<and>
    (n < prefix_len p1 \<and> n < prefix_len p2 \<longrightarrow> prefix_bits p1 ! n \<noteq> prefix_bits p2 ! n)"
proof -
  obtain n where n: "lpm_words (prefix_name p1) (prefix_name p2) [0, 1] 0 = Some n" "n \<le> 128"
    "\<forall>p<n. addr_bit (prefix_name p1) p = addr_bit (prefix_name p2) p"
    "n < 128 \<longrightarrow> addr_bit (prefix_name p1) n \<noteq> addr_bit (prefix_name p2) n"
    using lpm_words_common [of "prefix_name p1" "prefix_name p2"] by blast
  let ?m = "min n (min (prefix_len p1) (prefix_len p2))"
  have "hicn_prefix_lpm p1 p2 = Some ?m" using n(1) by (simp add: hicn_prefix_lpm_def hicn_prefix_get_len_def)
  moreover have "prefix_bits p1 ! ?m \<noteq> prefix_bits p2 ! ?m"
    if "?m < prefix_len p1" "?m < prefix_len p2"
    using that n(2,4) assms by (auto simp: prefix_bits_def min_def split: if_splits)
  ultimately show ?thesis using n(3) by (auto simp: prefix_bits_def)
qed

lemma length_longest_common_prefix:
  assumes "n \<le> length xs" "n \<le> length ys" "\<forall>i<n. xs ! i = ys ! i"
    "n < length xs \<and> n < length ys \<longrightarrow> xs ! n \<noteq> ys ! n"
  shows "length (longest_common_prefix xs ys) = n"
  using assms
proof (induction xs ys arbitrary: n rule: longest_common_prefix.induct)
  case (1 x xs y ys)
  show ?case
  proof (cases n)
    case 0
    with 1(5) show ?thesis by auto
  next
    case (Suc m)
    with 1 have "x = y" "\<forall>i<m. xs ! i = ys ! i" by fastforce+
    with 1(1) [of m] 1(2-5) Suc show ?thesis by auto
  qed
qed auto

lemma memcmp_eq_0: "length xs = length ys \<Longrightarrow> memcmp xs ys = 0 \<longleftrightarrow> xs = ys"
  by (induction xs ys rule: memcmp.induct) auto

lemma as_u8_eq_imp:
  assumes "\<forall>i<16. as_u8 a i = as_u8 b i"
  shows "a = b"
proof -
  have "addr_bit a p = addr_bit b p" if "p < 128" for p
    using assms bit_as_u8 [OF that, of a] bit_as_u8 [OF that, of b] that by simp
  have "as_u64 a i = as_u64 b i" if "i < 2" for i
  proof (rule bit_word_eqI)
    fix n assume "n < LENGTH(64)"
    then have n: "n < 64" by simp
    then have "nbo n < 64" "nbo (nbo n) = n"
      using nbo_lt nbo_div_mod [of n] by (auto simp: nbo_def [of "nbo n"])
    moreover have "addr_bit a (64 * i + nbo n) = addr_bit b (64 * i + nbo n)"
      using assms bit_as_u8 [of "64 * i + nbo n" a] bit_as_u8 [of "64 * i + nbo n" b]
        that \<open>nbo n < 64\<close> by simp
    ultimately show "bit (as_u64 a i) n = bit (as_u64 b i) n" by (simp add: addr_bit_def)
  qed
  from this [of 0] this [of 1] show ?thesis by (simp add: as_u64_def)
qed

lemma addr_bytes_inject [simp]: "addr_bytes a = addr_bytes b \<longleftrightarrow> a = b"
proof
  assume "addr_bytes a = addr_bytes b"
  then have "as_u8 a i = as_u8 b i" if "i < 16" for i
    using that by (auto simp: addr_bytes_def)
  then show "a = b" by (intro as_u8_eq_imp) blast
qed simp

lemma length_addr_bytes [simp]: "length (addr_bytes a) = 16"
  by (simp add: addr_bytes_def)

lemma hicn_ip_address_cmp_eq_0 [simp]: "hicn_ip_address_cmp a b = 0 \<longleftrightarrow> a = b"
  by (simp add: hicn_ip_address_cmp_def memcmp_eq_0)

lemma hicn_ip_address_equals_eq [simp]: "hicn_ip_address_equals a b \<longleftrightarrow> a = b"
  by (simp add: hicn_ip_address_equals_def)

lemma hicn_prefix_equals_eq [simp]: "hicn_prefix_equals p1 p2 \<longleftrightarrow> p1 = p2"
  by (auto simp: hicn_prefix_equals_def hicn_prefix_cmp_def)

lemma hicn_name_equals_eq [simp]: "hicn_name_equals n1 n2 \<longleftrightarrow> n1 = n2"
proof -
  have "sint w = 0 \<longleftrightarrow> w = 0" for w :: u32 by (rule signed_eq_0_iff)
  then show ?thesis by (auto simp: hicn_name_equals_def hicn_name_cmp_def Let_def)
qed

lemma is_v4_iff: "hicn_ip_address_is_v4 a \<longleftrightarrow> u64_0 a = 0 \<and> (\<forall>n<32. \<not> bit (u64_1 a) n)"
proof
  assume "hicn_ip_address_is_v4 a"
  then have z: "pad a 0 = 0" "pad a 1 = 0" "pad a 2 = 0"
    unfolding hicn_ip_address_is_v4_def by (auto simp: or_eq_0_iff)
  have "\<not> bit (u64_0 a) n" for n
  proof (cases "n < 32")
    case True
    then have "bit (pad a 0) n = bit (u64_0 a) n" by (simp add: pad_def bit_simps)
    with z show ?thesis by simp
  next
    case False
    have "bit (pad a 1) (n - 32) = bit (u64_0 a) n" if "n < 64"
      using that False by (simp add: pad_def bit_simps) linarith
    with z bit_imp_le_length [of "u64_0 a" n] show ?thesis by auto
  qed
  moreover have "\<not> bit (u64_1 a) n" if "n < 32" for n
  proof -
    have "bit (pad a 2) n = bit (u64_1 a) n" using that by (simp add: pad_def bit_simps)
    with z show ?thesis by simp
  qed
  ultimately show "u64_0 a = 0 \<and> (\<forall>n<32. \<not> bit (u64_1 a) n)" by (auto intro: bit_word_eqI)
next
  assume "u64_0 a = 0 \<and> (\<forall>n<32. \<not> bit (u64_1 a) n)"
  moreover from this have "(ucast (u64_1 a) :: u32) = 0" by (auto intro!: bit_word_eqI simp: bit_simps)
  ultimately show "hicn_ip_address_is_v4 a" by (simp add: hicn_ip_address_is_v4_def pad_def)
qed

lemma addr_bit_v4:
  assumes "hicn_ip_address_is_v4 a" "p < 96"
  shows "\<not> addr_bit a p"
proof (cases "p < 64")
  case True
  with assms show ?thesis by (simp add: addr_bit_def as_u64_def is_v4_iff)
next
  case False
  then have "p div 64 = 1" "p mod 64 < 32" using assms(2) by (simp_all add: le_div_geq le_mod_geq)
  moreover have "nbo (p mod 64) < 32"
    using nbo_less [of "p mod 64" 4] \<open>p mod 64 < 32\<close> by simp
  ultimately show ?thesis using assms(1) by (simp add: addr_bit_def as_u64_def is_v4_iff)
qed

lemma prefix_bits_length [simp]: "length (prefix_bits p) = prefix_len p"
  by (simp add: prefix_bits_def)

lemma prefix_bits_v4:
  assumes "hicn_prefix_is_v4 p" "prefix_len p \<le> 96"
  shows "prefix_bits p = replicate (prefix_len p) False"
  using assms by (intro nth_equalityI) (auto simp: prefix_bits_def hicn_prefix_is_v4_def addr_bit_v4)

lemma hicn_prefix_get_bit_nth:
  assumes "pos < prefix_len p" "prefix_len p \<le> 128"
  shows "hicn_prefix_get_bit p pos = Some (prefix_bits p ! pos)"
  using assms by (simp add: hicn_prefix_get_bit_def hicn_prefix_get_len_def prefix_bits_def
      hicn_ip_address_get_bit_eq)

lemma lpm_eq_lcp:
  assumes "prefix_len p1 \<le> 128" "prefix_len p2 \<le> 128"
  shows "hicn_prefix_lpm p1 p2 = Some (length (longest_common_prefix (prefix_bits p1) (prefix_bits p2)))"
  using hicn_prefix_lpm_common [OF assms] length_longest_common_prefix [of _ "prefix_bits p1" "prefix_bits p2"]
  by fastforce

section \<open>Properties\<close>

text \<open>C12: \<open>hicn_prefix_lpm\<close> returns the length of the longest common prefix of the bit
  strings of the two prefixes; its word-wise search, with \<open>_log2_nbo\<close> finding the first
  differing bit of a word in network byte order, never fails its assertion.\<close>

theorem hicn_prefix_lpm_is_lcp:
  assumes "prefix_len p1 \<le> 128" "prefix_len p2 \<le> 128"
  shows "hicn_prefix_lpm p1 p2 = Some (length (longest_common_prefix (prefix_bits p1) (prefix_bits p2)))"
  by (rule lpm_eq_lcp [OF assms])

definition example_addr :: hicn_ip_address where
  "example_addr = \<lparr>u64_0 = 0x0000000000000120, u64_1 = 0x0100000000000000\<rparr>"

theorem hicn_prefix_lpm_is_lcp_witness:
  "hicn_prefix_lpm \<lparr>prefix_name = example_addr, prefix_len = 3\<rparr> \<lparr>prefix_name = IP_ADDRESS_EMPTY, prefix_len = 8\<rparr>
   = Some 2"
proof -
  have "prefix_bits \<lparr>prefix_name = example_addr, prefix_len = 3\<rparr> = [False, False, True]"
    by (simp add: prefix_bits_def upt_rec addr_bit_def as_u64_def nbo_def example_addr_def bit_iff_odd)
  moreover have "prefix_bits \<lparr>prefix_name = IP_ADDRESS_EMPTY, prefix_len = 8\<rparr> = replicate 8 False"
    by (intro prefix_bits_v4 [where p = "\<lparr>prefix_name = IP_ADDRESS_EMPTY, prefix_len = 8\<rparr>", simplified])
       (simp_all add: hicn_prefix_is_v4_def is_v4_iff IP_ADDRESS_EMPTY_def)
  ultimately show ?thesis
    using hicn_prefix_lpm_is_lcp [of "\<lparr>prefix_name = example_addr, prefix_len = 3\<rparr>"
        "\<lparr>prefix_name = IP_ADDRESS_EMPTY, prefix_len = 8\<rparr>"]
    by (simp add: numeral_eq_Suc)
qed

text \<open>C25: \<open>hicn_prefix_truncate\<close> to a length within the prefix and below the length of the
  address (128 bits, 32 for IPv4) keeps the first bits, clears every later bit of the address part,
  and writes nothing outside the address. The case of the full length is left out because the code
  writes one byte past the address there.\<close>

theorem hicn_prefix_truncate_correct:
  assumes "n \<le> prefix_len p" "n < hicn_ip_address_get_len_bits (prefix_name p)"
  shows "\<exists>p'. hicn_prefix_truncate p n = Some p' \<and> prefix_len p' = n \<and>
    prefix_bits p' = take n (prefix_bits p) \<and>
    (\<forall>q<128. addr_bit (prefix_name p') q \<longleftrightarrow>
       q < 128 - hicn_ip_address_get_len_bits (prefix_name p) + n \<and> addr_bit (prefix_name p) q)"
proof -
  have "clear_from p n = 128 - hicn_ip_address_get_len_bits (prefix_name p) + n"
    by (simp add: clear_from_def hicn_ip_address_get_len_bits_def hicn_ip_address_get_len_def
        hicn_ip_address_len_def hicn_ip_address_get_family_def AF_INET_def AF_INET6_def
        IPV4_ADDR_LEN_def IPV6_ADDR_LEN_def hicn_prefix_is_v4_def)
  moreover have "hicn_ip_address_get_len_bits (prefix_name p) \<le> 128"
    by (simp add: hicn_ip_address_get_len_bits_def hicn_ip_address_get_len_def
        hicn_ip_address_len_def IPV4_ADDR_LEN_def IPV6_ADDR_LEN_def)
  ultimately show ?thesis
    using hicn_prefix_truncate_bits [of p n] assms by simp
qed

theorem hicn_prefix_truncate_correct_witness:
  "\<exists>p'. hicn_prefix_truncate \<lparr>prefix_name = example_addr, prefix_len = 64\<rparr> 16 = Some p' \<and> prefix_len p' = 16"
proof -
  have "hicn_ip_address_get_len_bits example_addr = 128"
    by (simp add: hicn_ip_address_get_len_bits_def hicn_ip_address_get_len_def
        hicn_ip_address_len_def hicn_ip_address_get_family_def is_v4_iff example_addr_def IPV6_ADDR_LEN_def)
  then show ?thesis
    using hicn_prefix_truncate_correct [of 16 "\<lparr>prefix_name = example_addr, prefix_len = 64\<rparr>"] by auto
qed

text \<open>C29: between two IPv4 prefixes \<open>hicn_prefix_lpm\<close> compares the zero padding and not
  the address, so it returns the smaller of the two lengths whatever the addresses are.\<close>

theorem hicn_prefix_lpm_ignores_v4_address:
  assumes "hicn_prefix_is_v4 p1" "hicn_prefix_is_v4 p2" "prefix_len p1 \<le> 32" "prefix_len p2 \<le> 32"
  shows "hicn_prefix_lpm p1 p2 = Some (min (prefix_len p1) (prefix_len p2))"
proof -
  have "length (longest_common_prefix (replicate m False) (replicate n False)) = min m n" for m n
    by (rule length_longest_common_prefix) auto
  then show ?thesis
    using lpm_eq_lcp [of p1 p2] prefix_bits_v4 [of p1] prefix_bits_v4 [of p2] assms by simp
qed

theorem hicn_prefix_lpm_ignores_v4_address_witness:
  "hicn_prefix_lpm \<lparr>prefix_name = \<lparr>u64_0 = 0, u64_1 = 0x0100000A00000000\<rparr>, prefix_len = 24\<rparr>
     \<lparr>prefix_name = \<lparr>u64_0 = 0, u64_1 = 0x0201A8C000000000\<rparr>, prefix_len = 24\<rparr> = Some 24"
proof -
  have "\<not> bit (push_bit 32 w :: u64) n" if "n < 32" for n w using that by (simp add: bit_simps)
  from this [where w = "0x0100000A"] this [where w = "0x0201A8C0"] show ?thesis
    using hicn_prefix_lpm_ignores_v4_address
      [of "\<lparr>prefix_name = \<lparr>u64_0 = 0, u64_1 = 0x0100000A00000000\<rparr>, prefix_len = 24\<rparr>"
          "\<lparr>prefix_name = \<lparr>u64_0 = 0, u64_1 = 0x0201A8C000000000\<rparr>, prefix_len = 24\<rparr>"]
    by (simp add: hicn_prefix_is_v4_def is_v4_iff)
qed

text \<open>C35: the comparisons of names and prefixes decide equality: \<open>hicn_name_equals\<close>
  and \<open>hicn_prefix_equals\<close> hold exactly on equal values, and \<open>hicn_name_compare\<close>
  is null exactly when the addresses, and the suffixes if considered, are equal.\<close>

theorem hicn_equality_decided:
  "(hicn_name_equals n1 n2 \<longleftrightarrow> n1 = n2) \<and> (hicn_prefix_equals p1 p2 \<longleftrightarrow> p1 = p2) \<and>
   (hicn_name_compare n1 n2 b = 0 \<longleftrightarrow> name_prefix n1 = name_prefix n2 \<and> (if b then name_suffix n1 = name_suffix n2 else True))"
proof -
  have "memcmp xs ys \<in> {-1, 0, 1}" for xs ys by (induction xs ys rule: memcmp.induct) auto
  then have "memcmp xs ys OR 1 \<noteq> 0" for xs ys by (metis insertE or_eq_0_iff singletonD zero_neq_one)
  then show ?thesis by (auto simp: hicn_name_compare_def memcmp_eq_0 Let_def)
qed

text \<open>C36: the shift-and-add hash of the default build is the FNV-1a hash: one
  exclusive-or and one multiplication by the FNV prime per byte.\<close>

theorem cumulative_hash32_fnv1a:
  "cumulative_hash32 bs h = foldl (\<lambda>h b. (h XOR ucast b) * FNV_32_PRIME) h bs"
proof (induction bs arbitrary: h)
  case (Cons b bs)
  have "x + (push_bit 1 x + push_bit 4 x + push_bit 7 x + push_bit 8 x + push_bit 24 x) = x * FNV_32_PRIME"
    for x :: u32
    by (simp add: push_bit_eq_mult FNV_32_PRIME_def algebra_simps)
  with Cons show ?case by (simp add: Let_def)
qed simp

end
