(* ===== verification/Packet_Buffer.thy ===== *)
theory Packet_Buffer
  imports Hicn_Name
begin

text \<open>
  The packet buffer of libhicn (\<open>lib/includes/hicn/packet.h\<close>), the packet format
  (\<open>lib/includes/hicn/base.h\<close>) and the virtual function table by which a
  packet operation walks down the layers of the format (\<open>lib/src/ops.h\<close>,
  \<open>lib/src/ops.c\<close>).

  \<^item> \<open>hicn_packet_buffer\<close> holds, beside the fields of the C structure, the bytes
    the \<open>header\<close> offset points to; an access outside these bytes is \<^term>\<open>None\<close>.
  \<^item> \<open>call_from\<close> is \<open>CALL_CHILD\<close>: it looks up the protocol at the next position of
    the format, fails on a null entry of the table, and hands the entry the
    continuation for the layer below. Past the fourth position the protocol is
    \<open>IPPROTO_NONE\<close>, whose entries end the recursion.
  \<^item> A multi-byte field is read and written as on a little-endian machine;
    \<open>bswap\<close> is the byte swap of \<open>htons\<close>, \<open>htonl\<close> and their inverses.
  \<^item> An output parameter is passed with the value it has before the call, since
    several operations return without writing it.
\<close>

section \<open>Words as bytes\<close>

fun word_bytes :: "nat \<Rightarrow> 'a::len word \<Rightarrow> u8 list" where
  "word_bytes 0 w = []"
| "word_bytes (Suc n) w = ucast w # word_bytes n (drop_bit 8 w)"

fun le_word :: "u8 list \<Rightarrow> 'a::len word" where
  "le_word [] = 0"
| "le_word (b # bs) = ucast b OR push_bit 8 (le_word bs)"

definition bswap :: "nat \<Rightarrow> 'a::len word \<Rightarrow> 'a word" where
  "bswap n w = le_word (rev (word_bytes n w))"

definition load :: "u8 list \<Rightarrow> nat \<Rightarrow> nat \<Rightarrow> u8 list option" where
  "load buf off n = (if off + n \<le> length buf then Some (take n (drop off buf)) else None)"

definition overlay :: "nat \<Rightarrow> u8 list \<Rightarrow> u8 list \<Rightarrow> u8 list" where
  "overlay off bs buf = take off buf @ bs @ drop (off + length bs) buf"

definition store :: "u8 list \<Rightarrow> nat \<Rightarrow> u8 list \<Rightarrow> u8 list option" where
  "store buf off bs = (if off + length bs \<le> length buf then Some (overlay off bs buf) else None)"

lemma length_word_bytes [simp]: "length (word_bytes n w) = n"
  by (induction n arbitrary: w) auto

lemma bit_le_word:
  "bit (le_word bs :: 'a::len word) i \<longleftrightarrow> i < LENGTH('a) \<and> i div 8 < length bs \<and> bit (bs ! (i div 8)) (i mod 8)"
proof (induction bs arbitrary: i)
  case (Cons b bs)
  show ?case
  proof (cases "i < 8")
    case True
    then show ?thesis by (auto simp: bit_simps)
  next
    case False
    then obtain j where j: "i = j + 8" by (metis add.commute le_Suc_ex linorder_not_less)
    have "(j + 8) div 8 = Suc (j div 8)" by simp
    then show ?thesis using Cons.IH [of j] unfolding j by (auto simp: bit_simps dest: bit_imp_le_length)
  qed
qed simp

lemma nth_word_bytes: "k < n \<Longrightarrow> word_bytes n w ! k = ucast (drop_bit (8 * k) w)"
proof (induction n arbitrary: w k)
  case (Suc n)
  then show ?case by (cases k) (simp_all add: ac_simps)
qed simp

lemma bit_word_bytes: "k < n \<Longrightarrow> j < 8 \<Longrightarrow> bit (word_bytes n (w :: 'a::len word) ! k) j \<longleftrightarrow> bit w (8 * k + j)"
  by (auto simp: nth_word_bytes bit_simps dest: bit_imp_le_length)

lemma le_word_bytes [simp]:
  assumes "LENGTH('a::len) = 8 * n"
  shows "le_word (word_bytes n w) = (w :: 'a word)"
proof (rule bit_word_eqI)
  fix i assume "i < LENGTH('a)"
  then have "i div 8 < n" using assms by (metis div_less_iff_less_mult mult.commute zero_less_numeral)
  then show "bit (le_word (word_bytes n w) :: 'a word) i = bit w i"
    using \<open>i < LENGTH('a)\<close> by (simp add: bit_le_word bit_word_bytes)
qed

lemma word_bytes_le [simp]:
  assumes "length bs = n" "8 * n \<le> LENGTH('a::len)"
  shows "word_bytes n (le_word bs :: 'a word) = bs"
proof (rule nth_equalityI)
  fix k assume "k < length (word_bytes n (le_word bs :: 'a word))"
  then have k: "k < n" by simp
  show "word_bytes n (le_word bs :: 'a word) ! k = bs ! k"
  proof (rule bit_word_eqI)
    fix j assume "j < LENGTH(8)"
    then have "j < 8" by simp
    with k assms show "bit (word_bytes n (le_word bs :: 'a word) ! k) j = bit (bs ! k) j"
      by (simp add: bit_word_bytes bit_le_word)
  qed
qed (simp add: assms)

lemma bswap_bswap [simp]: "LENGTH('a::len) = 8 * n \<Longrightarrow> bswap n (bswap n w) = (w :: 'a word)"
  by (simp add: bswap_def)

lemma word_bytes_bswap: "LENGTH('a::len) = 8 * n \<Longrightarrow> word_bytes n (bswap n w :: 'a word) = rev (word_bytes n w)"
  by (simp add: bswap_def)

lemma length_overlay [simp]: "off + length bs \<le> length buf \<Longrightarrow> length (overlay off bs buf) = length buf"
  by (simp add: overlay_def)

lemma load_overlay_same:
  "off + length bs \<le> length buf \<Longrightarrow> n = length bs \<Longrightarrow> load (overlay off bs buf) off n = Some bs"
  by (simp add: overlay_def load_def)

lemma nth_overlay:
  "off + length bs \<le> length buf \<Longrightarrow> i < length buf \<Longrightarrow>
   overlay off bs buf ! i = (if off \<le> i \<and> i < off + length bs then bs ! (i - off) else buf ! i)"
  by (auto simp: overlay_def nth_append min_def)

lemma load_overlay_other:
  assumes "off + length bs \<le> length buf" "o' + n \<le> off \<or> off + length bs \<le> o'"
  shows "load (overlay off bs buf) o' n = load buf o' n"
proof (cases "o' + n \<le> length buf")
  case True
  have "take n (drop o' (overlay off bs buf)) = take n (drop o' buf)"
    using True assms by (intro nth_equalityI) (auto simp: nth_overlay)
  then show ?thesis using assms(1) by (simp add: load_def)
qed (use assms in \<open>simp add: load_def\<close>)

lemma load_Some: "off + n \<le> length buf \<Longrightarrow> load buf off n = Some (take n (drop off buf))"
  by (simp add: load_def)

section \<open>Error codes and packet types\<close>

definition HICN_LIB_ERROR_NONE :: int where [simp]: "HICN_LIB_ERROR_NONE = 0"
definition HICN_LIB_ERROR_NOT_IMPLEMENTED :: int where [simp]: "HICN_LIB_ERROR_NOT_IMPLEMENTED = - 180"
definition HICN_LIB_ERROR_INVALID_PARAMETER :: int where [simp]: "HICN_LIB_ERROR_INVALID_PARAMETER = - 220"
definition HICN_LIB_ERROR_CORRUPTED_PACKET :: int where [simp]: "HICN_LIB_ERROR_CORRUPTED_PACKET = - 222"
definition HICN_LIB_ERROR_REWRITE_CKSUM_REQUIRED :: int where [simp]: "HICN_LIB_ERROR_REWRITE_CKSUM_REQUIRED = - 223"
definition HICN_LIB_ERROR_UNEXPECTED :: int where [simp]: "HICN_LIB_ERROR_UNEXPECTED = - 298"

text \<open>The enumeration of packet types is stored in an \<open>int\<close>-sized object.\<close>

definition HICN_PACKET_TYPE_UNDEFINED :: u32 where [simp]: "HICN_PACKET_TYPE_UNDEFINED = 0"
definition HICN_PACKET_TYPE_INTEREST :: u32 where [simp]: "HICN_PACKET_TYPE_INTEREST = 1"
definition HICN_PACKET_TYPE_DATA :: u32 where [simp]: "HICN_PACKET_TYPE_DATA = 2"
definition HICN_PACKET_TYPE_WLDR_NOTIFICATION :: u32 where [simp]: "HICN_PACKET_TYPE_WLDR_NOTIFICATION = 3"
definition HICN_PACKET_TYPE_MAPME :: u32 where [simp]: "HICN_PACKET_TYPE_MAPME = 4"
definition HICN_PACKET_TYPE_PROBE :: u32 where [simp]: "HICN_PACKET_TYPE_PROBE = 5"
definition HICN_PACKET_TYPE_COMMAND :: u32 where [simp]: "HICN_PACKET_TYPE_COMMAND = 6"

definition HPT_DATA :: u32 where [simp]: "HPT_DATA = 0"
definition HPT_MANIFEST :: u32 where [simp]: "HPT_MANIFEST = 1"
definition HPT_UNSPEC :: u32 where [simp]: "HPT_UNSPEC = 999"

section \<open>Packet formats\<close>

definition IPPROTO_IP :: u8 where [simp]: "IPPROTO_IP = 0"
definition IPPROTO_ICMP :: u8 where [simp]: "IPPROTO_ICMP = 1"
definition IPPROTO_TCP :: u8 where [simp]: "IPPROTO_TCP = 6"
definition IPPROTO_UDP :: u8 where [simp]: "IPPROTO_UDP = 17"
definition IPPROTO_IPV6 :: u8 where [simp]: "IPPROTO_IPV6 = 41"
definition IPPROTO_AH :: u8 where [simp]: "IPPROTO_AH = 51"
definition IPPROTO_ICMPV6 :: u8 where [simp]: "IPPROTO_ICMPV6 = 58"
definition IPPROTO_NONE :: u8 where [simp]: "IPPROTO_NONE = 59"
definition IPPROTO_ENCAP :: u8 where [simp]: "IPPROTO_ENCAP = 98"

definition HICN_PACKET_FORMAT :: "u8 \<Rightarrow> u8 \<Rightarrow> u8 \<Rightarrow> u8 \<Rightarrow> u32" where
  "HICN_PACKET_FORMAT x y z t =
     push_bit 24 (ucast x) + push_bit 16 (ucast y) + push_bit 8 (ucast z) + ucast t"

definition HICN_PACKET_FORMAT_SIZE :: nat where [simp]: "HICN_PACKET_FORMAT_SIZE = 4"

definition HICN_PACKET_FORMAT_GET :: "u32 \<Rightarrow> nat \<Rightarrow> u8" where
  "HICN_PACKET_FORMAT_GET format i =
     (if i > 3 then IPPROTO_NONE else ucast (drop_bit ((3 - i) * 8) format AND 0xFF))"

definition HICN_PACKET_FORMAT_SET :: "u32 \<Rightarrow> nat \<Rightarrow> u8 \<Rightarrow> u32" where
  "HICN_PACKET_FORMAT_SET format i val =
     push_bit ((3 - i) * 8) (ucast val) OR (format AND (0xFFFFFFFF XOR push_bit ((3 - i) * 8) 0xFF))"

definition HICN_PACKET_FORMAT_NONE :: u32 where
  "HICN_PACKET_FORMAT_NONE = HICN_PACKET_FORMAT IPPROTO_NONE IPPROTO_NONE IPPROTO_NONE IPPROTO_NONE"

definition HICN_PACKET_FORMAT_IPV6_TCP :: u32 where
  "HICN_PACKET_FORMAT_IPV6_TCP = HICN_PACKET_FORMAT IPPROTO_IPV6 IPPROTO_TCP IPPROTO_NONE IPPROTO_NONE"

definition HICN_PACKET_FORMAT_IPV4_TCP :: u32 where
  "HICN_PACKET_FORMAT_IPV4_TCP = HICN_PACKET_FORMAT IPPROTO_IP IPPROTO_TCP IPPROTO_NONE IPPROTO_NONE"

definition HICN_PACKET_FORMAT_NEW :: u32 where
  "HICN_PACKET_FORMAT_NEW = HICN_PACKET_FORMAT IPPROTO_ENCAP IPPROTO_NONE IPPROTO_NONE IPPROTO_NONE"

definition HICN_PACKET_FORMAT_IPV4_UDP :: u32 where
  "HICN_PACKET_FORMAT_IPV4_UDP = HICN_PACKET_FORMAT IPPROTO_IP IPPROTO_UDP IPPROTO_ENCAP IPPROTO_NONE"

definition HICN_PACKET_FORMAT_IPV6_TCP_AH :: u32 where
  "HICN_PACKET_FORMAT_IPV6_TCP_AH = HICN_PACKET_FORMAT IPPROTO_IPV6 IPPROTO_TCP IPPROTO_AH IPPROTO_NONE"

text \<open>\<open>hicn_get_ah_format\<close>: the first free position takes the AH header.\<close>

fun get_ah_format_at :: "u32 \<Rightarrow> nat list \<Rightarrow> u32" where
  "get_ah_format_at format [] = format"
| "get_ah_format_at format (i # is) =
     (if HICN_PACKET_FORMAT_GET format i = IPPROTO_AH then format
      else if HICN_PACKET_FORMAT_GET format i = IPPROTO_NONE then HICN_PACKET_FORMAT_SET format i IPPROTO_AH
      else get_ah_format_at format is)"

definition hicn_get_ah_format :: "u32 \<Rightarrow> u32" where
  "hicn_get_ah_format format = get_ah_format_at format [0..<HICN_PACKET_FORMAT_SIZE]"

definition HICN_PACKET_FORMAT_IS_AH :: "u32 \<Rightarrow> bool" where
  "HICN_PACKET_FORMAT_IS_AH format \<longleftrightarrow> (\<exists>i\<in>{0..<4}. HICN_PACKET_FORMAT_GET format i = IPPROTO_AH)"

section \<open>The packet buffer\<close>

record hicn_packet_buffer =
  pk_bytes :: "u8 list"
  pk_format :: u32
  pk_type :: u16
  pk_buffer_size :: u16
  pk_len :: u16
  pk_l4 :: u8
  pk_newhdr :: u8
  pk_ah :: u16
  pk_payload :: u16

definition pkbuf_get_tcp :: "hicn_packet_buffer \<Rightarrow> nat" where
  [simp]: "pkbuf_get_tcp pk = unat (pk_l4 pk)"

definition pkbuf_get_udp :: "hicn_packet_buffer \<Rightarrow> nat" where
  [simp]: "pkbuf_get_udp pk = unat (pk_l4 pk)"

definition pkbuf_get_icmp :: "hicn_packet_buffer \<Rightarrow> nat" where
  [simp]: "pkbuf_get_icmp pk = unat (pk_l4 pk)"

definition pkbuf_get_ah :: "hicn_packet_buffer \<Rightarrow> nat" where
  [simp]: "pkbuf_get_ah pk = unat (pk_ah pk)"

definition pkbuf_get_new :: "hicn_packet_buffer \<Rightarrow> nat" where
  [simp]: "pkbuf_get_new pk = unat (pk_newhdr pk)"

text \<open>Field access: \<open>n\<close> bytes at an offset from the start of the packet.\<close>

definition pk_load :: "nat \<Rightarrow> nat \<Rightarrow> hicn_packet_buffer \<Rightarrow> 'a::len word option" where
  "pk_load n off pk = map_option le_word (load (pk_bytes pk) off n)"

definition pk_store_bytes :: "nat \<Rightarrow> u8 list \<Rightarrow> hicn_packet_buffer \<Rightarrow> hicn_packet_buffer option" where
  "pk_store_bytes off bs pk = map_option (\<lambda>b. pk\<lparr>pk_bytes := b\<rparr>) (store (pk_bytes pk) off bs)"

definition pk_store :: "nat \<Rightarrow> nat \<Rightarrow> 'a::len word \<Rightarrow> hicn_packet_buffer \<Rightarrow> hicn_packet_buffer option" where
  "pk_store n off w pk = pk_store_bytes off (word_bytes n w) pk"

section \<open>The virtual function table\<close>

datatype protocol = P_IPV4 | P_ICMP | P_TCP | P_UDP | P_IPV6 | P_AH | P_NONE | P_NEW

definition hicn_ops_vft :: "u8 \<Rightarrow> protocol option" where
  "hicn_ops_vft p =
     (if p = IPPROTO_IP then Some P_IPV4 else if p = IPPROTO_ICMP then Some P_ICMP
      else if p = IPPROTO_TCP then Some P_TCP else if p = IPPROTO_UDP then Some P_UDP
      else if p = IPPROTO_IPV6 then Some P_IPV6 else if p = IPPROTO_AH then Some P_AH
      else if p = IPPROTO_ICMPV6 then Some P_ICMP else if p = IPPROTO_NONE then Some P_NONE
      else if p = IPPROTO_ENCAP then Some P_NEW else None)"

definition header_len :: "protocol \<Rightarrow> nat" where
  "header_len p = (case p of P_IPV4 \<Rightarrow> 20 | P_ICMP \<Rightarrow> 4 | P_TCP \<Rightarrow> 20 | P_UDP \<Rightarrow> 8
     | P_IPV6 \<Rightarrow> 40 | P_AH \<Rightarrow> 44 | P_NONE \<Rightarrow> 0 | P_NEW \<Rightarrow> 32)"

type_synonym ('a, 'r) ops = "protocol \<Rightarrow> nat \<Rightarrow> ('a \<Rightarrow> hicn_packet_buffer \<Rightarrow> 'r option) \<Rightarrow> 'a \<Rightarrow> hicn_packet_buffer \<Rightarrow> 'r option"

text \<open>\<open>call_from ops n\<close> is the call at position \<open>4 - n\<close>.\<close>

fun call_from :: "('a, 'r) ops \<Rightarrow> nat \<Rightarrow> 'a \<Rightarrow> hicn_packet_buffer \<Rightarrow> 'r option" where
  "call_from ops 0 a pk = ops P_NONE 4 (\<lambda>_ _. None) a pk"
| "call_from ops (Suc n) a pk = do {
     p \<leftarrow> hicn_ops_vft (HICN_PACKET_FORMAT_GET (pk_format pk) (3 - n));
     ops p (3 - n) (call_from ops n) a pk }"

definition CALL :: "('a, 'r) ops \<Rightarrow> 'a \<Rightarrow> hicn_packet_buffer \<Rightarrow> 'r option" where
  "CALL ops a pk = call_from ops HICN_PACKET_FORMAT_SIZE a pk"

end
