(* ===== verification/Packet_Ops.thy ===== *)
theory Packet_Ops
  imports Packet_Buffer
begin

text \<open>
  The packet operations of the protocol layers, \<open>lib/src/protocol/\<close>: IPv4, IPv6,
  TCP, UDP, ICMP, AH and the "new" header, one definition per operation with a
  body of its own. \<open><method>_ops\<close> is the row of the virtual function tables for a
  method: the layers that only pass the call on use the continuation.
\<close>

section \<open>Header fields\<close>

definition TCP_SUFFIX :: nat where [simp]: "TCP_SUFFIX = 4"
definition TCP_SEQ_ACK :: nat where [simp]: "TCP_SEQ_ACK = 8"
definition TCP_DATA_OFFSET :: nat where [simp]: "TCP_DATA_OFFSET = 12"
definition TCP_FLAGS :: nat where [simp]: "TCP_FLAGS = 13"
definition TCP_CSUM :: nat where [simp]: "TCP_CSUM = 16"
definition TCP_URG_PTR :: nat where [simp]: "TCP_URG_PTR = 18"
definition NEW_FLAGS :: nat where [simp]: "NEW_FLAGS = 1"
definition NEW_PAYLOAD_LEN :: nat where [simp]: "NEW_PAYLOAD_LEN = 2"
definition NEW_LIFETIME :: nat where [simp]: "NEW_LIFETIME = 4"
definition NEW_PREFIX :: nat where [simp]: "NEW_PREFIX = 8"
definition NEW_SUFFIX :: nat where [simp]: "NEW_SUFFIX = 24"
definition NEW_PATH_LABEL :: nat where [simp]: "NEW_PATH_LABEL = 28"
definition IPV4_LEN :: nat where [simp]: "IPV4_LEN = 2"
definition IPV4_PROTOCOL :: nat where [simp]: "IPV4_PROTOCOL = 9"
definition IPV4_CSUM :: nat where [simp]: "IPV4_CSUM = 10"
definition IPV4_SADDR :: nat where [simp]: "IPV4_SADDR = 12"
definition IPV4_DADDR :: nat where [simp]: "IPV4_DADDR = 16"
definition IPV6_LEN :: nat where [simp]: "IPV6_LEN = 4"
definition IPV6_NXT :: nat where [simp]: "IPV6_NXT = 6"
definition IPV6_SADDR :: nat where [simp]: "IPV6_SADDR = 8"
definition IPV6_DADDR :: nat where [simp]: "IPV6_DADDR = 24"
definition AH_PAYLOADLEN :: nat where [simp]: "AH_PAYLOADLEN = 1"
definition AH_ALGORITHM :: nat where [simp]: "AH_ALGORITHM = 2"
definition AH_PADDING :: nat where [simp]: "AH_PADDING = 3"
definition AH_TIMESTAMP :: nat where [simp]: "AH_TIMESTAMP = 4"
definition AH_KEYID :: nat where [simp]: "AH_KEYID = 12"
definition AH_VALIDATION_PAYLOAD :: nat where [simp]: "AH_VALIDATION_PAYLOAD = 44"

definition IPV4_HDRLEN :: nat where [simp]: "IPV4_HDRLEN = 20"
definition IPV6_HDRLEN :: nat where [simp]: "IPV6_HDRLEN = 40"
definition TCP_HDRLEN :: nat where [simp]: "TCP_HDRLEN = 20"
definition UDP_HDRLEN :: nat where [simp]: "UDP_HDRLEN = 8"
definition ICMP_HDRLEN :: nat where [simp]: "ICMP_HDRLEN = 4"
definition NEW_HDRLEN :: nat where [simp]: "NEW_HDRLEN = 32"
definition AH_HDRLEN :: nat where [simp]: "AH_HDRLEN = 44"

definition HICN_TCP_FLAG_RST :: u8 where [simp]: "HICN_TCP_FLAG_RST = 4"
definition HICN_TCP_FLAG_URG :: u8 where [simp]: "HICN_TCP_FLAG_URG = 32"
definition HICN_TCP_FLAG_ECE :: u8 where [simp]: "HICN_TCP_FLAG_ECE = 64"
definition AH_FLAG :: u8 where [simp]: "AH_FLAG = 16"
definition HICN_NEW_FLAG_SIG :: u8 where [simp]: "HICN_NEW_FLAG_SIG = 1"
definition HICN_NEW_FLAG_MAN :: u8 where [simp]: "HICN_NEW_FLAG_MAN = 2"
definition HICN_NEW_FLAG_INT :: u8 where [simp]: "HICN_NEW_FLAG_INT = 4"
definition HICN_NEW_FLAG_LST :: u8 where [simp]: "HICN_NEW_FLAG_LST = 8"

definition HICN_DEFAULT_TTL :: u8 where [simp]: "HICN_DEFAULT_TTL = 254"

text \<open>A network-order field of \<open>n\<close> bytes; an update of a flag byte; a 16-byte
  address, held by its two words.\<close>

definition ntoh :: "nat \<Rightarrow> nat \<Rightarrow> hicn_packet_buffer \<Rightarrow> 'a::len word option" where
  "ntoh n off pk = map_option (bswap n) (pk_load n off pk)"

definition hton :: "nat \<Rightarrow> nat \<Rightarrow> 'a::len word \<Rightarrow> hicn_packet_buffer \<Rightarrow> hicn_packet_buffer option" where
  "hton n off w pk = pk_store n off (bswap n w) pk"

definition pk_update8 :: "nat \<Rightarrow> (u8 \<Rightarrow> u8) \<Rightarrow> hicn_packet_buffer \<Rightarrow> hicn_packet_buffer option" where
  "pk_update8 off f pk = do { b \<leftarrow> pk_load 1 off pk; pk_store 1 off (f b) pk }"

definition pk_load_address :: "nat \<Rightarrow> hicn_packet_buffer \<Rightarrow> hicn_ip_address option" where
  "pk_load_address off pk = do {
     a \<leftarrow> pk_load 8 off pk; b \<leftarrow> pk_load 8 (off + 8) pk; Some \<lparr>u64_0 = a, u64_1 = b\<rparr> }"

definition address_bytes :: "hicn_ip_address \<Rightarrow> u8 list" where
  "address_bytes a = word_bytes 8 (u64_0 a) @ word_bytes 8 (u64_1 a)"

definition pk_store_address :: "nat \<Rightarrow> hicn_ip_address \<Rightarrow> hicn_packet_buffer \<Rightarrow> hicn_packet_buffer option" where
  "pk_store_address off a pk = pk_store_bytes off (address_bytes a) pk"

definition set_v4 :: "hicn_ip_address \<Rightarrow> u32 \<Rightarrow> hicn_ip_address" where
  "set_v4 a v = a\<lparr>u64_1 := ucast (ucast (u64_1 a) :: u32) OR push_bit 32 (ucast v)\<rparr>"

definition check_error :: "int \<times> 'a \<Rightarrow> ('a \<Rightarrow> (int \<times> 'a) option) \<Rightarrow> (int \<times> 'a) option" where
  "check_error r k = (if fst r \<noteq> 0 then Some r else k (snd r))"

section \<open>Packet type\<close>

definition tcp_get_type :: "u32 \<Rightarrow> hicn_packet_buffer \<Rightarrow> (int \<times> u32) option" where
  "tcp_get_type old pk = do {
     flags \<leftarrow> pk_load 1 (pkbuf_get_tcp pk + TCP_FLAGS) pk;
     Some (HICN_LIB_ERROR_NONE,
           if flags AND HICN_TCP_FLAG_ECE \<noteq> 0 then HICN_PACKET_TYPE_DATA else HICN_PACKET_TYPE_INTEREST) }"

definition tcp_set_type :: "u32 \<Rightarrow> hicn_packet_buffer \<Rightarrow> (int \<times> hicn_packet_buffer) option" where
  "tcp_set_type type pk =
     (if type = HICN_PACKET_TYPE_INTEREST then do {
        pk \<leftarrow> pk_update8 (pkbuf_get_tcp pk + TCP_FLAGS) (\<lambda>f. f AND NOT HICN_TCP_FLAG_ECE) pk;
        Some (HICN_LIB_ERROR_NONE, pk) }
      else if type = HICN_PACKET_TYPE_DATA then do {
        pk \<leftarrow> pk_update8 (pkbuf_get_tcp pk + TCP_FLAGS) (\<lambda>f. f OR HICN_TCP_FLAG_ECE) pk;
        Some (HICN_LIB_ERROR_NONE, pk) }
      else Some (HICN_LIB_ERROR_INVALID_PARAMETER, pk))"

definition new_get_type :: "u32 \<Rightarrow> hicn_packet_buffer \<Rightarrow> (int \<times> u32) option" where
  "new_get_type old pk = do {
     flags \<leftarrow> pk_load 1 (pkbuf_get_new pk + NEW_FLAGS) pk;
     Some (HICN_LIB_ERROR_NONE,
           if flags AND HICN_NEW_FLAG_INT \<noteq> 0 then HICN_PACKET_TYPE_INTEREST else HICN_PACKET_TYPE_DATA) }"

definition new_set_type :: "u32 \<Rightarrow> hicn_packet_buffer \<Rightarrow> (int \<times> hicn_packet_buffer) option" where
  "new_set_type type pk =
     (if type = HICN_PACKET_TYPE_INTEREST then do {
        pk \<leftarrow> pk_update8 (pkbuf_get_new pk + NEW_FLAGS) (\<lambda>f. f OR HICN_NEW_FLAG_INT) pk;
        Some (HICN_LIB_ERROR_NONE, pk) }
      else if type = HICN_PACKET_TYPE_DATA then do {
        pk \<leftarrow> pk_update8 (pkbuf_get_new pk + NEW_FLAGS) (\<lambda>f. f AND NOT HICN_NEW_FLAG_INT) pk;
        Some (HICN_LIB_ERROR_NONE, pk) }
      else Some (- 1, pk))"

definition icmp_get_type :: "u32 \<Rightarrow> hicn_packet_buffer \<Rightarrow> (int \<times> u32) option" where
  "icmp_get_type old pk = Some (HICN_LIB_ERROR_NONE, HICN_PACKET_TYPE_MAPME)"

definition get_type_ops :: "(u32, int \<times> u32) ops" where
  "get_type_ops p pos child old pk = (case p of
       P_IPV4 \<Rightarrow> child old pk | P_IPV6 \<Rightarrow> child old pk | P_UDP \<Rightarrow> child old pk
     | P_TCP \<Rightarrow> tcp_get_type old pk | P_NEW \<Rightarrow> new_get_type old pk | P_ICMP \<Rightarrow> icmp_get_type old pk
     | P_AH \<Rightarrow> Some (HICN_LIB_ERROR_UNEXPECTED, old) | P_NONE \<Rightarrow> Some (HICN_LIB_ERROR_NONE, old))"

definition set_type_ops :: "(u32, int \<times> hicn_packet_buffer) ops" where
  "set_type_ops p pos child type pk = (case p of
       P_IPV4 \<Rightarrow> child type pk | P_IPV6 \<Rightarrow> child type pk | P_UDP \<Rightarrow> child type pk | P_ICMP \<Rightarrow> child type pk
     | P_TCP \<Rightarrow> tcp_set_type type pk | P_NEW \<Rightarrow> new_set_type type pk
     | P_AH \<Rightarrow> Some (HICN_LIB_ERROR_UNEXPECTED, pk) | P_NONE \<Rightarrow> Some (HICN_LIB_ERROR_NONE, pk))"

text \<open>The debug assertion on the type in the operations of the new header.\<close>

definition new_assert_type :: "u32 \<Rightarrow> hicn_packet_buffer \<Rightarrow> unit option" where
  "new_assert_type type pk = do { (rc, t) \<leftarrow> new_get_type 0 pk; assert_that (rc = 0 \<and> t = type) }"

section \<open>Names\<close>

definition tcp_get_interest_name_suffix :: "u32 \<Rightarrow> hicn_packet_buffer \<Rightarrow> (int \<times> u32) option" where
  "tcp_get_interest_name_suffix old pk = do {
     s \<leftarrow> ntoh 4 (pkbuf_get_tcp pk + TCP_SUFFIX) pk; Some (HICN_LIB_ERROR_NONE, s) }"

definition tcp_set_interest_name_suffix :: "u32 \<Rightarrow> hicn_packet_buffer \<Rightarrow> (int \<times> hicn_packet_buffer) option" where
  "tcp_set_interest_name_suffix suf pk = do {
     r \<leftarrow> tcp_set_type HICN_PACKET_TYPE_INTEREST pk;
     check_error r (\<lambda>pk. do {
       pk \<leftarrow> hton 4 (pkbuf_get_tcp pk + TCP_SUFFIX) suf pk;
       Some (HICN_LIB_ERROR_NONE, pk) }) }"

definition tcp_get_data_name_suffix :: "u32 \<Rightarrow> hicn_packet_buffer \<Rightarrow> (int \<times> u32) option" where
  "tcp_get_data_name_suffix old pk = do {
     s \<leftarrow> ntoh 4 (pkbuf_get_tcp pk + TCP_SUFFIX) pk; Some (HICN_LIB_ERROR_NONE, s) }"

definition tcp_set_data_name_suffix :: "u32 \<Rightarrow> hicn_packet_buffer \<Rightarrow> (int \<times> hicn_packet_buffer) option" where
  "tcp_set_data_name_suffix suf pk = do {
     r \<leftarrow> tcp_set_type HICN_PACKET_TYPE_DATA pk;
     check_error r (\<lambda>pk. do {
       pk \<leftarrow> hton 4 (pkbuf_get_tcp pk + TCP_SUFFIX) suf pk;
       Some (HICN_LIB_ERROR_NONE, pk) }) }"

definition new_get_interest_name_suffix :: "u32 \<Rightarrow> hicn_packet_buffer \<Rightarrow> (int \<times> u32) option" where
  "new_get_interest_name_suffix old pk = do {
     new_assert_type HICN_PACKET_TYPE_INTEREST pk;
     s \<leftarrow> ntoh 4 (pkbuf_get_new pk + NEW_SUFFIX) pk; Some (HICN_LIB_ERROR_NONE, s) }"

definition new_set_interest_name_suffix :: "u32 \<Rightarrow> hicn_packet_buffer \<Rightarrow> (int \<times> hicn_packet_buffer) option" where
  "new_set_interest_name_suffix suf pk = do {
     new_assert_type HICN_PACKET_TYPE_INTEREST pk;
     pk \<leftarrow> hton 4 (pkbuf_get_new pk + NEW_SUFFIX) suf pk; Some (HICN_LIB_ERROR_NONE, pk) }"

definition new_get_data_name_suffix :: "u32 \<Rightarrow> hicn_packet_buffer \<Rightarrow> (int \<times> u32) option" where
  "new_get_data_name_suffix old pk = do {
     new_assert_type HICN_PACKET_TYPE_DATA pk;
     s \<leftarrow> ntoh 4 (pkbuf_get_new pk + NEW_SUFFIX) pk; Some (HICN_LIB_ERROR_NONE, s) }"

definition new_set_data_name_suffix :: "u32 \<Rightarrow> hicn_packet_buffer \<Rightarrow> (int \<times> hicn_packet_buffer) option" where
  "new_set_data_name_suffix suf pk = do {
     new_assert_type HICN_PACKET_TYPE_DATA pk;
     pk \<leftarrow> hton 4 (pkbuf_get_new pk + NEW_SUFFIX) suf pk; Some (HICN_LIB_ERROR_NONE, pk) }"

text \<open>The rows of a getter and of a setter that the IP and UDP layers pass on and
  ICMP and AH refuse, given the entries of TCP and of the new header.\<close>

definition getter_ops :: "('v \<Rightarrow> hicn_packet_buffer \<Rightarrow> (int \<times> 'v) option) \<Rightarrow>
    ('v \<Rightarrow> hicn_packet_buffer \<Rightarrow> (int \<times> 'v) option) \<Rightarrow> ('v, int \<times> 'v) ops" where
  "getter_ops tcp new p pos child old pk = (case p of
       P_IPV4 \<Rightarrow> child old pk | P_IPV6 \<Rightarrow> child old pk | P_UDP \<Rightarrow> child old pk
     | P_TCP \<Rightarrow> tcp old pk | P_NEW \<Rightarrow> new old pk
     | P_ICMP \<Rightarrow> Some (HICN_LIB_ERROR_UNEXPECTED, old) | P_AH \<Rightarrow> Some (HICN_LIB_ERROR_UNEXPECTED, old)
     | P_NONE \<Rightarrow> Some (HICN_LIB_ERROR_NONE, old))"

definition setter_ops :: "('v \<Rightarrow> hicn_packet_buffer \<Rightarrow> (int \<times> hicn_packet_buffer) option) \<Rightarrow>
    ('v \<Rightarrow> hicn_packet_buffer \<Rightarrow> (int \<times> hicn_packet_buffer) option) \<Rightarrow> ('v, int \<times> hicn_packet_buffer) ops" where
  "setter_ops tcp new p pos child v pk = (case p of
       P_IPV4 \<Rightarrow> child v pk | P_IPV6 \<Rightarrow> child v pk | P_UDP \<Rightarrow> child v pk
     | P_TCP \<Rightarrow> tcp v pk | P_NEW \<Rightarrow> new v pk
     | P_ICMP \<Rightarrow> Some (HICN_LIB_ERROR_UNEXPECTED, pk) | P_AH \<Rightarrow> Some (HICN_LIB_ERROR_UNEXPECTED, pk)
     | P_NONE \<Rightarrow> Some (HICN_LIB_ERROR_NONE, pk))"

definition get_interest_name_suffix_ops :: "(u32, int \<times> u32) ops" where
  "get_interest_name_suffix_ops = getter_ops tcp_get_interest_name_suffix new_get_interest_name_suffix"

definition set_interest_name_suffix_ops :: "(u32, int \<times> hicn_packet_buffer) ops" where
  "set_interest_name_suffix_ops = setter_ops tcp_set_interest_name_suffix new_set_interest_name_suffix"

definition get_data_name_suffix_ops :: "(u32, int \<times> u32) ops" where
  "get_data_name_suffix_ops = getter_ops tcp_get_data_name_suffix new_get_data_name_suffix"

definition set_data_name_suffix_ops :: "(u32, int \<times> hicn_packet_buffer) ops" where
  "set_data_name_suffix_ops = setter_ops tcp_set_data_name_suffix new_set_data_name_suffix"

text \<open>The IP layers take the prefix of the name from an address of their own and
  the suffix from the layer below.\<close>

definition ipv4_get_name :: "nat \<Rightarrow> (u32, int \<times> u32) ops \<Rightarrow> nat \<Rightarrow> hicn_name \<Rightarrow> hicn_packet_buffer \<Rightarrow> (int \<times> hicn_name) option" where
  "ipv4_get_name off suffix_ops pos name pk = do {
     a \<leftarrow> pk_load 4 off pk;
     let name = name\<lparr>name_prefix := set_v4 (name_prefix name) a\<rparr>;
     (rc, s) \<leftarrow> call_from suffix_ops (3 - pos) (name_suffix name) pk;
     Some (rc, name\<lparr>name_suffix := s\<rparr>) }"

definition ipv4_set_name :: "nat \<Rightarrow> (u32, int \<times> hicn_packet_buffer) ops \<Rightarrow> nat \<Rightarrow> hicn_name \<Rightarrow> hicn_packet_buffer \<Rightarrow> (int \<times> hicn_packet_buffer) option" where
  "ipv4_set_name off suffix_ops pos name pk = do {
     pk \<leftarrow> pk_store 4 off (v4_as_u32 (name_prefix name)) pk;
     call_from suffix_ops (3 - pos) (name_suffix name) pk }"

definition ipv6_get_name :: "nat \<Rightarrow> (u32, int \<times> u32) ops \<Rightarrow> nat \<Rightarrow> hicn_name \<Rightarrow> hicn_packet_buffer \<Rightarrow> (int \<times> hicn_name) option" where
  "ipv6_get_name off suffix_ops pos name pk = do {
     a \<leftarrow> pk_load_address off pk;
     (rc, s) \<leftarrow> call_from suffix_ops (3 - pos) (name_suffix name) pk;
     Some (rc, name\<lparr>name_prefix := a, name_suffix := s\<rparr>) }"

definition ipv6_set_name :: "nat \<Rightarrow> (u32, int \<times> hicn_packet_buffer) ops \<Rightarrow> nat \<Rightarrow> hicn_name \<Rightarrow> hicn_packet_buffer \<Rightarrow> (int \<times> hicn_packet_buffer) option" where
  "ipv6_set_name off suffix_ops pos name pk = do {
     pk \<leftarrow> pk_store_address off (name_prefix name) pk;
     call_from suffix_ops (3 - pos) (name_suffix name) pk }"

definition ipv4_get_interest_name :: "nat \<Rightarrow> hicn_name \<Rightarrow> hicn_packet_buffer \<Rightarrow> (int \<times> hicn_name) option" where
  "ipv4_get_interest_name = ipv4_get_name IPV4_DADDR get_interest_name_suffix_ops"

definition ipv4_set_interest_name :: "nat \<Rightarrow> hicn_name \<Rightarrow> hicn_packet_buffer \<Rightarrow> (int \<times> hicn_packet_buffer) option" where
  "ipv4_set_interest_name = ipv4_set_name IPV4_DADDR set_interest_name_suffix_ops"

definition ipv4_get_data_name :: "nat \<Rightarrow> hicn_name \<Rightarrow> hicn_packet_buffer \<Rightarrow> (int \<times> hicn_name) option" where
  "ipv4_get_data_name = ipv4_get_name IPV4_SADDR get_data_name_suffix_ops"

definition ipv4_set_data_name :: "nat \<Rightarrow> hicn_name \<Rightarrow> hicn_packet_buffer \<Rightarrow> (int \<times> hicn_packet_buffer) option" where
  "ipv4_set_data_name = ipv4_set_name IPV4_SADDR set_data_name_suffix_ops"

definition ipv6_get_interest_name :: "nat \<Rightarrow> hicn_name \<Rightarrow> hicn_packet_buffer \<Rightarrow> (int \<times> hicn_name) option" where
  "ipv6_get_interest_name = ipv6_get_name IPV6_DADDR get_interest_name_suffix_ops"

definition ipv6_set_interest_name :: "nat \<Rightarrow> hicn_name \<Rightarrow> hicn_packet_buffer \<Rightarrow> (int \<times> hicn_packet_buffer) option" where
  "ipv6_set_interest_name = ipv6_set_name IPV6_DADDR set_interest_name_suffix_ops"

definition ipv6_get_data_name :: "nat \<Rightarrow> hicn_name \<Rightarrow> hicn_packet_buffer \<Rightarrow> (int \<times> hicn_name) option" where
  "ipv6_get_data_name = ipv6_get_name IPV6_SADDR get_data_name_suffix_ops"

definition ipv6_set_data_name :: "nat \<Rightarrow> hicn_name \<Rightarrow> hicn_packet_buffer \<Rightarrow> (int \<times> hicn_packet_buffer) option" where
  "ipv6_set_data_name = ipv6_set_name IPV6_SADDR set_data_name_suffix_ops"

definition new_get_interest_name :: "hicn_name \<Rightarrow> hicn_packet_buffer \<Rightarrow> (int \<times> hicn_name) option" where
  "new_get_interest_name name pk = do {
     new_assert_type HICN_PACKET_TYPE_INTEREST pk;
     a \<leftarrow> pk_load_address (pkbuf_get_new pk + NEW_PREFIX) pk;
     s \<leftarrow> ntoh 4 (pkbuf_get_new pk + NEW_SUFFIX) pk;
     Some (HICN_LIB_ERROR_NONE, name\<lparr>name_prefix := a, name_suffix := s\<rparr>) }"

definition new_set_interest_name :: "hicn_name \<Rightarrow> hicn_packet_buffer \<Rightarrow> (int \<times> hicn_packet_buffer) option" where
  "new_set_interest_name name pk = do {
     r \<leftarrow> new_set_type HICN_PACKET_TYPE_INTEREST pk;
     check_error r (\<lambda>pk. do {
       new_assert_type HICN_PACKET_TYPE_INTEREST pk;
       pk \<leftarrow> pk_store_address (pkbuf_get_new pk + NEW_PREFIX) (name_prefix name) pk;
       pk \<leftarrow> hton 4 (pkbuf_get_new pk + NEW_SUFFIX) (name_suffix name) pk;
       Some (HICN_LIB_ERROR_NONE, pk) }) }"

definition new_get_data_name :: "hicn_name \<Rightarrow> hicn_packet_buffer \<Rightarrow> (int \<times> hicn_name) option" where
  "new_get_data_name name pk = do {
     new_assert_type HICN_PACKET_TYPE_DATA pk;
     a \<leftarrow> pk_load_address (pkbuf_get_new pk + NEW_PREFIX) pk;
     s \<leftarrow> ntoh 4 (pkbuf_get_new pk + NEW_SUFFIX) pk;
     Some (HICN_LIB_ERROR_NONE, name\<lparr>name_prefix := a, name_suffix := s\<rparr>) }"

definition new_set_data_name :: "hicn_name \<Rightarrow> hicn_packet_buffer \<Rightarrow> (int \<times> hicn_packet_buffer) option" where
  "new_set_data_name name pk = do {
     r \<leftarrow> new_set_type HICN_PACKET_TYPE_DATA pk;
     check_error r (\<lambda>pk. do {
       new_assert_type HICN_PACKET_TYPE_DATA pk;
       pk \<leftarrow> pk_store_address (pkbuf_get_new pk + NEW_PREFIX) (name_prefix name) pk;
       pk \<leftarrow> hton 4 (pkbuf_get_new pk + NEW_SUFFIX) (name_suffix name) pk;
       Some (HICN_LIB_ERROR_NONE, pk) }) }"

text \<open>Whole names and locators are refused below the IP layer, but by the new
  header.\<close>

definition name_getter_ops :: "(nat \<Rightarrow> 'v \<Rightarrow> hicn_packet_buffer \<Rightarrow> (int \<times> 'v) option) \<Rightarrow>
    (nat \<Rightarrow> 'v \<Rightarrow> hicn_packet_buffer \<Rightarrow> (int \<times> 'v) option) \<Rightarrow>
    ('v \<Rightarrow> hicn_packet_buffer \<Rightarrow> (int \<times> 'v) option) \<Rightarrow> ('v, int \<times> 'v) ops" where
  "name_getter_ops ipv4 ipv6 new p pos child old pk = (case p of
       P_IPV4 \<Rightarrow> ipv4 pos old pk | P_IPV6 \<Rightarrow> ipv6 pos old pk | P_NEW \<Rightarrow> new old pk
     | P_NONE \<Rightarrow> Some (HICN_LIB_ERROR_NONE, old) | _ \<Rightarrow> Some (HICN_LIB_ERROR_UNEXPECTED, old))"

definition name_setter_ops :: "(nat \<Rightarrow> 'v \<Rightarrow> hicn_packet_buffer \<Rightarrow> (int \<times> hicn_packet_buffer) option) \<Rightarrow>
    (nat \<Rightarrow> 'v \<Rightarrow> hicn_packet_buffer \<Rightarrow> (int \<times> hicn_packet_buffer) option) \<Rightarrow>
    ('v \<Rightarrow> hicn_packet_buffer \<Rightarrow> (int \<times> hicn_packet_buffer) option) \<Rightarrow> ('v, int \<times> hicn_packet_buffer) ops" where
  "name_setter_ops ipv4 ipv6 new p pos child v pk = (case p of
       P_IPV4 \<Rightarrow> ipv4 pos v pk | P_IPV6 \<Rightarrow> ipv6 pos v pk | P_NEW \<Rightarrow> new v pk
     | P_NONE \<Rightarrow> Some (HICN_LIB_ERROR_NONE, pk) | _ \<Rightarrow> Some (HICN_LIB_ERROR_UNEXPECTED, pk))"

definition get_interest_name_ops :: "(hicn_name, int \<times> hicn_name) ops" where
  "get_interest_name_ops = name_getter_ops ipv4_get_interest_name ipv6_get_interest_name new_get_interest_name"

definition set_interest_name_ops :: "(hicn_name, int \<times> hicn_packet_buffer) ops" where
  "set_interest_name_ops = name_setter_ops ipv4_set_interest_name ipv6_set_interest_name new_set_interest_name"

definition get_data_name_ops :: "(hicn_name, int \<times> hicn_name) ops" where
  "get_data_name_ops = name_getter_ops ipv4_get_data_name ipv6_get_data_name new_get_data_name"

definition set_data_name_ops :: "(hicn_name, int \<times> hicn_packet_buffer) ops" where
  "set_data_name_ops = name_setter_ops ipv4_set_data_name ipv6_set_data_name new_set_data_name"

section \<open>Locators\<close>

definition ipv4_get_interest_locator :: "nat \<Rightarrow> hicn_ip_address \<Rightarrow> hicn_packet_buffer \<Rightarrow> (int \<times> hicn_ip_address) option" where
  "ipv4_get_interest_locator pos a pk = do {
     v \<leftarrow> pk_load 4 IPV4_SADDR pk; Some (HICN_LIB_ERROR_NONE, set_v4 a v) }"

definition ipv4_set_interest_locator :: "nat \<Rightarrow> hicn_ip_address \<Rightarrow> hicn_packet_buffer \<Rightarrow> (int \<times> hicn_packet_buffer) option" where
  "ipv4_set_interest_locator pos a pk = do {
     pk \<leftarrow> pk_store 4 IPV4_SADDR (v4_as_u32 a) pk; Some (HICN_LIB_ERROR_NONE, pk) }"

definition ipv4_get_data_locator :: "nat \<Rightarrow> hicn_ip_address \<Rightarrow> hicn_packet_buffer \<Rightarrow> (int \<times> hicn_ip_address) option" where
  "ipv4_get_data_locator pos a pk = do {
     v \<leftarrow> pk_load 4 IPV4_DADDR pk; Some (HICN_LIB_ERROR_NONE, set_v4 a v) }"

definition ipv4_set_data_locator :: "nat \<Rightarrow> hicn_ip_address \<Rightarrow> hicn_packet_buffer \<Rightarrow> (int \<times> hicn_packet_buffer) option" where
  "ipv4_set_data_locator pos a pk = do {
     pk \<leftarrow> pk_store 4 IPV4_DADDR (v4_as_u32 a) pk; Some (HICN_LIB_ERROR_NONE, pk) }"

definition ipv6_get_interest_locator :: "nat \<Rightarrow> hicn_ip_address \<Rightarrow> hicn_packet_buffer \<Rightarrow> (int \<times> hicn_ip_address) option" where
  "ipv6_get_interest_locator pos a pk = do {
     a \<leftarrow> pk_load_address IPV6_SADDR pk; Some (HICN_LIB_ERROR_NONE, a) }"

definition ipv6_set_interest_locator :: "nat \<Rightarrow> hicn_ip_address \<Rightarrow> hicn_packet_buffer \<Rightarrow> (int \<times> hicn_packet_buffer) option" where
  "ipv6_set_interest_locator pos a pk = do {
     pk \<leftarrow> pk_store_address IPV6_SADDR a pk; Some (HICN_LIB_ERROR_NONE, pk) }"

definition ipv6_get_data_locator :: "nat \<Rightarrow> hicn_ip_address \<Rightarrow> hicn_packet_buffer \<Rightarrow> (int \<times> hicn_ip_address) option" where
  "ipv6_get_data_locator pos a pk = do {
     a \<leftarrow> pk_load_address IPV6_DADDR pk; Some (HICN_LIB_ERROR_NONE, a) }"

definition ipv6_set_data_locator :: "nat \<Rightarrow> hicn_ip_address \<Rightarrow> hicn_packet_buffer \<Rightarrow> (int \<times> hicn_packet_buffer) option" where
  "ipv6_set_data_locator pos a pk = do {
     pk \<leftarrow> pk_store_address IPV6_DADDR a pk; Some (HICN_LIB_ERROR_NONE, pk) }"

text \<open>The new header has no locator; \<open>new_get_data_locator\<close> asserts that the
  packet is an Interest.\<close>

definition new_get_interest_locator :: "hicn_ip_address \<Rightarrow> hicn_packet_buffer \<Rightarrow> (int \<times> hicn_ip_address) option" where
  "new_get_interest_locator a pk = do {
     new_assert_type HICN_PACKET_TYPE_INTEREST pk; Some (HICN_LIB_ERROR_NONE, a) }"

definition new_set_interest_locator :: "hicn_ip_address \<Rightarrow> hicn_packet_buffer \<Rightarrow> (int \<times> hicn_packet_buffer) option" where
  "new_set_interest_locator a pk = do {
     new_assert_type HICN_PACKET_TYPE_INTEREST pk; Some (HICN_LIB_ERROR_NONE, pk) }"

definition new_get_data_locator :: "hicn_ip_address \<Rightarrow> hicn_packet_buffer \<Rightarrow> (int \<times> hicn_ip_address) option" where
  "new_get_data_locator a pk = do {
     new_assert_type HICN_PACKET_TYPE_INTEREST pk; Some (HICN_LIB_ERROR_NONE, a) }"

definition new_set_data_locator :: "hicn_ip_address \<Rightarrow> hicn_packet_buffer \<Rightarrow> (int \<times> hicn_packet_buffer) option" where
  "new_set_data_locator a pk = do {
     new_assert_type HICN_PACKET_TYPE_DATA pk; Some (HICN_LIB_ERROR_NONE, pk) }"

definition get_interest_locator_ops :: "(hicn_ip_address, int \<times> hicn_ip_address) ops" where
  "get_interest_locator_ops = name_getter_ops ipv4_get_interest_locator ipv6_get_interest_locator new_get_interest_locator"

definition set_interest_locator_ops :: "(hicn_ip_address, int \<times> hicn_packet_buffer) ops" where
  "set_interest_locator_ops = name_setter_ops ipv4_set_interest_locator ipv6_set_interest_locator new_set_interest_locator"

definition get_data_locator_ops :: "(hicn_ip_address, int \<times> hicn_ip_address) ops" where
  "get_data_locator_ops = name_getter_ops ipv4_get_data_locator ipv6_get_data_locator new_get_data_locator"

definition set_data_locator_ops :: "(hicn_ip_address, int \<times> hicn_packet_buffer) ops" where
  "set_data_locator_ops = name_setter_ops ipv4_set_data_locator ipv6_set_data_locator new_set_data_locator"

lemma unat_shr: "unat (drop_bit n w) = unat w div 2 ^ n"
  by (subst unat_drop_bit_eq) (rule drop_bit_eq_div)

section \<open>Lifetime\<close>

definition HICN_MAX_LIFETIME_SCALED :: u32 where [simp]: "HICN_MAX_LIFETIME_SCALED = 0xFFFF"
definition HICN_MAX_LIFETIME_MULTIPLIER :: u8 where [simp]: "HICN_MAX_LIFETIME_MULTIPLIER = 0x0F"
definition HICN_MAX_LIFETIME :: u32 where "HICN_MAX_LIFETIME = push_bit 15 0xFFFF"

definition tcp_get_lifetime :: "u32 \<Rightarrow> hicn_packet_buffer \<Rightarrow> (int \<times> u32) option" where
  "tcp_get_lifetime old pk = do {
     (urg_ptr :: u16) \<leftarrow> ntoh 2 (pkbuf_get_tcp pk + TCP_URG_PTR) pk;
     (doff :: u8) \<leftarrow> pk_load 1 (pkbuf_get_tcp pk + TCP_DATA_OFFSET) pk;
     Some (HICN_LIB_ERROR_NONE, push_bit (unat (doff AND 0xF)) (ucast urg_ptr)) }"

text \<open>The loop of \<open>tcp_set_lifetime\<close>: halve until the value fits 16 bits.\<close>

function scale_lifetime :: "u32 \<Rightarrow> u8 \<Rightarrow> u32 \<times> u8" where
  "scale_lifetime lifetime_scaled multiplier =
     (if lifetime_scaled > HICN_MAX_LIFETIME_SCALED \<and> multiplier \<le> HICN_MAX_LIFETIME_MULTIPLIER
      then scale_lifetime (drop_bit 1 lifetime_scaled) (multiplier + 1)
      else (lifetime_scaled, multiplier))"
  by auto

termination
  by (relation "measure (\<lambda>(l, m). unat l)") (auto simp: unat_shr word_less_nat_alt)

declare scale_lifetime.simps [simp del]

definition tcp_set_lifetime :: "u32 \<Rightarrow> hicn_packet_buffer \<Rightarrow> (int \<times> hicn_packet_buffer) option" where
  "tcp_set_lifetime lifetime pk =
     (if lifetime \<ge> HICN_MAX_LIFETIME then do {
        pk \<leftarrow> hton 2 (pkbuf_get_tcp pk + TCP_URG_PTR) (ucast HICN_MAX_LIFETIME_SCALED :: u16) pk;
        pk \<leftarrow> pk_update8 (pkbuf_get_tcp pk + TCP_DATA_OFFSET) (\<lambda>d. (d AND NOT 0x0F) OR HICN_MAX_LIFETIME_MULTIPLIER) pk;
        Some (HICN_LIB_ERROR_NONE, pk) }
      else do {
        let (lifetime_scaled, multiplier) = scale_lifetime lifetime 0;
        pk \<leftarrow> hton 2 (pkbuf_get_tcp pk + TCP_URG_PTR) (ucast lifetime_scaled :: u16) pk;
        pk \<leftarrow> pk_update8 (pkbuf_get_tcp pk + TCP_DATA_OFFSET) (\<lambda>d. (d AND NOT 0x0F) OR multiplier) pk;
        Some (HICN_LIB_ERROR_NONE, pk) })"

definition new_get_lifetime :: "u32 \<Rightarrow> hicn_packet_buffer \<Rightarrow> (int \<times> u32) option" where
  "new_get_lifetime old pk = do {
     l \<leftarrow> ntoh 4 (pkbuf_get_new pk + NEW_LIFETIME) pk; Some (HICN_LIB_ERROR_NONE, l) }"

definition new_set_lifetime :: "u32 \<Rightarrow> hicn_packet_buffer \<Rightarrow> (int \<times> hicn_packet_buffer) option" where
  "new_set_lifetime lifetime pk = do {
     pk \<leftarrow> hton 4 (pkbuf_get_new pk + NEW_LIFETIME) lifetime pk; Some (HICN_LIB_ERROR_NONE, pk) }"

definition get_lifetime_ops :: "(u32, int \<times> u32) ops" where
  "get_lifetime_ops = getter_ops tcp_get_lifetime new_get_lifetime"

definition set_lifetime_ops :: "(u32, int \<times> hicn_packet_buffer) ops" where
  "set_lifetime_ops = setter_ops tcp_set_lifetime new_set_lifetime"

section \<open>Checksums\<close>

text \<open>\<open>csum\<close> of \<open>common.h\<close>: a sum of 16-bit words in 32 bits, folded twice.\<close>

fun csum_sum :: "u8 list \<Rightarrow> u32 \<Rightarrow> u32" where
  "csum_sum [] acc = acc"
| "csum_sum [b] acc = acc + ucast b"
| "csum_sum (b # c # bs) acc = csum_sum bs (acc + (ucast b OR push_bit 8 (ucast c)))"

definition csum :: "u8 list \<Rightarrow> u16 \<Rightarrow> u16" where
  "csum bytes init = (let s = csum_sum bytes (ucast init);
       s = drop_bit 16 s + (s AND 0xFFFF);
       s = s + drop_bit 16 s
     in ucast (NOT s))"

lemma fold_carry_less:
  assumes "drop_bit 16 (s :: u32) \<noteq> 0"
  shows "unat (drop_bit 16 s + (s AND 0xFFFF)) < unat s"
proof -
  have lo: "s AND 0xFFFF = take_bit 16 s" by (simp add: take_bit_eq_mask mask_eq_exp_minus_1)
  have q: "unat (drop_bit 16 s) = unat s div 65536" by (simp add: unat_shr)
  have r: "unat (s AND 0xFFFF) = unat s mod 65536" unfolding lo unsigned_take_bit_eq by (simp add: take_bit_eq_mod)
  have n: "unat s = 65536 * (unat s div 65536) + unat s mod 65536" by simp
  have "unat s < 2 ^ LENGTH(32)" by (rule unsigned_less)
  then have "unat s < 2 ^ 32" by simp
  then have "unat s div 65536 + unat s mod 65536 < 2 ^ 32" using n by linarith
  then have "unat (drop_bit 16 s + (s AND 0xFFFF)) = unat s div 65536 + unat s mod 65536"
    using q r by (simp add: unat_word_ariths)
  moreover have "unat s div 65536 \<noteq> 0" using assms q by (metis unat_eq_zero)
  ultimately show ?thesis using n by linarith
qed

function fold_carry :: "u32 \<Rightarrow> u32" where
  "fold_carry s = (if drop_bit 16 s \<noteq> 0 then fold_carry (drop_bit 16 s + (s AND 0xFFFF)) else s)"
  by auto

termination
  by (relation "measure unat") (auto intro: fold_carry_less)

declare fold_carry.simps [simp del]

text \<open>One round of an incremental update, RFC 1624: replace \<open>m\<close> by \<open>m'\<close>.\<close>

definition csum_replace :: "u16 \<Rightarrow> u16 \<Rightarrow> u16 \<Rightarrow> u16" where
  "csum_replace c m m' = ucast (NOT (fold_carry (ucast (NOT c) + ucast (NOT m) + ucast m')))"

definition check_tcp_checksum :: "u16 \<Rightarrow> int" where
  "check_tcp_checksum c = (if c = 0xFFFF then HICN_LIB_ERROR_REWRITE_CKSUM_REQUIRED else HICN_LIB_ERROR_NONE)"

definition pk_csum :: "nat \<Rightarrow> u16 \<Rightarrow> hicn_packet_buffer \<Rightarrow> u16 option" where
  "pk_csum n init pk = map_option (\<lambda>bs. csum bs init) (load (pk_bytes pk) 0 n)"

definition negate_partial :: "u16 \<Rightarrow> u16" where
  "negate_partial partial_csum = (if partial_csum \<noteq> 0 then NOT partial_csum else partial_csum)"

text \<open>A \<open>size_t\<close> of \<open>~0\<close>.\<close>

definition SIZE_ALL :: u64 where "SIZE_ALL = NOT 0"

definition ipv4_get_payload_len :: "hicn_packet_buffer \<Rightarrow> u64 option" where
  "ipv4_get_payload_len pk = do {
     (len :: u16) \<leftarrow> pk_load 2 IPV4_LEN pk;
     Some (ucast (bswap 2 (len - pk_payload pk))) }"

definition ipv4_pseudo_header :: "hicn_packet_buffer \<Rightarrow> u8 list option" where
  "ipv4_pseudo_header pk = do {
     src \<leftarrow> load (pk_bytes pk) IPV4_SADDR 4;
     dst \<leftarrow> load (pk_bytes pk) IPV4_DADDR 4;
     (len :: u16) \<leftarrow> ntoh 2 IPV4_LEN pk;
     (protocol :: u8) \<leftarrow> pk_load 1 IPV4_PROTOCOL pk;
     Some (src @ dst @ [0, protocol] @ word_bytes 2 (bswap 2 (len - of_nat IPV4_HDRLEN))) }"

definition ipv6_pseudo_header :: "hicn_packet_buffer \<Rightarrow> u8 list option" where
  "ipv6_pseudo_header pk = do {
     src \<leftarrow> load (pk_bytes pk) IPV6_SADDR 16;
     dst \<leftarrow> load (pk_bytes pk) IPV6_DADDR 16;
     (len :: u16) \<leftarrow> ntoh 2 IPV6_LEN pk;
     (nxt :: u8) \<leftarrow> pk_load 1 IPV6_NXT pk;
     Some (src @ dst @ word_bytes 4 (bswap 4 (ucast len :: u32)) @ [0, 0, 0, nxt]) }"

type_synonym csum_args = "u16 \<times> u64"

definition ipv4_update_checksums :: "(csum_args \<Rightarrow> hicn_packet_buffer \<Rightarrow> (int \<times> hicn_packet_buffer) option) \<Rightarrow>
    csum_args \<Rightarrow> hicn_packet_buffer \<Rightarrow> (int \<times> hicn_packet_buffer) option" where
  "ipv4_update_checksums child args pk = do {
     let (partial_csum, payload_len) = args;
     pk \<leftarrow> pk_store 2 IPV4_CSUM (0 :: u16) pk;
     c \<leftarrow> pk_csum IPV4_HDRLEN 0 pk;
     pk \<leftarrow> pk_store 2 IPV4_CSUM c pk;
     payload_len \<leftarrow> (if payload_len = 0 then ipv4_get_payload_len pk else Some payload_len);
     let payload_len = (if payload_len = SIZE_ALL then 0 else payload_len);
     psh \<leftarrow> ipv4_pseudo_header pk;
     child (csum psh (negate_partial partial_csum), payload_len) pk }"

definition ipv6_update_checksums :: "(csum_args \<Rightarrow> hicn_packet_buffer \<Rightarrow> (int \<times> hicn_packet_buffer) option) \<Rightarrow>
    csum_args \<Rightarrow> hicn_packet_buffer \<Rightarrow> (int \<times> hicn_packet_buffer) option" where
  "ipv6_update_checksums child args pk = do {
     let (partial_csum, payload_len) = args;
     let payload_len = (if payload_len = SIZE_ALL then ucast (pk_len pk) - ucast (pk_payload pk) else payload_len);
     psh \<leftarrow> ipv6_pseudo_header pk;
     child (csum psh (negate_partial partial_csum), payload_len) pk }"

text \<open>The TCP checksum runs over the packet from its first byte.\<close>

definition tcp_update_checksums :: "(csum_args \<Rightarrow> hicn_packet_buffer \<Rightarrow> (int \<times> hicn_packet_buffer) option) \<Rightarrow>
    csum_args \<Rightarrow> hicn_packet_buffer \<Rightarrow> (int \<times> hicn_packet_buffer) option" where
  "tcp_update_checksums child args pk = do {
     let (partial_csum, payload_len) = args;
     assert_that (payload_len \<noteq> SIZE_ALL);
     pk \<leftarrow> pk_store 2 (pkbuf_get_tcp pk + TCP_CSUM) (0 :: u16) pk;
     c \<leftarrow> pk_csum (unat (of_nat TCP_HDRLEN + payload_len)) (negate_partial partial_csum) pk;
     pk \<leftarrow> pk_store 2 (pkbuf_get_tcp pk + TCP_CSUM) c pk;
     child (0, payload_len) pk }"

definition update_checksums_ops :: "(csum_args, int \<times> hicn_packet_buffer) ops" where
  "update_checksums_ops p pos child args pk = (case p of
       P_IPV4 \<Rightarrow> ipv4_update_checksums child args pk | P_IPV6 \<Rightarrow> ipv6_update_checksums child args pk
     | P_TCP \<Rightarrow> tcp_update_checksums child args pk | P_UDP \<Rightarrow> child args pk
     | P_ICMP \<Rightarrow> Some (HICN_LIB_ERROR_NOT_IMPLEMENTED, pk)
     | P_AH \<Rightarrow> Some (HICN_LIB_ERROR_NONE, pk) | P_NEW \<Rightarrow> Some (HICN_LIB_ERROR_NONE, pk)
     | P_NONE \<Rightarrow> Some (HICN_LIB_ERROR_NONE, pk))"

definition ipv4_verify_checksums :: "(csum_args \<Rightarrow> hicn_packet_buffer \<Rightarrow> int option) \<Rightarrow>
    csum_args \<Rightarrow> hicn_packet_buffer \<Rightarrow> int option" where
  "ipv4_verify_checksums child args pk = do {
     let (partial_csum, payload_len) = args;
     c \<leftarrow> pk_csum IPV4_HDRLEN 0 pk;
     if c \<noteq> 0 then Some HICN_LIB_ERROR_CORRUPTED_PACKET
     else do {
       payload_len \<leftarrow> (if payload_len = 0 then ipv4_get_payload_len pk else Some payload_len);
       psh \<leftarrow> ipv4_pseudo_header pk;
       child (csum psh 0, payload_len) pk } }"

definition ipv6_verify_checksums :: "(csum_args \<Rightarrow> hicn_packet_buffer \<Rightarrow> int option) \<Rightarrow>
    csum_args \<Rightarrow> hicn_packet_buffer \<Rightarrow> int option" where
  "ipv6_verify_checksums child args pk = do {
     let (partial_csum, payload_len) = args;
     let payload_len = (if payload_len = SIZE_ALL then ucast (pk_len pk) - ucast (pk_payload pk) else payload_len);
     psh \<leftarrow> ipv6_pseudo_header pk;
     child (csum psh (negate_partial partial_csum), payload_len) pk }"

definition tcp_verify_checksums :: "(csum_args \<Rightarrow> hicn_packet_buffer \<Rightarrow> int option) \<Rightarrow>
    csum_args \<Rightarrow> hicn_packet_buffer \<Rightarrow> int option" where
  "tcp_verify_checksums child args pk = do {
     let (partial_csum, payload_len) = args;
     c \<leftarrow> pk_csum (unat (of_nat TCP_HDRLEN + payload_len)) (negate_partial partial_csum) pk;
     if c \<noteq> 0 then Some HICN_LIB_ERROR_CORRUPTED_PACKET else child (0, payload_len) pk }"

definition verify_checksums_ops :: "(csum_args, int) ops" where
  "verify_checksums_ops p pos child args pk = (case p of
       P_IPV4 \<Rightarrow> ipv4_verify_checksums child args pk | P_IPV6 \<Rightarrow> ipv6_verify_checksums child args pk
     | P_TCP \<Rightarrow> tcp_verify_checksums child args pk | P_UDP \<Rightarrow> child args pk
     | P_ICMP \<Rightarrow> Some HICN_LIB_ERROR_NOT_IMPLEMENTED
     | P_AH \<Rightarrow> Some HICN_LIB_ERROR_NONE | P_NEW \<Rightarrow> Some HICN_LIB_ERROR_NONE
     | P_NONE \<Rightarrow> Some HICN_LIB_ERROR_NONE)"

text \<open>Incremental updates: the lists hold what the pointers \<open>old_val\<close> and
  \<open>new_val\<close> point to, the result is also where the pointers stand afterwards.\<close>

type_synonym incremental_args = "u16 list \<times> u16 list \<times> nat \<times> bool"

fun csum_replace_loop :: "nat \<Rightarrow> u16 \<Rightarrow> u16 list \<Rightarrow> u16 list \<Rightarrow> (u16 \<times> u16 list \<times> u16 list) option" where
  "csum_replace_loop 0 c old new = Some (c, old, new)"
| "csum_replace_loop (Suc n) c (m # old) (m' # new) = csum_replace_loop n (csum_replace c m m') old new"
| "csum_replace_loop (Suc n) c _ _ = None"

definition tcp_update_checksums_incremental :: "(incremental_args \<Rightarrow> hicn_packet_buffer \<Rightarrow> (int \<times> hicn_packet_buffer) option) \<Rightarrow>
    incremental_args \<Rightarrow> hicn_packet_buffer \<Rightarrow> (int \<times> hicn_packet_buffer) option" where
  "tcp_update_checksums_incremental child args pk = do {
     let (old_val, new_val, n, skip_first) = args;
     if skip_first then Some (HICN_LIB_ERROR_INVALID_PARAMETER, pk)
     else do {
       c \<leftarrow> pk_load 2 (pkbuf_get_tcp pk + TCP_CSUM) pk;
       (c, old_val, new_val) \<leftarrow> csum_replace_loop n c old_val new_val;
       pk \<leftarrow> pk_store 2 (pkbuf_get_tcp pk + TCP_CSUM) c pk;
       child (old_val, new_val, n, False) pk } }"

definition ipv4_update_checksums_incremental :: "(incremental_args \<Rightarrow> hicn_packet_buffer \<Rightarrow> (int \<times> hicn_packet_buffer) option) \<Rightarrow>
    incremental_args \<Rightarrow> hicn_packet_buffer \<Rightarrow> (int \<times> hicn_packet_buffer) option" where
  "ipv4_update_checksums_incremental child args pk = do {
     let (old_val, new_val, n, skip_first) = args;
     (rc, pk) \<leftarrow> child (old_val, new_val, n, False) pk;
     if rc < 0 then Some (rc, pk)
     else if skip_first then Some (HICN_LIB_ERROR_NONE, pk)
     else do {
       c \<leftarrow> pk_load 2 IPV4_CSUM pk;
       (c, _, _) \<leftarrow> csum_replace_loop n c old_val new_val;
       pk \<leftarrow> pk_store 2 IPV4_CSUM c pk;
       Some (HICN_LIB_ERROR_NONE, pk) } }"

definition update_checksums_incremental_ops :: "(incremental_args, int \<times> hicn_packet_buffer) ops" where
  "update_checksums_incremental_ops p pos child args pk =
     (let (old_val, new_val, n, skip_first) = args in case p of
       P_IPV4 \<Rightarrow> ipv4_update_checksums_incremental child args pk
     | P_TCP \<Rightarrow> tcp_update_checksums_incremental child args pk
     | P_IPV6 \<Rightarrow> child (old_val, new_val, n, False) pk
     | P_UDP \<Rightarrow> child (old_val, new_val, n, False) pk
     | P_AH \<Rightarrow> child (old_val, new_val, n, False) pk
     | P_ICMP \<Rightarrow> Some (HICN_LIB_ERROR_NOT_IMPLEMENTED, pk)
     | P_NEW \<Rightarrow> Some (HICN_LIB_ERROR_NONE, pk) | P_NONE \<Rightarrow> Some (HICN_LIB_ERROR_NONE, pk))"

section \<open>Path label\<close>

definition update_path_label :: "u8 \<Rightarrow> u32 \<Rightarrow> u8" where
  "update_path_label current_label face_id =
     (push_bit 1 current_label OR drop_bit 7 current_label) XOR ucast (face_id AND 0xFF)"

definition tcp_get_data_path_label :: "u8 \<Rightarrow> hicn_packet_buffer \<Rightarrow> (int \<times> u8) option" where
  "tcp_get_data_path_label old pk = do {
     (seq_ack :: u32) \<leftarrow> pk_load 4 (pkbuf_get_tcp pk + TCP_SEQ_ACK) pk;
     Some (HICN_LIB_ERROR_NONE, ucast (drop_bit 24 seq_ack)) }"

text \<open>The incremental checksum update is called with size 0 and \<open>skip_first\<close>, and
  its result is ignored.\<close>

definition tcp_set_data_path_label :: "nat \<Rightarrow> u8 \<Rightarrow> hicn_packet_buffer \<Rightarrow> (int \<times> hicn_packet_buffer) option" where
  "tcp_set_data_path_label pos path_label pk = do {
     (_, old_path_label) \<leftarrow> tcp_get_data_path_label 0 pk;
     pk \<leftarrow> pk_store 4 (pkbuf_get_tcp pk + TCP_SEQ_ACK) (push_bit 24 (ucast path_label) :: u32) pk;
     (_, pk) \<leftarrow> tcp_update_checksums_incremental (call_from update_checksums_incremental_ops (3 - pos))
       ([], [], 0, True) pk;
     Some (HICN_LIB_ERROR_NONE, pk) }"

definition tcp_update_data_path_label :: "nat \<Rightarrow> u32 \<Rightarrow> hicn_packet_buffer \<Rightarrow> (int \<times> hicn_packet_buffer) option" where
  "tcp_update_data_path_label pos face_id pk = do {
     (_, old_path_label) \<leftarrow> tcp_get_data_path_label 0 pk;
     (_, pk) \<leftarrow> tcp_set_data_path_label pos (update_path_label old_path_label face_id) pk;
     Some (HICN_LIB_ERROR_NONE, pk) }"

definition new_get_data_path_label :: "u8 \<Rightarrow> hicn_packet_buffer \<Rightarrow> (int \<times> u8) option" where
  "new_get_data_path_label old pk = do {
     new_assert_type HICN_PACKET_TYPE_DATA pk;
     (l :: u32) \<leftarrow> ntoh 4 (pkbuf_get_new pk + NEW_PATH_LABEL) pk;
     Some (HICN_LIB_ERROR_NONE, ucast l) }"

definition new_set_data_path_label :: "u8 \<Rightarrow> hicn_packet_buffer \<Rightarrow> (int \<times> hicn_packet_buffer) option" where
  "new_set_data_path_label path_label pk = do {
     new_assert_type HICN_PACKET_TYPE_DATA pk;
     pk \<leftarrow> hton 4 (pkbuf_get_new pk + NEW_PATH_LABEL) (ucast path_label :: u32) pk;
     Some (HICN_LIB_ERROR_NONE, pk) }"

text \<open>No byte swap here.\<close>

definition new_update_data_path_label :: "u32 \<Rightarrow> hicn_packet_buffer \<Rightarrow> (int \<times> hicn_packet_buffer) option" where
  "new_update_data_path_label face_id pk = do {
     (l :: u32) \<leftarrow> pk_load 4 (pkbuf_get_new pk + NEW_PATH_LABEL) pk;
     pk \<leftarrow> pk_store 4 (pkbuf_get_new pk + NEW_PATH_LABEL) (ucast (update_path_label (ucast l) face_id) :: u32) pk;
     Some (HICN_LIB_ERROR_NONE, pk) }"

definition get_data_path_label_ops :: "(u8, int \<times> u8) ops" where
  "get_data_path_label_ops = getter_ops tcp_get_data_path_label new_get_data_path_label"

definition set_data_path_label_ops :: "(u8, int \<times> hicn_packet_buffer) ops" where
  "set_data_path_label_ops p pos = setter_ops (tcp_set_data_path_label pos) new_set_data_path_label p pos"

definition update_data_path_label_ops :: "(u32, int \<times> hicn_packet_buffer) ops" where
  "update_data_path_label_ops p pos = setter_ops (tcp_update_data_path_label pos) new_update_data_path_label p pos"

section \<open>Payload\<close>

text \<open>\<open>ipv4_set_payload_len\<close> indexes the table by the position of the next layer
  instead of by its protocol.\<close>

definition ipv4_set_payload_len :: "nat \<Rightarrow> u64 \<Rightarrow> hicn_packet_buffer \<Rightarrow> (int \<times> hicn_packet_buffer) option" where
  "ipv4_set_payload_len pos payload_len pk = do {
     p \<leftarrow> hicn_ops_vft (of_nat (pos + 1));
     pk \<leftarrow> hton 2 IPV4_LEN (ucast (payload_len + of_nat IPV4_HDRLEN + of_nat (header_len p)) :: u16) pk;
     Some (HICN_LIB_ERROR_NONE, pk) }"

definition ipv6_set_payload_len :: "nat \<Rightarrow> u64 \<Rightarrow> hicn_packet_buffer \<Rightarrow> (int \<times> hicn_packet_buffer) option" where
  "ipv6_set_payload_len pos payload_len pk = do {
     pk \<leftarrow> hton 2 IPV6_LEN (ucast (payload_len + ucast (pk_payload pk) - of_nat IPV6_HDRLEN) :: u16) pk;
     Some (HICN_LIB_ERROR_NONE, pk) }"

definition new_set_payload_len :: "u64 \<Rightarrow> hicn_packet_buffer \<Rightarrow> (int \<times> hicn_packet_buffer) option" where
  "new_set_payload_len payload_len pk = do {
     let child_header_len = ((ucast (pk_payload pk) - ucast (pk_newhdr pk)) - of_nat NEW_HDRLEN :: u64);
     pk \<leftarrow> hton 2 (pkbuf_get_new pk + NEW_PAYLOAD_LEN)
       (ucast (ucast (ucast child_header_len :: u16) + payload_len) :: u16) pk;
     Some (HICN_LIB_ERROR_NONE, pk) }"

definition set_payload_len_ops :: "(u64, int \<times> hicn_packet_buffer) ops" where
  "set_payload_len_ops = name_setter_ops ipv4_set_payload_len ipv6_set_payload_len new_set_payload_len"

definition tcp_get_payload_type :: "u32 \<Rightarrow> hicn_packet_buffer \<Rightarrow> (int \<times> u32) option" where
  "tcp_get_payload_type old pk = do {
     flags \<leftarrow> pk_load 1 (pkbuf_get_tcp pk + TCP_FLAGS) pk;
     Some (HICN_LIB_ERROR_NONE, if flags AND HICN_TCP_FLAG_URG = HICN_TCP_FLAG_URG then 1 else 0) }"

definition tcp_set_payload_type :: "u32 \<Rightarrow> hicn_packet_buffer \<Rightarrow> (int \<times> hicn_packet_buffer) option" where
  "tcp_set_payload_type payload_type pk =
     (if payload_type \<noteq> HPT_DATA \<and> payload_type \<noteq> HPT_MANIFEST then Some (HICN_LIB_ERROR_INVALID_PARAMETER, pk)
      else do {
        pk \<leftarrow> pk_update8 (pkbuf_get_tcp pk + TCP_FLAGS)
          (\<lambda>f. if payload_type \<noteq> 0 then f OR HICN_TCP_FLAG_URG else f AND NOT HICN_TCP_FLAG_URG) pk;
        Some (HICN_LIB_ERROR_NONE, pk) })"

definition new_get_payload_type :: "u32 \<Rightarrow> hicn_packet_buffer \<Rightarrow> (int \<times> u32) option" where
  "new_get_payload_type old pk = do {
     flags \<leftarrow> pk_load 1 (pkbuf_get_new pk + NEW_FLAGS) pk;
     Some (HICN_LIB_ERROR_NONE, if flags AND HICN_NEW_FLAG_MAN = HICN_NEW_FLAG_MAN then 1 else 0) }"

definition new_set_payload_type :: "u32 \<Rightarrow> hicn_packet_buffer \<Rightarrow> (int \<times> hicn_packet_buffer) option" where
  "new_set_payload_type payload_type pk =
     (if payload_type \<noteq> HPT_DATA \<and> payload_type \<noteq> HPT_MANIFEST then Some (HICN_LIB_ERROR_INVALID_PARAMETER, pk)
      else do {
        pk \<leftarrow> pk_update8 (pkbuf_get_new pk + NEW_FLAGS)
          (\<lambda>f. if payload_type \<noteq> 0 then f OR HICN_NEW_FLAG_MAN else f AND NOT HICN_NEW_FLAG_MAN) pk;
        Some (HICN_LIB_ERROR_NONE, pk) })"

definition get_payload_type_ops :: "(u32, int \<times> u32) ops" where
  "get_payload_type_ops = getter_ops tcp_get_payload_type new_get_payload_type"

definition set_payload_type_ops :: "(u32, int \<times> hicn_packet_buffer) ops" where
  "set_payload_type_ops = setter_ops tcp_set_payload_type new_set_payload_type"

definition tcp_is_last_data :: "u32 \<Rightarrow> hicn_packet_buffer \<Rightarrow> (int \<times> u32) option" where
  "tcp_is_last_data old pk = do {
     flags \<leftarrow> pk_load 1 (pkbuf_get_tcp pk + TCP_FLAGS) pk;
     Some (HICN_LIB_ERROR_NONE, if flags AND HICN_TCP_FLAG_RST = HICN_TCP_FLAG_RST then 1 else 0) }"

definition tcp_set_last_data :: "hicn_packet_buffer \<Rightarrow> (int \<times> hicn_packet_buffer) option" where
  "tcp_set_last_data pk = do {
     pk \<leftarrow> pk_update8 (pkbuf_get_tcp pk + TCP_FLAGS) (\<lambda>f. f OR HICN_TCP_FLAG_RST) pk;
     Some (HICN_LIB_ERROR_NONE, pk) }"

definition new_is_last_data :: "u32 \<Rightarrow> hicn_packet_buffer \<Rightarrow> (int \<times> u32) option" where
  "new_is_last_data old pk = do {
     new_assert_type HICN_PACKET_TYPE_DATA pk;
     (flags :: u8) \<leftarrow> pk_load 1 (pkbuf_get_new pk + NEW_FLAGS) pk;
     Some (HICN_LIB_ERROR_NONE, ucast (flags AND HICN_NEW_FLAG_LST)) }"

definition new_set_last_data :: "hicn_packet_buffer \<Rightarrow> (int \<times> hicn_packet_buffer) option" where
  "new_set_last_data pk = do {
     new_assert_type HICN_PACKET_TYPE_DATA pk;
     pk \<leftarrow> pk_update8 (pkbuf_get_new pk + NEW_FLAGS) (\<lambda>f. f OR HICN_NEW_FLAG_LST) pk;
     Some (HICN_LIB_ERROR_NONE, pk) }"

definition is_last_data_ops :: "(u32, int \<times> u32) ops" where
  "is_last_data_ops = getter_ops tcp_is_last_data new_is_last_data"

section \<open>Signature\<close>

definition tcp_has_signature :: "bool \<Rightarrow> hicn_packet_buffer \<Rightarrow> (int \<times> bool) option" where
  "tcp_has_signature old pk = do {
     flags \<leftarrow> pk_load 1 (pkbuf_get_tcp pk + TCP_FLAGS) pk;
     Some (HICN_LIB_ERROR_NONE, flags AND AH_FLAG \<noteq> 0) }"

text \<open>\<open>new_has_signature\<close> returns the flag as its error code and leaves the output
  as it is.\<close>

definition new_has_signature :: "bool \<Rightarrow> hicn_packet_buffer \<Rightarrow> (int \<times> bool) option" where
  "new_has_signature old pk = do {
     (flags :: u8) \<leftarrow> pk_load 1 (pkbuf_get_new pk + NEW_FLAGS) pk;
     Some (uint (flags AND HICN_NEW_FLAG_SIG), old) }"

definition ah_has_signature :: "bool \<Rightarrow> hicn_packet_buffer \<Rightarrow> (int \<times> bool) option" where
  "ah_has_signature old pk = Some (HICN_LIB_ERROR_NONE, True)"

definition has_signature_ops :: "(bool, int \<times> bool) ops" where
  "has_signature_ops p pos child old pk = (case p of
       P_IPV4 \<Rightarrow> child old pk | P_IPV6 \<Rightarrow> child old pk | P_UDP \<Rightarrow> child old pk
     | P_TCP \<Rightarrow> tcp_has_signature old pk | P_NEW \<Rightarrow> new_has_signature old pk
     | P_AH \<Rightarrow> ah_has_signature old pk
     | P_ICMP \<Rightarrow> Some (HICN_LIB_ERROR_UNEXPECTED, old) | P_NONE \<Rightarrow> Some (HICN_LIB_ERROR_NONE, old))"

definition ah_getter_ops :: "('v \<Rightarrow> hicn_packet_buffer \<Rightarrow> (int \<times> 'v) option) \<Rightarrow> ('v, int \<times> 'v) ops" where
  "ah_getter_ops ah p pos child old pk = (case p of
       P_AH \<Rightarrow> ah old pk | P_NONE \<Rightarrow> Some (HICN_LIB_ERROR_NONE, old) | _ \<Rightarrow> child old pk)"

definition ah_setter_ops :: "('v \<Rightarrow> hicn_packet_buffer \<Rightarrow> (int \<times> hicn_packet_buffer) option) \<Rightarrow> ('v, int \<times> hicn_packet_buffer) ops" where
  "ah_setter_ops ah p pos child v pk = (case p of
       P_AH \<Rightarrow> ah v pk | P_NONE \<Rightarrow> Some (HICN_LIB_ERROR_NONE, pk) | _ \<Rightarrow> child v pk)"

definition ah_get_signature_size :: "u64 \<Rightarrow> hicn_packet_buffer \<Rightarrow> (int \<times> u64) option" where
  "ah_get_signature_size old pk = do {
     (l :: u8) \<leftarrow> pk_load 1 (pkbuf_get_ah pk + AH_PAYLOADLEN) pk;
     Some (HICN_LIB_ERROR_NONE, push_bit 2 (ucast l)) }"

definition ah_set_signature_size :: "u64 \<Rightarrow> hicn_packet_buffer \<Rightarrow> (int \<times> hicn_packet_buffer) option" where
  "ah_set_signature_size signature_size pk = do {
     pk \<leftarrow> pk_store 1 (pkbuf_get_ah pk + AH_PAYLOADLEN) (ucast (drop_bit 2 signature_size) :: u8) pk;
     Some (HICN_LIB_ERROR_NONE, pk) }"

definition ah_get_signature_timestamp :: "u64 \<Rightarrow> hicn_packet_buffer \<Rightarrow> (int \<times> u64) option" where
  "ah_get_signature_timestamp old pk = do {
     t \<leftarrow> ntoh 8 (pkbuf_get_ah pk + AH_TIMESTAMP) pk; Some (HICN_LIB_ERROR_NONE, t) }"

definition ah_set_signature_timestamp :: "u64 \<Rightarrow> hicn_packet_buffer \<Rightarrow> (int \<times> hicn_packet_buffer) option" where
  "ah_set_signature_timestamp t pk = do {
     pk \<leftarrow> hton 8 (pkbuf_get_ah pk + AH_TIMESTAMP) t pk; Some (HICN_LIB_ERROR_NONE, pk) }"

definition ah_get_validation_algorithm :: "u8 \<Rightarrow> hicn_packet_buffer \<Rightarrow> (int \<times> u8) option" where
  "ah_get_validation_algorithm old pk = do {
     a \<leftarrow> pk_load 1 (pkbuf_get_ah pk + AH_ALGORITHM) pk; Some (HICN_LIB_ERROR_NONE, a) }"

definition ah_set_validation_algorithm :: "u8 \<Rightarrow> hicn_packet_buffer \<Rightarrow> (int \<times> hicn_packet_buffer) option" where
  "ah_set_validation_algorithm a pk = do {
     pk \<leftarrow> pk_store 1 (pkbuf_get_ah pk + AH_ALGORITHM) a pk; Some (HICN_LIB_ERROR_NONE, pk) }"

definition ah_get_signature_padding :: "u64 \<Rightarrow> hicn_packet_buffer \<Rightarrow> (int \<times> u64) option" where
  "ah_get_signature_padding old pk = do {
     (p :: u8) \<leftarrow> pk_load 1 (pkbuf_get_ah pk + AH_PADDING) pk; Some (HICN_LIB_ERROR_NONE, ucast p) }"

definition ah_set_signature_padding :: "u64 \<Rightarrow> hicn_packet_buffer \<Rightarrow> (int \<times> hicn_packet_buffer) option" where
  "ah_set_signature_padding padding pk = do {
     pk \<leftarrow> pk_store 1 (pkbuf_get_ah pk + AH_PADDING) (ucast padding :: u8) pk; Some (HICN_LIB_ERROR_NONE, pk) }"

definition ah_set_key_id :: "u8 list \<Rightarrow> hicn_packet_buffer \<Rightarrow> (int \<times> hicn_packet_buffer) option" where
  "ah_set_key_id key_id pk =
     (if length key_id \<noteq> 32 then Some (HICN_LIB_ERROR_INVALID_PARAMETER, pk)
      else do { pk \<leftarrow> pk_store_bytes (pkbuf_get_ah pk + AH_KEYID) key_id pk; Some (HICN_LIB_ERROR_NONE, pk) })"

definition ah_get_key_id :: "u8 list \<Rightarrow> hicn_packet_buffer \<Rightarrow> (int \<times> u8 list) option" where
  "ah_get_key_id old pk = do {
     k \<leftarrow> load (pk_bytes pk) (pkbuf_get_ah pk + AH_KEYID) 32; Some (HICN_LIB_ERROR_NONE, k) }"

text \<open>The signature itself is handed out as a pointer, here the offset.\<close>

definition ah_get_signature :: "nat \<Rightarrow> hicn_packet_buffer \<Rightarrow> (int \<times> nat) option" where
  "ah_get_signature old pk = Some (HICN_LIB_ERROR_NONE, pkbuf_get_ah pk + AH_VALIDATION_PAYLOAD)"

definition get_signature_ops :: "(nat, int \<times> nat) ops" where
  "get_signature_ops p pos child old pk =
     (if p = P_ICMP then Some (HICN_LIB_ERROR_UNEXPECTED, old) else ah_getter_ops ah_get_signature p pos child old pk)"

section \<open>Initialisation\<close>

text \<open>\<open>HDRLEN > buffer_size - len\<close>: the difference of two \<open>uint16_t\<close> is an \<open>int\<close>
  and is converted to \<open>size_t\<close>.\<close>

definition no_room :: "nat \<Rightarrow> hicn_packet_buffer \<Rightarrow> bool" where
  "no_room hdrlen pk \<longleftrightarrow> (of_nat hdrlen :: u64) > word_of_int (uint (pk_buffer_size pk) - uint (pk_len pk))"

text \<open>The test \<open>HICN_PACKET_FORMAT_GET (format, pos + 1) == IPPROTO_AH\<close>: the macro is
  not parenthesised, so past the last position its value is the non-zero
  \<open>IPPROTO_NONE\<close>.\<close>

definition next_is_ah :: "hicn_packet_buffer \<Rightarrow> nat \<Rightarrow> bool" where
  "next_is_ah pk pos \<longleftrightarrow> pos + 1 > 3 \<or> HICN_PACKET_FORMAT_GET (pk_format pk) (pos + 1) = IPPROTO_AH"

definition hicn_packet_get_header_length_from_format :: "u32 \<Rightarrow> nat option" where
  "hicn_packet_get_header_length_from_format format =
     foldM (\<lambda>n i. do { p \<leftarrow> hicn_ops_vft (HICN_PACKET_FORMAT_GET format i); Some (n + header_len p) })
       0 [0..<HICN_PACKET_FORMAT_SIZE]"

type_synonym init_ops = "(unit \<Rightarrow> hicn_packet_buffer \<Rightarrow> (int \<times> hicn_packet_buffer) option)"

definition ipv4_header_bytes :: "u16 \<Rightarrow> u8 \<Rightarrow> u8 list" where
  "ipv4_header_bytes len protocol =
     [0x45, 0] @ word_bytes 2 (bswap 2 len) @ word_bytes 2 (bswap 2 (300 :: u16)) @ [0, 0] @
     [HICN_DEFAULT_TTL, protocol, 0, 0] @ replicate 8 0"

definition ipv4_init_packet_header :: "nat \<Rightarrow> init_ops \<Rightarrow> hicn_packet_buffer \<Rightarrow> (int \<times> hicn_packet_buffer) option" where
  "ipv4_init_packet_header pos child pk = do {
     assert_that (pk_len pk = 0);
     if no_room IPV4_HDRLEN pk then Some (- 1, pk)
     else do {
       let pk = pk\<lparr>pk_len := pk_len pk + of_nat IPV4_HDRLEN\<rparr>;
       n \<leftarrow> hicn_packet_get_header_length_from_format (pk_format pk);
       pk \<leftarrow> pk_store_bytes 0 (ipv4_header_bytes (of_nat n) (HICN_PACKET_FORMAT_GET (pk_format pk) (pos + 1))) pk;
       child () pk } }"

definition ipv6_header_bytes :: "u16 \<Rightarrow> u8 \<Rightarrow> u8 list" where
  "ipv6_header_bytes len nxt =
     [0x60, 0, 0, 0] @ word_bytes 2 (bswap 2 len) @ [nxt, HICN_DEFAULT_TTL] @ replicate 32 0"

definition ipv6_init_packet_header :: "nat \<Rightarrow> init_ops \<Rightarrow> hicn_packet_buffer \<Rightarrow> (int \<times> hicn_packet_buffer) option" where
  "ipv6_init_packet_header pos child pk = do {
     assert_that (pk_len pk = 0);
     if no_room IPV6_HDRLEN pk then Some (- 1, pk)
     else do {
       let pk = pk\<lparr>pk_len := pk_len pk + of_nat IPV6_HDRLEN\<rparr>;
       n \<leftarrow> hicn_packet_get_header_length_from_format (pk_format pk);
       pk \<leftarrow> pk_store_bytes 0 (ipv6_header_bytes (of_nat n - of_nat IPV6_HDRLEN) (HICN_PACKET_FORMAT_GET (pk_format pk) (pos + 1))) pk;
       child () pk } }"

definition tcp_header_bytes :: "u8 \<Rightarrow> u8 list" where
  "tcp_header_bytes flags =
     [0x80, 0, 0, 0x80] @ replicate 8 0 @ [0x50, flags, 0, 0, 0xFF, 0xFF] @ word_bytes 2 (65000 :: u16)"

definition tcp_init_packet_header :: "nat \<Rightarrow> init_ops \<Rightarrow> hicn_packet_buffer \<Rightarrow> (int \<times> hicn_packet_buffer) option" where
  "tcp_init_packet_header pos child pk = do {
     let pk = pk\<lparr>pk_l4 := ucast (pk_len pk)\<rparr>;
     if no_room TCP_HDRLEN pk then Some (- 1, pk)
     else do {
       let pk = pk\<lparr>pk_len := pk_len pk + of_nat TCP_HDRLEN\<rparr>;
       pk \<leftarrow> pk_store_bytes (pkbuf_get_tcp pk) (tcp_header_bytes (2 OR (if next_is_ah pk pos then AH_FLAG else 0))) pk;
       child () pk } }"

definition udp_init_packet_header :: "init_ops \<Rightarrow> hicn_packet_buffer \<Rightarrow> (int \<times> hicn_packet_buffer) option" where
  "udp_init_packet_header child pk = do {
     let pk = pk\<lparr>pk_l4 := ucast (pk_len pk)\<rparr>;
     if no_room UDP_HDRLEN pk then Some (- 1, pk)
     else do {
       let pk = pk\<lparr>pk_len := pk_len pk + of_nat UDP_HDRLEN\<rparr>;
       let len = (pk_len pk - of_nat (pkbuf_get_udp pk) - of_nat UDP_HDRLEN :: u16);
       pk \<leftarrow> pk_store_bytes (pkbuf_get_udp pk) ([0, 0, 0, 0] @ word_bytes 2 (bswap 2 len) @ [0, 0]) pk;
       child () pk } }"

definition icmp_init_packet_header :: "init_ops \<Rightarrow> hicn_packet_buffer \<Rightarrow> (int \<times> hicn_packet_buffer) option" where
  "icmp_init_packet_header child pk = do {
     let pk = pk\<lparr>pk_l4 := ucast (pk_len pk)\<rparr>;
     if no_room ICMP_HDRLEN pk then Some (- 1, pk)
     else do {
       let pk = pk\<lparr>pk_len := pk_len pk + of_nat ICMP_HDRLEN\<rparr>;
       pk \<leftarrow> pk_store_bytes (pkbuf_get_icmp pk) (replicate 4 0) pk;
       child () pk } }"

definition ah_init_packet_header :: "init_ops \<Rightarrow> hicn_packet_buffer \<Rightarrow> (int \<times> hicn_packet_buffer) option" where
  "ah_init_packet_header child pk = do {
     let pk = pk\<lparr>pk_ah := pk_len pk\<rparr>;
     if no_room AH_HDRLEN pk then Some (- 1, pk)
     else do {
       let pk = pk\<lparr>pk_len := pk_len pk + of_nat AH_HDRLEN\<rparr>;
       pk \<leftarrow> pk_store_bytes (pkbuf_get_ah pk) (replicate 44 0) pk;
       child () pk } }"

definition new_init_packet_header :: "nat \<Rightarrow> init_ops \<Rightarrow> hicn_packet_buffer \<Rightarrow> (int \<times> hicn_packet_buffer) option" where
  "new_init_packet_header pos child pk = do {
     let pk = pk\<lparr>pk_newhdr := ucast (pk_len pk)\<rparr>;
     if no_room NEW_HDRLEN pk then Some (- 1, pk)
     else do {
       let pk = pk\<lparr>pk_len := pk_len pk + of_nat NEW_HDRLEN\<rparr>;
       pk \<leftarrow> pk_store_bytes (pkbuf_get_new pk)
         ([0x90, if next_is_ah pk pos then HICN_NEW_FLAG_SIG else 0] @ replicate 30 0) pk;
       child () pk } }"

definition none_init_packet_header :: "hicn_packet_buffer \<Rightarrow> (int \<times> hicn_packet_buffer) option" where
  "none_init_packet_header pk = Some (HICN_LIB_ERROR_NONE, pk\<lparr>pk_payload := pk_len pk\<rparr>)"

definition init_packet_header_ops :: "(unit, int \<times> hicn_packet_buffer) ops" where
  "init_packet_header_ops p pos child _ pk = (case p of
       P_IPV4 \<Rightarrow> ipv4_init_packet_header pos child pk | P_IPV6 \<Rightarrow> ipv6_init_packet_header pos child pk
     | P_TCP \<Rightarrow> tcp_init_packet_header pos child pk | P_UDP \<Rightarrow> udp_init_packet_header child pk
     | P_ICMP \<Rightarrow> icmp_init_packet_header child pk | P_AH \<Rightarrow> ah_init_packet_header child pk
     | P_NEW \<Rightarrow> new_init_packet_header pos child pk | P_NONE \<Rightarrow> none_init_packet_header pk)"

section \<open>Clearing the mutable fields before hashing\<close>

definition reset_for_hash :: "hicn_packet_buffer \<Rightarrow> hicn_packet_buffer option" where
  "reset_for_hash pk = do {
     pk \<leftarrow> pk_store_bytes (pkbuf_get_tcp pk) (replicate 4 0) pk;
     pk_store_bytes (pkbuf_get_tcp pk + TCP_SEQ_ACK) (replicate 12 0) pk }"

definition ah_reset_for_hash :: "hicn_packet_buffer \<Rightarrow> (int \<times> hicn_packet_buffer) option" where
  "ah_reset_for_hash pk = do {
     (rc, signature_size) \<leftarrow> CALL (ah_getter_ops ah_get_signature_size) 0 pk;
     if rc < 0 then Some (rc, pk)
     else do {
       pk \<leftarrow> pk_store_bytes (pkbuf_get_ah pk + AH_VALIDATION_PAYLOAD) (replicate (unat signature_size) 0) pk;
       pk \<leftarrow> pk_store 1 (pkbuf_get_ah pk + AH_PADDING) (0 :: u8) pk;
       Some (HICN_LIB_ERROR_NONE, pk) } }"

definition icmp_reset_for_hash :: "hicn_packet_buffer \<Rightarrow> hicn_packet_buffer option" where
  "icmp_reset_for_hash pk = pk_store 2 (pkbuf_get_icmp pk + 2) (0 :: u16) pk"

text \<open>The new header ends the walk by initialising the layer below.\<close>

definition reset_interest_for_hash_ops :: "(unit, int \<times> hicn_packet_buffer) ops" where
  "reset_interest_for_hash_ops p pos child _ pk = (case p of
       P_IPV4 \<Rightarrow> do { pk \<leftarrow> pk_store_bytes 0 (replicate 16 0) pk; child () pk }
     | P_IPV6 \<Rightarrow> do { pk \<leftarrow> pk_store_bytes 0 (replicate 24 0) pk; child () pk }
     | P_TCP \<Rightarrow> do { pk \<leftarrow> reset_for_hash pk; child () pk }
     | P_UDP \<Rightarrow> child () pk
     | P_ICMP \<Rightarrow> do { pk \<leftarrow> icmp_reset_for_hash pk; child () pk }
     | P_AH \<Rightarrow> do { (rc, pk) \<leftarrow> ah_reset_for_hash pk; if rc < 0 then Some (rc, pk) else child () pk }
     | P_NEW \<Rightarrow> do { new_assert_type HICN_PACKET_TYPE_INTEREST pk; call_from init_packet_header_ops (3 - pos) () pk }
     | P_NONE \<Rightarrow> Some (HICN_LIB_ERROR_NONE, pk))"

text \<open>Below AH the walk for data goes on with the method for Interests.\<close>

definition reset_data_for_hash_ops :: "(unit, int \<times> hicn_packet_buffer) ops" where
  "reset_data_for_hash_ops p pos child _ pk = (case p of
       P_IPV4 \<Rightarrow> do {
         pk \<leftarrow> pk_store_bytes 0 (replicate 12 0) pk;
         pk \<leftarrow> pk_store_bytes IPV4_DADDR (replicate 4 0) pk;
         child () pk }
     | P_IPV6 \<Rightarrow> do {
         pk \<leftarrow> pk_store_bytes 0 (replicate 8 0) pk;
         pk \<leftarrow> pk_store_bytes IPV6_DADDR (replicate 16 0) pk;
         child () pk }
     | P_TCP \<Rightarrow> do { pk \<leftarrow> reset_for_hash pk; child () pk }
     | P_UDP \<Rightarrow> child () pk
     | P_ICMP \<Rightarrow> do { pk \<leftarrow> icmp_reset_for_hash pk; child () pk }
     | P_AH \<Rightarrow> do { (rc, pk) \<leftarrow> ah_reset_for_hash pk;
                    if rc < 0 then Some (rc, pk) else call_from reset_interest_for_hash_ops (3 - pos) () pk }
     | P_NEW \<Rightarrow> child () pk
     | P_NONE \<Rightarrow> Some (HICN_LIB_ERROR_NONE, pk))"

end
