(* ===== verification/Hicn_Packet.thy ===== *)
theory Hicn_Packet
  imports Packet_Ops
begin

text \<open>
  The packet interface of libhicn, \<open>lib/src/packet.c\<close>: the operations every client
  uses, each a \<open>CALL\<close> into the layers of the format, and \<open>hicn_packet_analyze\<close>,
  which finds the format of a received packet.

  An uninitialised local variable is an argument: \<open>has_signature\<close> of
  \<open>hicn_packet_analyze\<close>, which the new header does not write.
\<close>

section \<open>Buffer and type\<close>

definition hicn_packet_get_format :: "hicn_packet_buffer \<Rightarrow> u32" where
  [simp]: "hicn_packet_get_format pk = pk_format pk"

definition hicn_packet_set_format :: "u32 \<Rightarrow> hicn_packet_buffer \<Rightarrow> hicn_packet_buffer" where
  "hicn_packet_set_format format pk = pk\<lparr>pk_format := format\<rparr>"

definition hicn_packet_get_type :: "hicn_packet_buffer \<Rightarrow> u32" where
  "hicn_packet_get_type pk = ucast (pk_type pk)"

definition hicn_packet_set_type :: "u32 \<Rightarrow> hicn_packet_buffer \<Rightarrow> hicn_packet_buffer" where
  "hicn_packet_set_type type pk = pk\<lparr>pk_type := ucast type\<rparr>"

definition hicn_packet_initialize_type :: "u32 \<Rightarrow> hicn_packet_buffer \<Rightarrow> hicn_packet_buffer option" where
  "hicn_packet_initialize_type type pk = do {
     assert_that (pk_format pk \<noteq> HICN_PACKET_FORMAT_NONE);
     (_, pk) \<leftarrow> CALL set_type_ops type (pk\<lparr>pk_type := ucast type\<rparr>);
     Some pk }"

definition hicn_packet_is_interest :: "hicn_packet_buffer \<Rightarrow> bool" where
  "hicn_packet_is_interest pk \<longleftrightarrow> ucast (pk_type pk) = HICN_PACKET_TYPE_INTEREST"

definition hicn_packet_is_data :: "hicn_packet_buffer \<Rightarrow> bool" where
  "hicn_packet_is_data pk \<longleftrightarrow> ucast (pk_type pk) = HICN_PACKET_TYPE_DATA"

definition hicn_packet_is_undefined :: "hicn_packet_buffer \<Rightarrow> bool" where
  "hicn_packet_is_undefined pk \<longleftrightarrow> ucast (pk_type pk) = HICN_PACKET_TYPE_UNDEFINED"

definition hicn_packet_init_header :: "u16 \<Rightarrow> hicn_packet_buffer \<Rightarrow> (int \<times> hicn_packet_buffer) option" where
  "hicn_packet_init_header additional_header_size pk =
     (if hicn_packet_is_undefined pk then Some (HICN_LIB_ERROR_UNEXPECTED, pk)
      else if hicn_packet_get_format pk = HICN_PACKET_FORMAT_NONE then Some (HICN_LIB_ERROR_UNEXPECTED, pk)
      else do {
        (rc, pk) \<leftarrow> CALL init_packet_header_ops () (pk\<lparr>pk_len := 0, pk_payload := 0\<rparr>);
        Some (rc, pk\<lparr>pk_len := pk_len pk + additional_header_size,
                     pk_payload := pk_payload pk + additional_header_size\<rparr>) })"

definition hicn_packet_get_len :: "hicn_packet_buffer \<Rightarrow> nat" where
  "hicn_packet_get_len pk = unat (pk_len pk)"

definition hicn_packet_set_len :: "u64 \<Rightarrow> hicn_packet_buffer \<Rightarrow> hicn_packet_buffer" where
  "hicn_packet_set_len len pk = pk\<lparr>pk_len := ucast len\<rparr>"

text \<open>\<open>memset\<close> clears the whole structure: the buffer then starts at the structure
  itself, here no bytes.\<close>

definition hicn_packet_reset :: "hicn_packet_buffer \<Rightarrow> hicn_packet_buffer" where
  "hicn_packet_reset pk = hicn_packet_set_len 0 (hicn_packet_set_type HICN_PACKET_TYPE_UNDEFINED
     (hicn_packet_set_format HICN_PACKET_FORMAT_NONE
       \<lparr>pk_bytes = [], pk_format = 0, pk_type = 0, pk_buffer_size = 0, pk_len = 0, pk_l4 = 0,
         pk_newhdr = 0, pk_ah = 0, pk_payload = 0\<rparr>))"

definition hicn_packet_set_buffer :: "u8 list \<Rightarrow> u16 \<Rightarrow> u16 \<Rightarrow> hicn_packet_buffer \<Rightarrow> hicn_packet_buffer" where
  "hicn_packet_set_buffer buffer buffer_size len pk =
     pk\<lparr>pk_bytes := buffer, pk_buffer_size := buffer_size, pk_len := len\<rparr>"

definition hicn_packet_get_header_len :: "hicn_packet_buffer \<Rightarrow> nat" where
  "hicn_packet_get_header_len pk = unat (pk_payload pk)"

definition hicn_packet_get_payload_len :: "hicn_packet_buffer \<Rightarrow> u64" where
  "hicn_packet_get_payload_len pk = ucast (pk_len pk) - ucast (pk_payload pk)"

definition hicn_packet_set_payload :: "u8 list \<Rightarrow> hicn_packet_buffer \<Rightarrow> (int \<times> hicn_packet_buffer) option" where
  "hicn_packet_set_payload payload pk = do {
     pk \<leftarrow> pk_store_bytes (unat (pk_payload pk)) payload pk;
     CALL set_payload_len_ops (of_nat (length payload)) pk }"

text \<open>The payload without copy: a pointer into the buffer, here its bytes.\<close>

definition hicn_packet_get_payload :: "hicn_packet_buffer \<Rightarrow> u8 list option" where
  "hicn_packet_get_payload pk = load (pk_bytes pk) (unat (pk_payload pk)) (unat (hicn_packet_get_payload_len pk))"

section \<open>Analysis of a received packet\<close>

datatype 'a analyzed = Analyzed 'a | Rejected hicn_packet_buffer

text \<open>One round of the loop: the state is the buffer, the protocol found for
  position \<open>i\<close>, the offset of its header and the variable \<open>has_signature\<close>.\<close>

type_synonym analyze_state = "hicn_packet_buffer \<times> u8 \<times> u16 \<times> bool"

definition analyze_layer :: "nat \<Rightarrow> analyze_state \<Rightarrow> analyze_state analyzed option" where
  "analyze_layer i st = do {
     let (pk, protocol, offset, has_signature) = st;
     let pk = pk\<lparr>pk_format := HICN_PACKET_FORMAT_SET (pk_format pk) i protocol\<rparr>;
     if protocol = IPPROTO_IP then
       if i > 0 then Some (Rejected pk)
       else do {
         assert_that (offset = 0);
         nxt \<leftarrow> pk_load 1 (unat offset + IPV4_PROTOCOL) pk;
         (len :: u16) \<leftarrow> ntoh 2 (unat offset + IPV4_LEN) pk;
         if hicn_packet_get_len pk \<noteq> unat len then Some (Rejected pk)
         else Some (Analyzed (pk, nxt, offset + of_nat IPV4_HDRLEN, has_signature)) }
     else if protocol = IPPROTO_IPV6 then
       if i > 0 then Some (Rejected pk)
       else do {
         assert_that (offset = 0);
         nxt \<leftarrow> pk_load 1 (unat offset + IPV6_NXT) pk;
         (len :: u16) \<leftarrow> ntoh 2 (unat offset + IPV6_LEN) pk;
         if hicn_packet_get_len pk \<noteq> IPV6_HDRLEN + unat len then Some (Rejected pk)
         else Some (Analyzed (pk, nxt, offset + of_nat IPV6_HDRLEN, has_signature)) }
     else if protocol = IPPROTO_TCP then do {
       let pk = pk\<lparr>pk_l4 := ucast offset\<rparr>;
       (rc, has_signature) \<leftarrow> call_from has_signature_ops (4 - i) has_signature pk;
       if rc < 0 then Some (Rejected pk)
       else Some (Analyzed (pk, if has_signature then IPPROTO_AH else IPPROTO_NONE, offset + of_nat TCP_HDRLEN, has_signature)) }
     else if protocol = IPPROTO_UDP then
       Some (Analyzed (pk\<lparr>pk_l4 := ucast offset\<rparr>, IPPROTO_ENCAP, offset + of_nat UDP_HDRLEN, has_signature))
     else if protocol = IPPROTO_ICMP \<or> protocol = IPPROTO_ICMPV6 then
       Some (Analyzed (pk\<lparr>pk_l4 := ucast offset\<rparr>, IPPROTO_NONE, offset + of_nat ICMP_HDRLEN, has_signature))
     else if protocol = IPPROTO_ENCAP then do {
       let pk = pk\<lparr>pk_newhdr := ucast offset\<rparr>;
       (rc, has_signature) \<leftarrow> call_from has_signature_ops (4 - i) has_signature pk;
       if rc < 0 then Some (Rejected pk)
       else Some (Analyzed (pk, if has_signature then IPPROTO_AH else IPPROTO_NONE, offset + of_nat NEW_HDRLEN, has_signature)) }
     else if protocol = IPPROTO_AH then do {
       let pk = pk\<lparr>pk_ah := offset\<rparr>;
       (rc, signature_size) \<leftarrow> call_from (ah_getter_ops ah_get_signature_size) (4 - i) 0 pk;
       if rc < 0 then Some (Rejected pk)
       else Some (Analyzed (pk, IPPROTO_NONE, offset + of_nat AH_HDRLEN + ucast signature_size, has_signature)) }
     else if protocol = IPPROTO_NONE then Some (Analyzed (pk, protocol, offset, has_signature))
     else Some (Rejected pk) }"

fun analyze_loop :: "nat list \<Rightarrow> analyze_state \<Rightarrow> analyze_state analyzed option" where
  "analyze_loop [] st = Some (Analyzed st)"
| "analyze_loop (i # is) st = do {
     r \<leftarrow> analyze_layer i st;
     (case r of Analyzed st' \<Rightarrow> analyze_loop is st' | Rejected pk \<Rightarrow> Some (Rejected pk)) }"

definition analyze_error :: "hicn_packet_buffer \<Rightarrow> (int \<times> hicn_packet_buffer)" where
  "analyze_error pk = (HICN_LIB_ERROR_UNEXPECTED,
     pk\<lparr>pk_format := HICN_PACKET_FORMAT_NONE, pk_type := ucast HICN_PACKET_TYPE_UNDEFINED\<rparr>)"

text \<open>\<open>get_type\<close> is given the address of the 16-bit field \<open>type\<close> as that of a 32-bit
  enumeration: what it writes also covers the field \<open>buffer_size\<close> behind it.\<close>

definition type_object :: "hicn_packet_buffer \<Rightarrow> u32" where
  "type_object pk = ucast (pk_type pk) OR push_bit 16 (ucast (pk_buffer_size pk))"

definition set_type_object :: "u32 \<Rightarrow> hicn_packet_buffer \<Rightarrow> hicn_packet_buffer" where
  "set_type_object w pk = pk\<lparr>pk_type := ucast w, pk_buffer_size := ucast (drop_bit 16 w)\<rparr>"

definition hicn_packet_analyze :: "bool \<Rightarrow> hicn_packet_buffer \<Rightarrow> (int \<times> hicn_packet_buffer) option" where
  "hicn_packet_analyze has_signature pk = do {
     (b :: u8) \<leftarrow> pk_load 1 0 pk;
     let version = drop_bit 4 b;
     if version \<noteq> 4 \<and> version \<noteq> 6 \<and> version \<noteq> 9 then Some (analyze_error pk)
     else do {
       r \<leftarrow> analyze_loop [0..<HICN_PACKET_FORMAT_SIZE]
         (pk, if version = 4 then IPPROTO_IP else if version = 6 then IPPROTO_IPV6 else IPPROTO_ENCAP, 0, has_signature);
       (case r of
          Rejected pk \<Rightarrow> Some (analyze_error pk)
        | Analyzed (pk, _, offset, _) \<Rightarrow> do {
            let pk = pk\<lparr>pk_payload := offset\<rparr>;
            (rc, w) \<leftarrow> CALL get_type_ops (type_object pk) pk;
            let pk = set_type_object w pk;
            if rc < 0 then Some (analyze_error pk) else Some (HICN_LIB_ERROR_NONE, pk) }) } }"

section \<open>Header fields\<close>

definition hicn_packet_compute_checksum :: "hicn_packet_buffer \<Rightarrow> (int \<times> hicn_packet_buffer) option" where
  "hicn_packet_compute_checksum pk = CALL update_checksums_ops (0, SIZE_ALL) pk"

definition hicn_packet_compute_header_checksum :: "u16 \<Rightarrow> hicn_packet_buffer \<Rightarrow> (int \<times> hicn_packet_buffer) option" where
  "hicn_packet_compute_header_checksum init_sum pk = CALL update_checksums_ops (init_sum, 0) pk"

definition hicn_packet_check_integrity_no_payload :: "u16 \<Rightarrow> hicn_packet_buffer \<Rightarrow> int option" where
  "hicn_packet_check_integrity_no_payload init_sum pk = CALL verify_checksums_ops (init_sum, 0) pk"

definition hicn_packet_set_payload_length :: "u64 \<Rightarrow> hicn_packet_buffer \<Rightarrow> (int \<times> hicn_packet_buffer) option" where
  "hicn_packet_set_payload_length payload_len pk = CALL set_payload_len_ops payload_len pk"

definition hicn_packet_compare :: "hicn_packet_buffer \<Rightarrow> hicn_packet_buffer \<Rightarrow> int option" where
  "hicn_packet_compare pk1 pk2 =
     (if pk_format pk1 \<noteq> pk_format pk2 then Some HICN_LIB_ERROR_UNEXPECTED
      else if hicn_packet_get_len pk1 \<noteq> hicn_packet_get_len pk2 then Some HICN_LIB_ERROR_UNEXPECTED
      else do {
        b1 \<leftarrow> load (pk_bytes pk1) 0 (hicn_packet_get_len pk1);
        b2 \<leftarrow> load (pk_bytes pk2) 0 (hicn_packet_get_len pk1);
        Some (memcmp b1 b2) })"

definition hicn_interest_get_name :: "hicn_name \<Rightarrow> hicn_packet_buffer \<Rightarrow> (int \<times> hicn_name) option" where
  "hicn_interest_get_name name pk = CALL get_interest_name_ops name pk"

definition hicn_interest_set_name :: "hicn_name \<Rightarrow> hicn_packet_buffer \<Rightarrow> (int \<times> hicn_packet_buffer) option" where
  "hicn_interest_set_name name pk = CALL set_interest_name_ops name pk"

definition hicn_data_get_name :: "hicn_name \<Rightarrow> hicn_packet_buffer \<Rightarrow> (int \<times> hicn_name) option" where
  "hicn_data_get_name name pk = CALL get_data_name_ops name pk"

definition hicn_data_set_name :: "hicn_name \<Rightarrow> hicn_packet_buffer \<Rightarrow> (int \<times> hicn_packet_buffer) option" where
  "hicn_data_set_name name pk = CALL set_data_name_ops name pk"

definition hicn_packet_get_name :: "hicn_name \<Rightarrow> hicn_packet_buffer \<Rightarrow> (int \<times> hicn_name) option" where
  "hicn_packet_get_name name pk =
     (if hicn_packet_is_interest pk then hicn_interest_get_name name pk
      else if hicn_packet_is_data pk then hicn_data_get_name name pk
      else Some (HICN_LIB_ERROR_UNEXPECTED, name))"

definition hicn_packet_set_name :: "hicn_name \<Rightarrow> hicn_packet_buffer \<Rightarrow> (int \<times> hicn_packet_buffer) option" where
  "hicn_packet_set_name name pk =
     (if hicn_packet_is_interest pk then hicn_interest_set_name name pk
      else if hicn_packet_is_data pk then hicn_data_set_name name pk
      else Some (HICN_LIB_ERROR_UNEXPECTED, pk))"

definition hicn_interest_get_locator :: "hicn_ip_address \<Rightarrow> hicn_packet_buffer \<Rightarrow> (int \<times> hicn_ip_address) option" where
  "hicn_interest_get_locator a pk = CALL get_interest_locator_ops a pk"

definition hicn_interest_set_locator :: "hicn_ip_address \<Rightarrow> hicn_packet_buffer \<Rightarrow> (int \<times> hicn_packet_buffer) option" where
  "hicn_interest_set_locator a pk = CALL set_interest_locator_ops a pk"

definition hicn_data_get_locator :: "hicn_ip_address \<Rightarrow> hicn_packet_buffer \<Rightarrow> (int \<times> hicn_ip_address) option" where
  "hicn_data_get_locator a pk = CALL get_data_locator_ops a pk"

definition hicn_data_set_locator :: "hicn_ip_address \<Rightarrow> hicn_packet_buffer \<Rightarrow> (int \<times> hicn_packet_buffer) option" where
  "hicn_data_set_locator a pk = CALL set_data_locator_ops a pk"

definition hicn_packet_get_locator :: "hicn_ip_address \<Rightarrow> hicn_packet_buffer \<Rightarrow> (int \<times> hicn_ip_address) option" where
  "hicn_packet_get_locator a pk =
     (if hicn_packet_is_interest pk then hicn_interest_get_locator a pk
      else if hicn_packet_is_data pk then hicn_data_get_locator a pk
      else Some (HICN_LIB_ERROR_UNEXPECTED, a))"

definition hicn_packet_set_locator :: "hicn_ip_address \<Rightarrow> hicn_packet_buffer \<Rightarrow> (int \<times> hicn_packet_buffer) option" where
  "hicn_packet_set_locator a pk =
     (if hicn_packet_is_interest pk then hicn_interest_set_locator a pk
      else if hicn_packet_is_data pk then hicn_data_set_locator a pk
      else Some (HICN_LIB_ERROR_UNEXPECTED, pk))"

definition hicn_packet_get_signature_size :: "u64 \<Rightarrow> hicn_packet_buffer \<Rightarrow> (int \<times> u64) option" where
  "hicn_packet_get_signature_size old pk = CALL (ah_getter_ops ah_get_signature_size) old pk"

definition hicn_packet_set_signature_size :: "u64 \<Rightarrow> hicn_packet_buffer \<Rightarrow> (int \<times> hicn_packet_buffer) option" where
  "hicn_packet_set_signature_size bytes pk = CALL (ah_setter_ops ah_set_signature_size) bytes pk"

definition hicn_packet_get_signature_padding :: "u64 \<Rightarrow> hicn_packet_buffer \<Rightarrow> (int \<times> u64) option" where
  "hicn_packet_get_signature_padding old pk = CALL (ah_getter_ops ah_get_signature_padding) old pk"

definition hicn_packet_set_signature_padding :: "u64 \<Rightarrow> hicn_packet_buffer \<Rightarrow> (int \<times> hicn_packet_buffer) option" where
  "hicn_packet_set_signature_padding bytes pk = CALL (ah_setter_ops ah_set_signature_padding) bytes pk"

definition hicn_packet_get_signature_timestamp :: "u64 \<Rightarrow> hicn_packet_buffer \<Rightarrow> (int \<times> u64) option" where
  "hicn_packet_get_signature_timestamp old pk = CALL (ah_getter_ops ah_get_signature_timestamp) old pk"

definition hicn_packet_set_signature_timestamp :: "u64 \<Rightarrow> hicn_packet_buffer \<Rightarrow> (int \<times> hicn_packet_buffer) option" where
  "hicn_packet_set_signature_timestamp t pk = CALL (ah_setter_ops ah_set_signature_timestamp) t pk"

definition hicn_packet_get_validation_algorithm :: "u8 \<Rightarrow> hicn_packet_buffer \<Rightarrow> (int \<times> u8) option" where
  "hicn_packet_get_validation_algorithm old pk = CALL (ah_getter_ops ah_get_validation_algorithm) old pk"

definition hicn_packet_set_validation_algorithm :: "u8 \<Rightarrow> hicn_packet_buffer \<Rightarrow> (int \<times> hicn_packet_buffer) option" where
  "hicn_packet_set_validation_algorithm a pk = CALL (ah_setter_ops ah_set_validation_algorithm) a pk"

definition hicn_packet_set_key_id :: "u8 list \<Rightarrow> hicn_packet_buffer \<Rightarrow> (int \<times> hicn_packet_buffer) option" where
  "hicn_packet_set_key_id key_id pk = CALL (ah_setter_ops ah_set_key_id) key_id pk"

definition hicn_packet_get_key_id :: "u8 list \<Rightarrow> hicn_packet_buffer \<Rightarrow> (int \<times> u8 list) option" where
  "hicn_packet_get_key_id old pk = CALL (ah_getter_ops ah_get_key_id) old pk"

definition hicn_packet_get_signature :: "nat \<Rightarrow> hicn_packet_buffer \<Rightarrow> (int \<times> nat) option" where
  "hicn_packet_get_signature old pk = CALL get_signature_ops old pk"

definition hicn_packet_get_lifetime :: "u32 \<Rightarrow> hicn_packet_buffer \<Rightarrow> (int \<times> u32) option" where
  "hicn_packet_get_lifetime old pk = CALL get_lifetime_ops old pk"

definition hicn_packet_set_lifetime :: "u32 \<Rightarrow> hicn_packet_buffer \<Rightarrow> (int \<times> hicn_packet_buffer) option" where
  "hicn_packet_set_lifetime lifetime pk = CALL set_lifetime_ops lifetime pk"

definition hicn_interest_get_lifetime :: "u32 \<Rightarrow> hicn_packet_buffer \<Rightarrow> (int \<times> u32) option" where
  "hicn_interest_get_lifetime old pk = hicn_packet_get_lifetime old pk"

definition hicn_interest_set_lifetime :: "u32 \<Rightarrow> hicn_packet_buffer \<Rightarrow> (int \<times> hicn_packet_buffer) option" where
  "hicn_interest_set_lifetime lifetime pk = hicn_packet_set_lifetime lifetime pk"

definition hicn_data_get_expiry_time :: "u32 \<Rightarrow> hicn_packet_buffer \<Rightarrow> (int \<times> u32) option" where
  "hicn_data_get_expiry_time old pk = hicn_packet_get_lifetime old pk"

definition hicn_data_set_expiry_time :: "u32 \<Rightarrow> hicn_packet_buffer \<Rightarrow> (int \<times> hicn_packet_buffer) option" where
  "hicn_data_set_expiry_time t pk = hicn_packet_set_lifetime t pk"

definition hicn_packet_get_payload_type :: "u32 \<Rightarrow> hicn_packet_buffer \<Rightarrow> (int \<times> u32) option" where
  "hicn_packet_get_payload_type old pk = CALL get_payload_type_ops old pk"

definition hicn_packet_set_payload_type :: "u32 \<Rightarrow> hicn_packet_buffer \<Rightarrow> (int \<times> hicn_packet_buffer) option" where
  "hicn_packet_set_payload_type payload_type pk = CALL set_payload_type_ops payload_type pk"

definition hicn_packet_save_header :: "bool \<Rightarrow> hicn_packet_buffer \<Rightarrow> u8 list option" where
  "hicn_packet_save_header copy_ah pk =
     load (pk_bytes pk) 0 (if copy_ah \<or> \<not> HICN_PACKET_FORMAT_IS_AH (pk_format pk)
       then hicn_packet_get_header_len pk else unat (pk_ah pk))"

definition hicn_packet_load_header :: "u8 list \<Rightarrow> hicn_packet_buffer \<Rightarrow> hicn_packet_buffer option" where
  "hicn_packet_load_header header pk = pk_store_bytes 0 header pk"

definition hicn_interest_reset_for_hash :: "hicn_packet_buffer \<Rightarrow> (int \<times> hicn_packet_buffer) option" where
  "hicn_interest_reset_for_hash pk = CALL reset_interest_for_hash_ops () pk"

definition hicn_data_reset_for_hash :: "hicn_packet_buffer \<Rightarrow> (int \<times> hicn_packet_buffer) option" where
  "hicn_data_reset_for_hash pk = CALL reset_data_for_hash_ops () pk"

definition hicn_data_get_path_label :: "u8 \<Rightarrow> hicn_packet_buffer \<Rightarrow> (int \<times> u8) option" where
  "hicn_data_get_path_label old pk = CALL get_data_path_label_ops old pk"

definition hicn_data_set_path_label :: "u8 \<Rightarrow> hicn_packet_buffer \<Rightarrow> (int \<times> hicn_packet_buffer) option" where
  "hicn_data_set_path_label path_label pk = CALL set_data_path_label_ops path_label pk"

definition hicn_get_path_label :: "u8 \<Rightarrow> hicn_packet_buffer \<Rightarrow> (int \<times> u8) option" where
  "hicn_get_path_label old pk =
     (if \<not> hicn_packet_is_data pk then Some (0, old) else hicn_data_get_path_label old pk)"

definition hicn_data_is_last :: "u32 \<Rightarrow> hicn_packet_buffer \<Rightarrow> (int \<times> u32) option" where
  "hicn_data_is_last old pk = CALL is_last_data_ops old pk"

section \<open>Reading back what was written\<close>

named_theorems pk_simps \<open>loads and stores of header fields\<close>

lemma pk_store_bytes_eq [pk_simps]:
  "off + length bs \<le> length (pk_bytes pk) \<Longrightarrow>
   pk_store_bytes off bs pk = Some (pk\<lparr>pk_bytes := overlay off bs (pk_bytes pk)\<rparr>)"
  by (simp add: pk_store_bytes_def store_def)

lemma pk_store_eq [pk_simps]:
  "off + n \<le> length (pk_bytes pk) \<Longrightarrow>
   pk_store n off w pk = Some (pk\<lparr>pk_bytes := overlay off (word_bytes n w) (pk_bytes pk)\<rparr>)"
  by (simp add: pk_store_def pk_store_bytes_eq)

lemma pk_load_overlay_same [pk_simps]:
  "off + n \<le> length buf \<Longrightarrow> LENGTH('a::len) = 8 * n \<Longrightarrow>
   pk_load n off (pk\<lparr>pk_bytes := overlay off (word_bytes n w) buf\<rparr>) = Some (w :: 'a word)"
  by (simp add: pk_load_def load_overlay_same)

lemma pk_load_overlay_u8 [pk_simps]:
  "off < length buf \<Longrightarrow> pk_load (Suc 0) off (pk\<lparr>pk_bytes := overlay off [b] buf\<rparr>) = Some (b :: u8)"
  by (simp add: pk_load_def load_overlay_same)

lemma pk_load_overlay_other [pk_simps]:
  "off + length bs \<le> length buf \<Longrightarrow> o' + n \<le> off \<or> off + length bs \<le> o' \<Longrightarrow>
   pk_load n o' (pk\<lparr>pk_bytes := overlay off bs buf\<rparr>) = pk_load n o' (pk\<lparr>pk_bytes := buf\<rparr>)"
  by (simp add: pk_load_def load_overlay_other)

lemma pk_bytes_id [simp]: "pk\<lparr>pk_bytes := pk_bytes pk\<rparr> = pk"
  by simp

lemma pk_load_u8:
  "off < length (pk_bytes pk) \<Longrightarrow> (pk_load (Suc 0) off pk :: u8 option) = Some (pk_bytes pk ! off)"
proof -
  assume "off < length (pk_bytes pk)"
  then have "take (Suc 0) (drop off (pk_bytes pk)) = [pk_bytes pk ! off]"
    by (simp add: take_Suc_conv_app_nth)
  then show ?thesis using \<open>off < _\<close> by (simp add: pk_load_def load_def)
qed

lemma pk_update8_eq [pk_simps]:
  "off < length (pk_bytes pk) \<Longrightarrow>
   pk_update8 off f pk = Some (pk\<lparr>pk_bytes := overlay off [f (pk_bytes pk ! off)] (pk_bytes pk)\<rparr>)"
  by (simp add: pk_update8_def pk_load_u8 pk_store_eq)

section \<open>The layer that handles a field\<close>

text \<open>The first layer from a position on that is neither IP nor UDP.\<close>

fun transport_from :: "nat \<Rightarrow> u32 \<Rightarrow> protocol option" where
  "transport_from 0 format = Some P_NONE"
| "transport_from (Suc n) format =
     (case hicn_ops_vft (HICN_PACKET_FORMAT_GET format (3 - n)) of
        None \<Rightarrow> None
      | Some p \<Rightarrow> if p = P_IPV4 \<or> p = P_IPV6 \<or> p = P_UDP then transport_from n format else Some p)"

definition transport :: "hicn_packet_buffer \<Rightarrow> protocol option" where
  "transport pk = transport_from 4 (pk_format pk)"

lemma call_from_getter:
  "call_from (getter_ops t w) n old pk = (case transport_from n (pk_format pk) of
     None \<Rightarrow> None | Some P_TCP \<Rightarrow> t old pk | Some P_NEW \<Rightarrow> w old pk | Some P_NONE \<Rightarrow> Some (0, old)
   | Some _ \<Rightarrow> Some (HICN_LIB_ERROR_UNEXPECTED, old))"
proof (induction n)
  case (Suc n)
  show ?case
  proof (cases "hicn_ops_vft (HICN_PACKET_FORMAT_GET (pk_format pk) (3 - n))")
    case (Some p)
    then show ?thesis using Suc by (cases p) (simp_all add: getter_ops_def)
  qed simp
qed (simp add: getter_ops_def)

lemma call_from_setter:
  "call_from (setter_ops t w) n v pk = (case transport_from n (pk_format pk) of
     None \<Rightarrow> None | Some P_TCP \<Rightarrow> t v pk | Some P_NEW \<Rightarrow> w v pk | Some P_NONE \<Rightarrow> Some (0, pk)
   | Some _ \<Rightarrow> Some (HICN_LIB_ERROR_UNEXPECTED, pk))"
proof (induction n)
  case (Suc n)
  show ?case
  proof (cases "hicn_ops_vft (HICN_PACKET_FORMAT_GET (pk_format pk) (3 - n))")
    case (Some p)
    then show ?thesis using Suc by (cases p) (simp_all add: setter_ops_def)
  qed simp
qed (simp add: setter_ops_def)

definition tcp_fits :: "hicn_packet_buffer \<Rightarrow> bool" where
  "tcp_fits pk \<longleftrightarrow> unat (pk_l4 pk) + TCP_HDRLEN \<le> length (pk_bytes pk)"

definition new_fits :: "hicn_packet_buffer \<Rightarrow> bool" where
  "new_fits pk \<longleftrightarrow> unat (pk_newhdr pk) + NEW_HDRLEN \<le> length (pk_bytes pk)"

section \<open>Lifetime\<close>

lemma unat_shl:
  "unat (w :: 'a::len word) * 2 ^ k < 2 ^ LENGTH('a) \<Longrightarrow> unat (push_bit k w) = unat w * 2 ^ k"
  by (simp add: unsigned_push_bit_eq take_bit_nat_eq_self push_bit_nat_def)

text \<open>What the scaling loop computes: the least number of halvings that makes the
  value fit 16 bits.\<close>

lemma scale_lifetime_correct:
  assumes "unat l < 2 ^ 16 * 2 ^ (16 - unat m)" "unat m \<le> 16"
  shows "\<exists>k. scale_lifetime l m = (drop_bit k l, m + of_nat k) \<and> k \<le> 16 - unat m \<and>
    unat l div 2 ^ k < 2 ^ 16 \<and> (k = 0 \<or> 2 ^ 15 \<le> unat l div 2 ^ k)"
  using assms
proof (induction l m rule: scale_lifetime.induct)
  case (1 l m)
  show ?case
  proof (cases "l > HICN_MAX_LIFETIME_SCALED \<and> m \<le> HICN_MAX_LIFETIME_MULTIPLIER")
    case True
    then have l: "unat l \<ge> 2 ^ 16" and m: "unat m < 16" "unat (m + 1) = unat m + 1"
      by (auto simp: word_less_nat_alt word_le_nat_alt unat_word_ariths)
    have half: "unat (drop_bit 1 l) = unat l div 2" by (simp add: unat_shr)
    have "16 - unat m = Suc (16 - unat (m + 1))" using m by simp
    then have "unat (drop_bit 1 l) < 2 ^ 16 * 2 ^ (16 - unat (m + 1))"
      using "1.prems"(1) half by simp
    then obtain k where k: "scale_lifetime (drop_bit 1 l) (m + 1) = (drop_bit k (drop_bit 1 l), m + 1 + of_nat k)"
      "k \<le> 16 - unat (m + 1)" "unat (drop_bit 1 l) div 2 ^ k < 2 ^ 16"
      "k = 0 \<or> 2 ^ 15 \<le> unat (drop_bit 1 l) div 2 ^ k"
      using "1.IH" [OF True] m by auto
    have dd: "unat l div 2 ^ Suc k = unat (drop_bit 1 l) div 2 ^ k" using half by (simp add: div_mult2_eq)
    have "2 ^ 15 \<le> unat l div 2 ^ Suc k"
      using k(4) l dd half by auto
    then show ?thesis using k True m dd
      by (intro exI [of _ "Suc k"]) (simp add: scale_lifetime.simps [of l m] ac_simps)
  next
    case False
    have "unat l < 2 ^ 16"
    proof (cases "l > HICN_MAX_LIFETIME_SCALED")
      case True
      with False have "unat m \<ge> 16" by (simp add: word_le_nat_alt)
      then show ?thesis using "1.prems" by simp
    qed (simp add: word_less_nat_alt)
    then show ?thesis using False by (auto intro!: exI [of _ 0] simp: scale_lifetime.simps [of l m])
  qed
qed

lemma nth_overlay_other:
  "off + length bs \<le> length buf \<Longrightarrow> i < off \<or> off + length bs \<le> i \<Longrightarrow> i < length buf \<Longrightarrow> overlay off bs buf ! i = buf ! i"
  by (auto simp: nth_overlay)

lemma low_nibble:
  "m < 16 \<Longrightarrow> (d AND - 16 OR m) AND 15 = (m :: u8)"
proof -
  assume "m < 16"
  then have "m = take_bit 4 m" by (simp add: take_bit_eq_mod mod_word_less)
  then have "bit m i \<Longrightarrow> i < 4" for i by (metis bit_take_bit_iff)
  moreover have "bit (15 :: u8) i \<longleftrightarrow> i < 4" for i
  proof -
    have "(15 :: u8) = mask 4" by (simp add: mask_eq_exp_minus_1)
    then have "bit (15 :: u8) i \<longleftrightarrow> bit (mask 4 :: u8) i" by simp
    also have "\<dots> \<longleftrightarrow> i < 4" unfolding bit_mask_iff by auto
    finally show ?thesis .
  qed
  ultimately show ?thesis by (intro bit_eqI) (auto simp: bit_simps)
qed

lemma tcp_lifetime_written:
  assumes "tcp_fits pk" "m < 16"
  shows "\<exists>pk'. do { pk \<leftarrow> hton 2 (pkbuf_get_tcp pk + TCP_URG_PTR) (s :: u16) pk;
      pk \<leftarrow> pk_update8 (pkbuf_get_tcp pk + TCP_DATA_OFFSET) (\<lambda>d. (d AND NOT 0x0F) OR m) pk;
      Some (HICN_LIB_ERROR_NONE, pk) } = Some (0, pk') \<and>
    pk_format pk' = pk_format pk \<and> tcp_get_lifetime old pk' = Some (0, push_bit (unat m) (ucast s))"
  using assms
  by (simp add: tcp_fits_def hton_def ntoh_def tcp_get_lifetime_def pk_simps nth_overlay_other low_nibble)

lemma scale_lifetime_bounds:
  assumes "unat l < 2 ^ 16 * 2 ^ 15"
  shows "\<exists>k<16. \<exists>v. scale_lifetime l 0 = (drop_bit k l, of_nat k) \<and>
    v = push_bit k (ucast (ucast (drop_bit k l) :: u16)) \<and>
    v \<le> l \<and> unat l - unat v \<le> unat l div 2 ^ 15 \<and> (l \<le> 0xFFFF \<longrightarrow> v = l)"
proof -
  obtain k where k: "scale_lifetime l 0 = (drop_bit k l, of_nat k)" "k \<le> 16"
    "unat l div 2 ^ k < 2 ^ 16" "k = 0 \<or> 2 ^ 15 \<le> unat l div 2 ^ k"
    using scale_lifetime_correct [of l 0] assms by auto
  have big: "2 ^ k * 2 ^ 15 \<le> unat l" "(2 :: nat) \<le> 2 ^ k" if "k \<noteq> 0"
  proof -
    show "2 ^ k * 2 ^ 15 \<le> unat l"
      using k(4) that by (metis div_times_less_eq_dividend le_trans mult.commute mult_le_mono1)
    show "(2 :: nat) \<le> 2 ^ k" using that by (cases k) auto
  qed
  have k15: "k < 16" using big assms k(2) by (cases "k = 16") auto
  let ?v = "push_bit k (ucast (ucast (drop_bit k l) :: u16)) :: u32"
  have s: "unat (ucast (ucast (drop_bit k l) :: u16) :: u32) = unat l div 2 ^ k"
    using k(3) by (simp add: unat_shr unsigned_ucast_eq unsigned_take_bit_eq take_bit_nat_eq_self)
  have dm: "unat l div 2 ^ k * 2 ^ k + unat l mod 2 ^ k = unat l" by (rule div_mult_mod_eq)
  have v: "unat ?v = unat l div 2 ^ k * 2 ^ k"
    using unat_shl [of "ucast (ucast (drop_bit k l) :: u16) :: u32" k] s dm assms by simp
  have "unat l mod 2 ^ k \<le> unat l div 2 ^ 15"
  proof (cases "k = 0")
    case False
    then have "2 ^ k \<le> unat l div 2 ^ 15" using big by (simp add: less_eq_div_iff_mult_less_eq)
    moreover have "unat l mod 2 ^ k < 2 ^ k" by simp
    ultimately show ?thesis by linarith
  qed simp
  moreover have "?v = l" if "l \<le> 0xFFFF"
    using that big v by (cases "k = 0") (auto simp: word_le_nat_alt word_unat_eq_iff)
  moreover have "?v \<le> l" using v dm by (metis le_add1 word_le_nat_alt)
  ultimately show ?thesis using k(1) k15 v dm by (intro exI [of _ k] conjI exI [of _ ?v]) auto
qed

lemma tcp_lifetime_roundtrip:
  assumes "tcp_fits pk"
  shows "\<exists>pk' v. tcp_set_lifetime l pk = Some (0, pk') \<and> pk_format pk' = pk_format pk \<and>
    tcp_get_lifetime old pk' = Some (0, v) \<and>
    (if HICN_MAX_LIFETIME \<le> l then v = HICN_MAX_LIFETIME
     else v \<le> l \<and> unat l - unat v \<le> unat l div 2 ^ 15) \<and> (l \<le> 0xFFFF \<longrightarrow> v = l)"
proof (cases "HICN_MAX_LIFETIME \<le> l")
  case True
  have "\<not> l \<le> 0xFFFF" using True by (auto simp: HICN_MAX_LIFETIME_def word_le_nat_alt push_bit_eq_mult)
  with True tcp_lifetime_written [OF assms, of "HICN_MAX_LIFETIME_MULTIPLIER" "ucast HICN_MAX_LIFETIME_SCALED" old]
  show ?thesis by (auto simp: tcp_set_lifetime_def HICN_MAX_LIFETIME_def)
next
  case False
  then have "unat l < 2 ^ 16 * 2 ^ 15" by (simp add: HICN_MAX_LIFETIME_def word_le_nat_alt push_bit_eq_mult)
  then obtain k v where k: "k < 16" "scale_lifetime l 0 = (drop_bit k l, of_nat k)"
    "v = push_bit k (ucast (ucast (drop_bit k l) :: u16))"
    "v \<le> l" "unat l - unat v \<le> unat l div 2 ^ 15" "l \<le> 0xFFFF \<longrightarrow> v = l"
    using scale_lifetime_bounds [of l] by blast
  have mk: "unat (of_nat k :: u8) = k" using k(1) by (simp add: unat_of_nat)
  with tcp_lifetime_written [OF assms, of "of_nat k" "ucast (drop_bit k l)" old] False k
  show ?thesis by (auto simp: tcp_set_lifetime_def word_less_nat_alt)
qed

lemma new_lifetime_roundtrip:
  "new_fits pk \<Longrightarrow> \<exists>pk'. new_set_lifetime l pk = Some (0, pk') \<and> pk_format pk' = pk_format pk \<and>
     new_get_lifetime old pk' = Some (0, l)"
  by (simp add: new_fits_def new_set_lifetime_def new_get_lifetime_def hton_def ntoh_def pk_simps)

section \<open>Names\<close>

lemma pk_load_address_overlay [pk_simps]:
  assumes "off + 16 \<le> length buf"
  shows "pk_load_address off (pk\<lparr>pk_bytes := overlay off (address_bytes a) buf\<rparr>) = Some a"
proof -
  have "load (overlay off (address_bytes a) buf) off 8 = Some (word_bytes 8 (u64_0 a))"
    "load (overlay off (address_bytes a) buf) (off + 8) 8 = Some (word_bytes 8 (u64_1 a))"
    using assms by (auto simp: load_def overlay_def address_bytes_def)
  then show ?thesis by (simp add: pk_load_address_def pk_load_def)
qed

lemma pk_load_address_other [pk_simps]:
  "off + length bs \<le> length buf \<Longrightarrow> o' + 16 \<le> off \<or> off + length bs \<le> o' \<Longrightarrow>
   pk_load_address o' (pk\<lparr>pk_bytes := overlay off bs buf\<rparr>) = pk_load_address o' (pk\<lparr>pk_bytes := buf\<rparr>)"
  unfolding pk_load_address_def by (auto simp: pk_load_overlay_other)

lemma length_address_bytes [simp]: "length (address_bytes a) = 16"
  by (simp add: address_bytes_def)

lemma v4_set_v4 [simp]: "v4_as_u32 (set_v4 a v) = v"
  by (rule bit_word_eqI) (auto simp: v4_as_u32_def set_v4_def bit_simps)

lemma CALL_unfold:
  "CALL ops a pk = do { p \<leftarrow> hicn_ops_vft (HICN_PACKET_FORMAT_GET (pk_format pk) 0); ops p 0 (call_from ops 3) a pk }"
  by (simp add: CALL_def numeral_eq_Suc)

text \<open>A packet whose name can be set and read: an IP packet over TCP, or a packet of
  the new format.\<close>

definition ipv6_tcp :: "hicn_packet_buffer \<Rightarrow> bool" where
  "ipv6_tcp pk \<longleftrightarrow> HICN_PACKET_FORMAT_GET (pk_format pk) 0 = IPPROTO_IPV6 \<and>
     transport_from 3 (pk_format pk) = Some P_TCP \<and> IPV6_HDRLEN \<le> unat (pk_l4 pk) \<and> tcp_fits pk"

definition ipv4_tcp :: "hicn_packet_buffer \<Rightarrow> bool" where
  "ipv4_tcp pk \<longleftrightarrow> HICN_PACKET_FORMAT_GET (pk_format pk) 0 = IPPROTO_IP \<and>
     transport_from 3 (pk_format pk) = Some P_TCP \<and> IPV4_HDRLEN \<le> unat (pk_l4 pk) \<and> tcp_fits pk"

definition new_packet :: "hicn_packet_buffer \<Rightarrow> bool" where
  "new_packet pk \<longleftrightarrow> HICN_PACKET_FORMAT_GET (pk_format pk) 0 = IPPROTO_ENCAP \<and> new_fits pk"

lemmas name_defs =
  hicn_interest_set_name_def hicn_interest_get_name_def hicn_data_set_name_def hicn_data_get_name_def
  set_interest_name_ops_def get_interest_name_ops_def set_data_name_ops_def get_data_name_ops_def
  name_setter_ops_def name_getter_ops_def
  set_interest_name_suffix_ops_def get_interest_name_suffix_ops_def
  set_data_name_suffix_ops_def get_data_name_suffix_ops_def

lemmas ip_name_defs =
  ipv6_set_interest_name_def ipv6_get_interest_name_def ipv6_set_data_name_def ipv6_get_data_name_def
  ipv4_set_interest_name_def ipv4_get_interest_name_def ipv4_set_data_name_def ipv4_get_data_name_def
  ipv6_set_name_def ipv6_get_name_def ipv4_set_name_def ipv4_get_name_def

lemmas tcp_name_defs =
  tcp_set_interest_name_suffix_def tcp_get_interest_name_suffix_def
  tcp_set_data_name_suffix_def tcp_get_data_name_suffix_def tcp_set_type_def check_error_def
  hton_def ntoh_def pk_store_address_def

lemma ipv6_tcp_name:
  assumes "ipv6_tcp pk"
  shows "\<exists>pk'. hicn_interest_set_name name pk = Some (0, pk') \<and> pk_type pk' = pk_type pk \<and>
      hicn_interest_get_name old pk' = Some (0, name)"
    "\<exists>pk'. hicn_data_set_name name pk = Some (0, pk') \<and> pk_type pk' = pk_type pk \<and>
      hicn_data_get_name old pk' = Some (0, name)"
  using assms
  by (simp_all add: name_defs ip_name_defs tcp_name_defs CALL_unfold call_from_setter call_from_getter
      ipv6_tcp_def tcp_fits_def hicn_ops_vft_def pk_simps)

lemma ipv4_tcp_name:
  assumes "ipv4_tcp pk"
  shows "\<exists>pk'. hicn_interest_set_name name pk = Some (0, pk') \<and> pk_type pk' = pk_type pk \<and>
      hicn_interest_get_name old pk' =
        Some (0, name\<lparr>name_prefix := set_v4 (name_prefix old) (v4_as_u32 (name_prefix name))\<rparr>)"
    "\<exists>pk'. hicn_data_set_name name pk = Some (0, pk') \<and> pk_type pk' = pk_type pk \<and>
      hicn_data_get_name old pk' =
        Some (0, name\<lparr>name_prefix := set_v4 (name_prefix old) (v4_as_u32 (name_prefix name))\<rparr>)"
  using assms
  by (simp_all add: name_defs ip_name_defs tcp_name_defs CALL_unfold call_from_setter call_from_getter
      ipv4_tcp_def tcp_fits_def hicn_ops_vft_def pk_simps)

lemma flag_int [simp]: "(x OR 4) AND 4 = (4 :: u8)" "(x AND - 5) AND 4 = (0 :: u8)"
proof -
  show "(x OR 4) AND 4 = (4 :: u8)" by (rule bit_eqI) (auto simp: bit_simps)
  have "- 5 = (NOT 4 :: u8)" by simp
  then show "(x AND - 5) AND 4 = (0 :: u8)" by (intro bit_eqI) (auto simp: bit_simps)
qed

lemma new_packet_name:
  assumes "new_packet pk"
  shows "\<exists>pk'. hicn_interest_set_name name pk = Some (0, pk') \<and> pk_type pk' = pk_type pk \<and>
      hicn_interest_get_name old pk' = Some (0, name)"
    "\<exists>pk'. hicn_data_set_name name pk = Some (0, pk') \<and> pk_type pk' = pk_type pk \<and>
      hicn_data_get_name old pk' = Some (0, name)"
  using assms
  by (simp_all add: name_defs new_set_interest_name_def new_get_interest_name_def new_set_data_name_def
      new_get_data_name_def new_set_type_def new_get_type_def new_assert_type_def assert_that_def tcp_name_defs
      CALL_unfold new_packet_def new_fits_def hicn_ops_vft_def pk_simps)

section \<open>Path label\<close>

lemma tcp_set_data_path_label_eq:
  "tcp_fits pk \<Longrightarrow> tcp_set_data_path_label pos l pk =
     Some (0, pk\<lparr>pk_bytes := overlay (unat (pk_l4 pk) + 8) (word_bytes 4 (push_bit 24 (ucast l) :: u32)) (pk_bytes pk)\<rparr>)"
  by (simp add: tcp_fits_def tcp_set_data_path_label_def tcp_get_data_path_label_def pk_load_def load_def
      tcp_update_checksums_incremental_def pk_simps)

lemma call_from_set_path_label:
  assumes "transport_from n (pk_format pk) = Some P_TCP" "tcp_fits pk"
  shows "call_from set_data_path_label_ops n l pk = tcp_set_data_path_label 0 l pk"
  using assms(1)
proof (induction n)
  case (Suc n)
  then show ?case
    by (auto simp: set_data_path_label_ops_def setter_ops_def tcp_set_data_path_label_eq [OF assms(2)]
        split: option.splits if_splits protocol.splits)
qed simp

lemma tcp_path_label:
  assumes "transport pk = Some P_TCP" "tcp_fits pk"
  shows "\<exists>pk'. hicn_data_set_path_label l pk = Some (0, pk') \<and> hicn_data_get_path_label old pk' = Some (0, l)"
proof -
  have "ucast (drop_bit 24 (push_bit 24 (ucast l) :: u32)) = l"
    by (rule bit_word_eqI) (auto simp: bit_simps)
  then show ?thesis using assms
    by (simp add: hicn_data_set_path_label_def hicn_data_get_path_label_def CALL_def transport_def
        call_from_set_path_label tcp_set_data_path_label_eq get_data_path_label_ops_def call_from_getter
        tcp_get_data_path_label_def tcp_fits_def pk_simps)
qed

section \<open>Signature\<close>

fun reaches_ah :: "nat \<Rightarrow> u32 \<Rightarrow> bool" where
  "reaches_ah 0 format \<longleftrightarrow> False"
| "reaches_ah (Suc n) format \<longleftrightarrow> (case hicn_ops_vft (HICN_PACKET_FORMAT_GET format (3 - n)) of
     None \<Rightarrow> False | Some p \<Rightarrow> p = P_AH \<or> p \<noteq> P_NONE \<and> reaches_ah n format)"

lemma call_from_ah_getter: "reaches_ah n (pk_format pk) \<Longrightarrow> call_from (ah_getter_ops g) n old pk = g old pk"
proof (induction n)
  case (Suc n)
  then show ?case by (auto simp: ah_getter_ops_def split: option.splits protocol.splits)
qed simp

lemma call_from_ah_setter: "reaches_ah n (pk_format pk) \<Longrightarrow> call_from (ah_setter_ops f) n v pk = f v pk"
proof (induction n)
  case (Suc n)
  then show ?case by (auto simp: ah_setter_ops_def split: option.splits protocol.splits)
qed simp

definition signed_packet :: "hicn_packet_buffer \<Rightarrow> bool" where
  "signed_packet pk \<longleftrightarrow> reaches_ah 4 (pk_format pk) \<and> unat (pk_ah pk) + AH_HDRLEN \<le> length (pk_bytes pk)"

lemma size_in_words: "m div 4 mod 256 * 4 = m \<longleftrightarrow> m mod 4 = 0 \<and> m < (1024 :: nat)"
proof
  assume eq: "m div 4 mod 256 * 4 = m"
  have "m div 4 mod 256 < 256" by simp
  then have "m div 4 mod 256 * 4 < 1024" by linarith
  moreover have "(m div 4 mod 256 * 4) mod 4 = 0" by simp
  ultimately show "m mod 4 = 0 \<and> m < 1024" unfolding eq by simp
next
  assume "m mod 4 = 0 \<and> m < 1024"
  then show "m div 4 mod 256 * 4 = m" by (auto simp: div_less_iff_less_mult)
qed

lemma signature_size_stored:
  "push_bit 2 (ucast (ucast (drop_bit 2 n) :: u8)) = (n :: u64) \<longleftrightarrow> unat n mod 4 = 0 \<and> unat n < 1024"
proof -
  have "unat (take_bit 8 (drop_bit 2 n)) = take_bit 8 (unat n div 4)"
    unfolding unsigned_take_bit_eq by (simp add: unat_shr)
  moreover have "(ucast (ucast (drop_bit 2 n) :: u8) :: u64) = take_bit 8 (drop_bit 2 n)"
    by (rule bit_word_eqI) (auto simp: bit_simps)
  moreover have "take_bit 8 (unat n div 4) = unat n div 4 mod 256" by (simp add: take_bit_nat_def)
  ultimately have u: "unat (ucast (ucast (drop_bit 2 n) :: u8) :: u64) = unat n div 4 mod 256" by metis
  have lt: "unat n div 4 mod 256 < 256" by simp
  then have "unat (push_bit 2 (ucast (ucast (drop_bit 2 n) :: u8)) :: u64) = (unat n div 4 mod 256) * 4"
    using unat_shl [of "ucast (ucast (drop_bit 2 n) :: u8) :: u64" 2] u by simp
  then have "push_bit 2 (ucast (ucast (drop_bit 2 n) :: u8)) = n \<longleftrightarrow> unat n div 4 mod 256 * 4 = unat n"
    by (simp add: word_unat_eq_iff)
  also have "\<dots> \<longleftrightarrow> unat n mod 4 = 0 \<and> unat n < 1024" by (rule size_in_words)
  finally show ?thesis .
qed

lemma signature_fields:
  assumes "signed_packet pk"
  shows "\<exists>pk'. hicn_packet_set_signature_size n pk = Some (0, pk') \<and>
      hicn_packet_get_signature_size o1 pk' = Some (0, push_bit 2 (ucast (ucast (drop_bit 2 n) :: u8)))"
    "\<exists>pk'. hicn_packet_set_signature_timestamp t pk = Some (0, pk') \<and>
      hicn_packet_get_signature_timestamp o1 pk' = Some (0, t)"
    "\<exists>pk'. hicn_packet_set_validation_algorithm a pk = Some (0, pk') \<and>
      hicn_packet_get_validation_algorithm o2 pk' = Some (0, a)"
    "length k = 32 \<Longrightarrow> \<exists>pk'. hicn_packet_set_key_id k pk = Some (0, pk') \<and>
      hicn_packet_get_key_id o3 pk' = Some (0, k)"
  using assms
  by (simp_all add: signed_packet_def CALL_def call_from_ah_getter call_from_ah_setter
      hicn_packet_set_signature_size_def hicn_packet_get_signature_size_def
      hicn_packet_set_signature_timestamp_def hicn_packet_get_signature_timestamp_def
      hicn_packet_set_validation_algorithm_def hicn_packet_get_validation_algorithm_def
      hicn_packet_set_key_id_def hicn_packet_get_key_id_def
      ah_set_signature_size_def ah_get_signature_size_def ah_set_signature_timestamp_def
      ah_get_signature_timestamp_def ah_set_validation_algorithm_def ah_get_validation_algorithm_def
      ah_set_key_id_def ah_get_key_id_def hton_def ntoh_def load_overlay_same pk_simps)

section \<open>The IPv4 header checksum\<close>

text \<open>The folded sum as a number: the representative of the sum modulo 65535.\<close>

definition ones_fold :: "nat \<Rightarrow> nat" where
  "ones_fold n = (let f = n div 65536 + n mod 65536 in (f + f div 65536) mod 65536)"

lemma ones_fold_eq:
  assumes "n < 2 ^ 32"
  shows "ones_fold n \<le> 65535" "ones_fold n mod 65535 = n mod 65535" "n > 0 \<Longrightarrow> ones_fold n > 0"
proof -
  define q where "q = n div 65536"
  define r where "r = n mod 65536"
  have n: "n = 65536 * q + r" by (simp add: q_def r_def)
  have r: "r < 65536" by (simp add: r_def)
  have q: "q < 65536" using assms by (simp add: q_def div_less_iff_less_mult)
  have f: "ones_fold n = (if q + r < 65536 then q + r else q + r - 65535)"
  proof (cases "q + r < 65536")
    case False
    then have "(q + r) div 65536 = 1" using q r by (intro div_nat_eqI) auto
    moreover have "(q + r + 1) mod 65536 = q + r - 65535"
      using False q r le_mod_geq [of 65536 "q + r + 1"] by simp
    ultimately show ?thesis using False by (simp add: ones_fold_def Let_def q_def [symmetric] r_def [symmetric])
  qed (simp add: ones_fold_def Let_def q_def [symmetric] r_def [symmetric])
  show "ones_fold n \<le> 65535" using f q r by (simp add: le_diff_conv)
  have "n = 65535 * q + (q + r)" using n by simp
  then have m: "n mod 65535 = (q + r) mod 65535" by (metis mod_mult_self4)
  have "(q + r - 65535) mod 65535 = (q + r) mod 65535" if "\<not> q + r < 65536"
    using that le_mod_geq [of 65535 "q + r"] by simp
  then show "ones_fold n mod 65535 = n mod 65535" using f m by simp
  show "ones_fold n > 0" if "n > 0" using f n that by (auto split: if_splits)
qed

lemma ones_fold_complement:
  assumes "n + 65535 < 2 ^ 32"
  shows "ones_fold (n + (65535 - ones_fold n)) = 65535"
proof -
  let ?r = "ones_fold n"
  have r: "?r \<le> 65535" "?r mod 65535 = n mod 65535" using ones_fold_eq [of n] assms by simp_all
  let ?m = "n + (65535 - ?r)"
  have lt: "?m < 2 ^ 32" using assms r by simp
  have "(?m + ?r) mod 65535 = (n + 65535) mod 65535" using r by simp
  moreover have "(?m + n) mod 65535 = (?m + ?r) mod 65535" by (rule mod_add_cong) (use r(2) in simp_all)
  ultimately have "(?m + n) mod 65535 = n mod 65535" by (simp only: mod_add_self2)
  then have "?m mod 65535 = 0" using mod_eq_dvd_iff_nat [of n "?m + n" 65535] by simp
  then have "ones_fold ?m mod 65535 = 0" using ones_fold_eq [OF lt] by simp
  moreover have "?m > 0"
  proof (cases "n = 0")
    case True
    then show ?thesis using r by (simp add: ones_fold_def)
  qed simp
  ultimately show ?thesis using ones_fold_eq [OF lt] by (metis dvd_imp_le le_antisym mod_eq_0_iff_dvd)
qed

lemma csum_sum_append: "even (length xs) \<Longrightarrow> csum_sum (xs @ ys) acc = csum_sum ys (csum_sum xs acc)"
  by (induction xs acc rule: csum_sum.induct) auto

lemma csum_sum_add: "csum_sum xs (a + b) = csum_sum xs a + b"
  by (induction xs a rule: csum_sum.induct) (auto simp: ac_simps)

lemma csum_sum_replace:
  "even (length xs) \<Longrightarrow> csum_sum (xs @ word_bytes 2 (c :: u16) @ ys) 0 = csum_sum (xs @ [0, 0] @ ys) 0 + ucast c"
proof -
  assume e: "even (length xs)"
  have w: "ucast (ucast c :: u8) OR push_bit 8 (ucast (ucast (drop_bit 8 c) :: u8)) = (ucast c :: u32)"
  proof (rule bit_word_eqI)
    fix i assume "i < LENGTH(32)"
    moreover have "i < 16" if "bit c i" using that bit_imp_le_length [of c i] by simp
    ultimately show "bit (ucast (ucast c :: u8) OR push_bit 8 (ucast (ucast (drop_bit 8 c) :: u8)) :: u32) i = bit (ucast c :: u32) i"
      by (cases "i < 8") (auto simp: bit_simps)
  qed
  have "csum_sum (word_bytes 2 c @ ys) a = csum_sum ys (a + ucast c)" for a
    using w by (simp add: numeral_2_eq_2)
  then show ?thesis using e csum_sum_add [of ys "csum_sum xs 0" "ucast c"] by (simp add: csum_sum_append)
qed

lemma csum_sum_bound:
  "unat acc + 65536 * length xs < 2 ^ 32 \<Longrightarrow> unat (csum_sum xs acc) \<le> unat acc + 65536 * length xs"
proof (induction xs acc rule: csum_sum.induct)
  case (2 b acc)
  have "unat (ucast b :: u32) < 256" using unsigned_less [of b, where ?'a = nat] by (simp add: unsigned_ucast_eq take_bit_nat_eq_self)
  then show ?case using 2 by (simp add: unat_word_ariths)
next
  case (3 b c bs acc)
  define w :: u32 where "w = ucast b OR push_bit 8 (ucast c)"
  have "w = take_bit 16 w"
    unfolding w_def by (rule bit_word_eqI) (auto simp: bit_simps dest: bit_imp_le_length)
  then have "unat w = unat (take_bit 16 w)" by simp
  also have "\<dots> = take_bit 16 (unat w)" by (rule unsigned_take_bit_eq)
  also have "\<dots> < 2 ^ 16" by (rule take_bit_nat_less_exp)
  finally have w: "unat w < 65536" by simp
  then have s: "unat (acc + w) = unat acc + unat w" using "3.prems" by (simp add: unat_word_ariths)
  have "unat (acc + w) + 65536 * length bs < 2 ^ 32" using "3.prems" w s by simp
  from "3.IH" [folded w_def, OF this] have "unat (csum_sum bs (acc + w)) \<le> unat acc + unat w + 65536 * length bs"
    using s by simp
  then show ?case using w by (simp add: w_def)
qed simp


lemma csum_zero_iff:
  assumes "unat (csum_sum bs 0) < 2 ^ 32 - 65536"
  shows "unat (csum bs 0) = 65535 - ones_fold (unat (csum_sum bs 0))"
proof -
  define s where "s = csum_sum bs 0"
  have lo: "unat (s AND 0xFFFF) = unat s mod 65536"
  proof -
    have "s AND 0xFFFF = take_bit 16 s" by (simp add: take_bit_eq_mask mask_eq_exp_minus_1)
    then have "unat (s AND 0xFFFF) = take_bit 16 (unat s)" by (simp only: unsigned_take_bit_eq)
    then show ?thesis by (simp add: take_bit_nat_def)
  qed
  have hi: "unat (drop_bit 16 s) = unat s div 65536" by (simp add: unat_shr)
  define f where "f = drop_bit 16 s + (s AND 0xFFFF)"
  have "unat s div 65536 < 65536" "unat s mod 65536 < 65536" using assms by (simp_all add: s_def div_less_iff_less_mult)
  then have f: "unat f = unat s div 65536 + unat s mod 65536" "unat f < 131072"
    using lo hi by (simp_all add: f_def unat_word_ariths)
  then have f2: "unat (f + drop_bit 16 f) = unat f + unat f div 65536" by (simp add: unat_shr unat_word_ariths)
  have "unat (ucast (f + drop_bit 16 f) :: u16) = take_bit 16 (unat (f + drop_bit 16 f))"
    by (simp add: unsigned_ucast_eq)
  then have u: "unat (ucast (f + drop_bit 16 f) :: u16) = ones_fold (unat s)"
    using f f2 by (simp add: ones_fold_def Let_def take_bit_nat_def)
  have "csum bs 0 = NOT (ucast (f + drop_bit 16 f))"
    unfolding csum_def Let_def by (rule bit_word_eqI) (auto simp: bit_simps s_def f_def)
  moreover have "unat (NOT w) = 65535 - unat w" for w :: u16
  proof -
    have "NOT w = (- 1) - w" by (simp add: not_eq_complement)
    then show ?thesis using unat_sub [of w "- 1"] by (simp add: unsigned_minus_1_eq_mask mask_eq_exp_minus_1)
  qed
  ultimately show ?thesis using u by (simp add: s_def)
qed

lemma csum_self_check:
  assumes "even (length xs)" "length xs + length ys \<le> 1000"
  shows "csum (xs @ word_bytes 2 (csum (xs @ [0, 0] @ ys) 0) @ ys) 0 = 0"
proof -
  let ?z = "xs @ [0, 0] @ ys"
  let ?c = "csum ?z 0"
  let ?n = "unat (csum_sum ?z 0)"
  have n: "?n \<le> 65536 * (length xs + length ys + 2)" using csum_sum_bound [of 0 ?z] assms(2) by simp
  then have small: "?n < 2 ^ 32 - 65536 - 65536" using assms(2) by simp
  have c: "unat ?c = 65535 - ones_fold ?n" using csum_zero_iff [of ?z] small by simp
  have r: "csum_sum (xs @ word_bytes 2 ?c @ ys) 0 = csum_sum ?z 0 + ucast ?c" by (rule csum_sum_replace [OF assms(1)])
  have uc: "unat (ucast ?c :: u32) = unat ?c"
    using unsigned_less [of ?c, where ?'a = nat] by (simp add: unsigned_ucast_eq take_bit_nat_eq_self)
  have "unat (csum_sum ?z 0 + ucast ?c) = ?n + (65535 - ones_fold ?n)"
    using small c uc by (simp add: unat_word_ariths)
  moreover have "ones_fold (?n + (65535 - ones_fold ?n)) = 65535" using small by (intro ones_fold_complement) simp
  moreover have "?n + (65535 - ones_fold ?n) < 2 ^ 32 - 65536" using small by simp
  ultimately have "unat (csum (xs @ word_bytes 2 ?c @ ys) 0) = 0"
    using csum_zero_iff [of "xs @ word_bytes 2 ?c @ ys"] r by simp
  then show ?thesis by (simp add: unat_eq_zero)
qed

lemma format_ipv4_udp:
  "HICN_PACKET_FORMAT_GET HICN_PACKET_FORMAT_IPV4_UDP 0 = IPPROTO_IP"
  "HICN_PACKET_FORMAT_GET HICN_PACKET_FORMAT_IPV4_UDP 1 = IPPROTO_UDP"
  "HICN_PACKET_FORMAT_GET HICN_PACKET_FORMAT_IPV4_UDP 2 = IPPROTO_ENCAP"
  by (simp_all add: HICN_PACKET_FORMAT_IPV4_UDP_def HICN_PACKET_FORMAT_def HICN_PACKET_FORMAT_GET_def)

lemma load_overlay_header:
  "20 \<le> length B \<Longrightarrow> length bs = 2 \<Longrightarrow> load (overlay 10 bs B) 0 20 = Some (take 10 B @ bs @ take 8 (drop 12 B))"
  by (simp add: load_def overlay_def min_def)

lemma overlay_twice: "off + length bs \<le> length B \<Longrightarrow> length bs' = length bs \<Longrightarrow> overlay off bs (overlay off bs' B) = overlay off bs B"
  by (rule nth_equalityI) (auto simp: nth_overlay)

lemma call_from_unfold:
  "call_from ops 3 a pk = do { p \<leftarrow> hicn_ops_vft (HICN_PACKET_FORMAT_GET (pk_format pk) 1); ops p 1 (call_from ops 2) a pk }"
  "call_from ops 2 a pk = do { p \<leftarrow> hicn_ops_vft (HICN_PACKET_FORMAT_GET (pk_format pk) 2); ops p 2 (call_from ops 1) a pk }"
  "call_from ops 1 a pk = do { p \<leftarrow> hicn_ops_vft (HICN_PACKET_FORMAT_GET (pk_format pk) 3); ops p 3 (call_from ops 0) a pk }"
  by (simp_all add: numeral_eq_Suc)

lemma ipv4_layers_below:
  assumes "pk_format pk = HICN_PACKET_FORMAT_IPV4_UDP"
  shows "call_from update_checksums_ops 3 a pk = Some (0, pk)" "call_from verify_checksums_ops 3 a pk = Some 0"
  using assms by (simp_all add: call_from_unfold format_ipv4_udp format_ipv4_udp(2) [unfolded One_nat_def] hicn_ops_vft_def update_checksums_ops_def verify_checksums_ops_def)

lemma ipv4_checksum:
  assumes "pk_format pk = HICN_PACKET_FORMAT_IPV4_UDP" "20 \<le> length (pk_bytes pk)"
  shows "\<exists>pk'. hicn_packet_compute_header_checksum i pk = Some (0, pk') \<and>
    hicn_packet_check_integrity_no_payload j pk' = Some 0"
proof -
  let ?B = "pk_bytes pk"
  define c where "c = csum (take 10 ?B @ [0, 0] @ take 8 (drop 12 ?B)) 0"
  define B' where "B' = overlay 10 (word_bytes 2 c) ?B"
  have "word_bytes 2 (0 :: u16) = [0, 0]" by (simp add: numeral_2_eq_2)
  then have zero: "load (overlay 10 (word_bytes 2 (0 :: u16)) ?B) 0 20 = Some (take 10 ?B @ [0, 0] @ take 8 (drop 12 ?B))"
    using assms(2) load_overlay_header [of ?B "[0, 0]"] by simp
  have "csum (take 10 ?B @ word_bytes 2 c @ take 8 (drop 12 ?B)) 0 = 0"
    unfolding c_def by (rule csum_self_check) (use assms(2) in auto)
  then have check: "load B' 0 20 = Some hdr \<Longrightarrow> csum hdr 0 = 0" for hdr
    using assms(2) load_overlay_header [of ?B "word_bytes 2 c"] by (simp add: B'_def)
  have len: "length B' = length ?B" using assms(2) by (simp add: B'_def)
  have "hicn_packet_compute_header_checksum i pk = Some (0, pk\<lparr>pk_bytes := B'\<rparr>)"
    using assms zero
    by (simp add: hicn_packet_compute_header_checksum_def CALL_unfold format_ipv4_udp hicn_ops_vft_def
        update_checksums_ops_def ipv4_update_checksums_def pk_csum_def ipv4_layers_below pk_simps
        overlay_twice c_def B'_def ipv4_get_payload_len_def ipv4_pseudo_header_def
        ntoh_def pk_load_def load_Some Let_def)
  moreover have "hicn_packet_check_integrity_no_payload j (pk\<lparr>pk_bytes := B'\<rparr>) = Some 0"
    using assms check len
    by (simp add: hicn_packet_check_integrity_no_payload_def CALL_unfold format_ipv4_udp hicn_ops_vft_def
        verify_checksums_ops_def ipv4_verify_checksums_def pk_csum_def ipv4_layers_below
        ipv4_get_payload_len_def ipv4_pseudo_header_def ntoh_def pk_load_def load_Some Let_def)
  ultimately show ?thesis by blast
qed

section \<open>Analysis of a packet\<close>

lemma bit_ones: "bit (255 :: int) n \<longleftrightarrow> n < 8" "bit (0xFFFFFFFF :: int) n \<longleftrightarrow> n < 32"
proof -
  have "(255 :: int) = mask 8" "(0xFFFFFFFF :: int) = mask 32" by (simp_all add: mask_eq_exp_minus_1)
  then have "bit (255 :: int) n \<longleftrightarrow> bit (mask 8 :: int) n" "bit (0xFFFFFFFF :: int) n \<longleftrightarrow> bit (mask 32 :: int) n"
    by simp_all
  then show "bit (255 :: int) n \<longleftrightarrow> n < 8" "bit (0xFFFFFFFF :: int) n \<longleftrightarrow> n < 32"
    unfolding bit_mask_iff by auto
qed

lemma FORMAT_GET_bits: "i \<le> 3 \<Longrightarrow> HICN_PACKET_FORMAT_GET f i = ucast (drop_bit ((3 - i) * 8) f)"
  by (simp add: HICN_PACKET_FORMAT_GET_def) (rule bit_word_eqI, auto simp: bit_simps bit_ones)

lemma FORMAT_GET_SET:
  assumes "i \<le> 3" "j \<le> 3"
  shows "HICN_PACKET_FORMAT_GET (HICN_PACKET_FORMAT_SET f i v) j = (if i = j then v else HICN_PACKET_FORMAT_GET f j)"
proof (rule bit_word_eqI)
  fix n assume n: "n < LENGTH(8)"
  define a where "a = 3 - i"
  define b where "b = 3 - j"
  have ab: "a = b \<longleftrightarrow> i = j" "b * 8 + n < 32" using assms n by (auto simp: a_def b_def)
  have v: "k < 8" if "bit v k" for k using that bit_imp_le_length [of v k] by simp
  have set: "bit (HICN_PACKET_FORMAT_SET f i v) k \<longleftrightarrow>
      k < 32 \<and> (a * 8 \<le> k \<and> bit v (k - a * 8) \<or> bit f k \<and> \<not> (a * 8 \<le> k \<and> k - a * 8 < 8))" for k
    using v [of "k - a * 8"] by (auto simp: HICN_PACKET_FORMAT_SET_def a_def [symmetric] bit_simps bit_ones)
  have "a * 8 \<le> b * 8 + n \<and> b * 8 + n - a * 8 < 8 \<longleftrightarrow> a = b" using n by auto
  then show "bit (HICN_PACKET_FORMAT_GET (HICN_PACKET_FORMAT_SET f i v) j) n =
      bit (if i = j then v else HICN_PACKET_FORMAT_GET f j) n"
    using n ab set [of "b * 8 + n"] v [of "b * 8 + n - a * 8"]
    by (auto simp: FORMAT_GET_bits [OF assms(2)] b_def [symmetric] bit_simps)
qed

lemma vft_simps [simp]:
  "hicn_ops_vft 0 = Some P_IPV4" "hicn_ops_vft 1 = Some P_ICMP" "hicn_ops_vft 6 = Some P_TCP"
  "hicn_ops_vft 17 = Some P_UDP" "hicn_ops_vft 41 = Some P_IPV6" "hicn_ops_vft 51 = Some P_AH"
  "hicn_ops_vft 58 = Some P_ICMP" "hicn_ops_vft 59 = Some P_NONE" "hicn_ops_vft 98 = Some P_NEW"
  by (simp_all add: hicn_ops_vft_def)

lemma call_from_at:
  "i \<le> 3 \<Longrightarrow> call_from ops (4 - i) a pk =
     do { p \<leftarrow> hicn_ops_vft (HICN_PACKET_FORMAT_GET (pk_format pk) i); ops p i (call_from ops (3 - i)) a pk }"
proof -
  assume "i \<le> 3"
  then have "4 - i = Suc (3 - i)" "3 - (3 - i) = i" by simp_all
  then show ?thesis by simp
qed

text \<open>Before position \<open>i\<close> is analysed: the positions above are known protocols, and
  the header to look at lies near the start of the buffer.\<close>

definition layer_inv :: "nat \<Rightarrow> analyze_state \<Rightarrow> bool" where
  "layer_inv i st \<longleftrightarrow> (case st of (pk, protocol, offset, _) \<Rightarrow>
     1500 \<le> length (pk_bytes pk) \<and> (\<forall>j<i. hicn_ops_vft (HICN_PACKET_FORMAT_GET (pk_format pk) j) \<noteq> None) \<and>
     (i = 0 \<longrightarrow> offset = 0) \<and> (protocol = IPPROTO_AH \<longrightarrow> unat offset \<le> 80) \<and>
     (protocol = IPPROTO_ENCAP \<longrightarrow> unat offset \<le> 48) \<and>
     (protocol \<notin> {IPPROTO_AH, IPPROTO_ENCAP, IPPROTO_NONE} \<longrightarrow> unat offset \<le> 40))"

lemma unat_add_small: "unat (off :: u16) \<le> 80 \<Longrightarrow> n \<le> 100 \<Longrightarrow> unat (off + of_nat n) = unat off + n"
  by (simp add: unat_word_ariths unat_of_nat)

lemma unat_u8: "unat (b :: u8) < 256"
  using unsigned_less [of b, where ?'a = nat] by simp

lemma known_below:
  assumes "\<forall>j<i. hicn_ops_vft (HICN_PACKET_FORMAT_GET f j) \<noteq> None" "i \<le> 3" "hicn_ops_vft p \<noteq> None" "j < Suc i"
  shows "hicn_ops_vft (HICN_PACKET_FORMAT_GET (HICN_PACKET_FORMAT_SET f i p) j) \<noteq> None"
  using assms by (auto simp: FORMAT_GET_SET less_Suc_eq)

lemma analyze_layer_safe:
  assumes inv: "layer_inv i st" and i: "i \<le> 3"
  shows "\<exists>r. analyze_layer i st = Some r \<and> (\<forall>st'. r = Analyzed st' \<longrightarrow> layer_inv (Suc i) st')"
proof -
  obtain pk p off hs where st: "st = (pk, p, off, hs)" by (cases st) auto
  have len: "1500 \<le> length (pk_bytes pk)" and below: "\<forall>j<i. hicn_ops_vft (HICN_PACKET_FORMAT_GET (pk_format pk) j) \<noteq> None"
    using inv by (simp_all add: layer_inv_def st)
  have known: "\<forall>j<Suc i. hicn_ops_vft (HICN_PACKET_FORMAT_GET (HICN_PACKET_FORMAT_SET (pk_format pk) i p) j) \<noteq> None"
    if "hicn_ops_vft p \<noteq> None" using known_below [OF below i that] by blast
  have l4: "unat (ucast off :: u8) < 256" by (rule unat_u8)
  consider "p = IPPROTO_IP" | "p = IPPROTO_IPV6" | "p = IPPROTO_TCP" | "p = IPPROTO_UDP" | "p = IPPROTO_ICMP"
    | "p = IPPROTO_ICMPV6" | "p = IPPROTO_ENCAP" | "p = IPPROTO_AH" | "p = IPPROTO_NONE"
    | "p \<notin> {IPPROTO_IP, IPPROTO_IPV6, IPPROTO_TCP, IPPROTO_UDP, IPPROTO_ICMP, IPPROTO_ICMPV6, IPPROTO_ENCAP, IPPROTO_AH, IPPROTO_NONE}"
    by auto
  then show ?thesis
  proof cases
    case 1
    with inv len i known show ?thesis
      by (auto simp: st analyze_layer_def layer_inv_def assert_that_def pk_load_def ntoh_def load_Some vft_simps Let_def)
  next
    case 2
    with inv len i known show ?thesis
      by (auto simp: st analyze_layer_def layer_inv_def assert_that_def pk_load_def ntoh_def load_Some vft_simps Let_def)
  next
    case 3
    with inv len i known l4 unat_add_small [of off 20] show ?thesis
      by (auto simp: st analyze_layer_def layer_inv_def call_from_at FORMAT_GET_SET has_signature_ops_def
          tcp_has_signature_def pk_load_def load_Some vft_simps Let_def)
  next
    case 4
    with inv len i known unat_add_small [of off 8] show ?thesis
      by (auto simp: st analyze_layer_def layer_inv_def vft_simps Let_def)
  next
    case 5
    with inv len i known show ?thesis by (auto simp: st analyze_layer_def layer_inv_def vft_simps Let_def)
  next
    case 6
    with inv len i known show ?thesis by (auto simp: st analyze_layer_def layer_inv_def vft_simps Let_def)
  next
    case 7
    with inv len i known l4 unat_add_small [of off 32] show ?thesis
      by (auto simp: st analyze_layer_def layer_inv_def call_from_at FORMAT_GET_SET has_signature_ops_def
          new_has_signature_def pk_load_def load_Some vft_simps Let_def)
  next
    case 8
    with inv len i known show ?thesis
      by (auto simp: st analyze_layer_def layer_inv_def call_from_at FORMAT_GET_SET ah_getter_ops_def
          ah_get_signature_size_def pk_load_def load_Some vft_simps Let_def)
  next
    case 9
    with inv len i known show ?thesis by (auto simp: st analyze_layer_def layer_inv_def vft_simps Let_def)
  next
    case 10
    then show ?thesis by (auto simp: st analyze_layer_def Let_def)
  qed
qed

lemma analyze_loop_safe:
  assumes "layer_inv i st" "i \<le> 4"
  shows "\<exists>r. analyze_loop [i..<4] st = Some r \<and> (\<forall>st'. r = Analyzed st' \<longrightarrow> layer_inv 4 st')"
  using assms
proof (induction "4 - i" arbitrary: i st)
  case (Suc n)
  then have i: "i \<le> 3" "[i..<4] = i # [Suc i..<4]" by (simp_all add: upt_conv_Cons)
  obtain r where r: "analyze_layer i st = Some r" "\<forall>st'. r = Analyzed st' \<longrightarrow> layer_inv (Suc i) st'"
    using analyze_layer_safe [OF Suc.prems(1) i(1)] by blast
  show ?case
  proof (cases r)
    case (Analyzed st')
    then have "\<exists>r. analyze_loop [Suc i..<4] st' = Some r \<and> (\<forall>st'. r = Analyzed st' \<longrightarrow> layer_inv 4 st')"
      using Suc.hyps(1) [of "Suc i" st'] r(2) Suc.hyps(2) i(1) by simp
    then show ?thesis using r Analyzed i(2) by simp
  next
    case (Rejected pk)
    then show ?thesis using r i(2) by simp
  qed
qed auto

lemma get_type_total:
  assumes "\<forall>j<4. hicn_ops_vft (HICN_PACKET_FORMAT_GET (pk_format pk) j) \<noteq> None" "1500 \<le> length (pk_bytes pk)" "n \<le> 4"
  shows "\<exists>rc w. call_from get_type_ops n old pk = Some (rc, w) \<and> (rc = 0 \<or> rc = HICN_LIB_ERROR_UNEXPECTED)"
  using assms(3)
proof (induction n)
  case (Suc n)
  obtain p where p: "hicn_ops_vft (HICN_PACKET_FORMAT_GET (pk_format pk) (3 - n)) = Some p"
    using assms(1) [rule_format, of "3 - n"] less_imp_diff_less [of 3 4 n] by auto
  have "unat (pk_l4 pk) < 256" "unat (pk_newhdr pk) < 256" by (rule unat_u8)+
  then have "\<exists>w. tcp_get_type old pk = Some (0, w)" "\<exists>w. new_get_type old pk = Some (0, w)"
    using assms(2) by (simp_all add: tcp_get_type_def new_get_type_def pk_load_def load_Some)
  then show ?case using Suc p by (cases p) (auto simp: get_type_ops_def icmp_get_type_def)
qed (simp add: get_type_ops_def)

lemma analyze_total:
  assumes "1500 \<le> length (pk_bytes pk)"
  shows "\<exists>rc pk'. hicn_packet_analyze hs pk = Some (rc, pk') \<and>
    (rc = 0 \<or> rc = HICN_LIB_ERROR_UNEXPECTED \<and> pk_format pk' = HICN_PACKET_FORMAT_NONE \<and> pk_type pk' = 0)"
proof -
  let ?v = "drop_bit 4 (pk_bytes pk ! 0)"
  let ?p = "if ?v = 4 then IPPROTO_IP else if ?v = 6 then IPPROTO_IPV6 else IPPROTO_ENCAP"
  have b: "(pk_load 1 0 pk :: u8 option) = Some (pk_bytes pk ! 0)" using assms pk_load_u8 [of 0 pk] by (cases "pk_bytes pk") auto
  have "layer_inv 0 (pk, ?p, 0, hs)" using assms by (simp add: layer_inv_def)
  then obtain r where r: "analyze_loop [0..<4] (pk, ?p, 0, hs) = Some r"
    "\<forall>st'. r = Analyzed st' \<longrightarrow> layer_inv 4 st'" using analyze_loop_safe [of 0] by blast
  show ?thesis
  proof (cases r)
    case (Rejected pk')
    then show ?thesis using r(1) b by (simp add: hicn_packet_analyze_def analyze_error_def Let_def)
  next
    case (Analyzed st')
    obtain pk1 p1 off1 hs1 where st': "st' = (pk1, p1, off1, hs1)" by (cases st') auto
    let ?pk = "pk1\<lparr>pk_payload := off1\<rparr>"
    obtain rc w where "CALL get_type_ops (type_object ?pk) ?pk = Some (rc, w)" "rc = 0 \<or> rc = HICN_LIB_ERROR_UNEXPECTED"
      using get_type_total [of ?pk 4 "type_object ?pk"] r(2) Analyzed st' by (auto simp: layer_inv_def CALL_def)
    then show ?thesis using r(1) b Analyzed st'
      by (auto simp: hicn_packet_analyze_def analyze_error_def Let_def)
  qed
qed

section \<open>A header that was initialised is analysed as such\<close>

lemma format_tcp:
  "HICN_PACKET_FORMAT_GET HICN_PACKET_FORMAT_IPV6_TCP 0 = IPPROTO_IPV6" "HICN_PACKET_FORMAT_GET HICN_PACKET_FORMAT_IPV4_TCP 0 = IPPROTO_IP"
  "HICN_PACKET_FORMAT_GET HICN_PACKET_FORMAT_IPV6_TCP (Suc 0) = IPPROTO_TCP" "HICN_PACKET_FORMAT_GET HICN_PACKET_FORMAT_IPV4_TCP (Suc 0) = IPPROTO_TCP"
  "HICN_PACKET_FORMAT_GET HICN_PACKET_FORMAT_IPV6_TCP 2 = IPPROTO_NONE" "HICN_PACKET_FORMAT_GET HICN_PACKET_FORMAT_IPV4_TCP 2 = IPPROTO_NONE"
  "HICN_PACKET_FORMAT_GET HICN_PACKET_FORMAT_IPV6_TCP 3 = IPPROTO_NONE" "HICN_PACKET_FORMAT_GET HICN_PACKET_FORMAT_IPV4_TCP 3 = IPPROTO_NONE"
  "HICN_PACKET_FORMAT_IPV6_TCP \<noteq> HICN_PACKET_FORMAT_NONE" "HICN_PACKET_FORMAT_IPV4_TCP \<noteq> HICN_PACKET_FORMAT_NONE"
  by (simp_all add: HICN_PACKET_FORMAT_IPV6_TCP_def HICN_PACKET_FORMAT_IPV4_TCP_def HICN_PACKET_FORMAT_NONE_def
      HICN_PACKET_FORMAT_def HICN_PACKET_FORMAT_GET_def)

lemmas format_tcp_Suc = format_tcp(5,6) [unfolded numeral_2_eq_2] format_tcp(7,8) [unfolded numeral_3_eq_3]

lemma header_lengths:
  "hicn_packet_get_header_length_from_format HICN_PACKET_FORMAT_IPV6_TCP = Some 60"
  "hicn_packet_get_header_length_from_format HICN_PACKET_FORMAT_IPV4_TCP = Some 40"
  by (simp_all add: hicn_packet_get_header_length_from_format_def format_tcp header_len_def upt_rec numeral_3_eq_3 [symmetric] numeral_2_eq_2 [symmetric])

lemma room:
  assumes "unat (pk_len pk) + n \<le> unat (pk_buffer_size pk)"
  shows "\<not> no_room n pk"
proof -
  have b: "unat (pk_buffer_size pk) < 65536" using unsigned_less [of "pk_buffer_size pk", where ?'a = nat] by simp
  have "uint (pk_buffer_size pk) - uint (pk_len pk) = int (unat (pk_buffer_size pk) - unat (pk_len pk))"
    using assms by (simp add: of_nat_diff)
  then have "unat (word_of_int (uint (pk_buffer_size pk) - uint (pk_len pk)) :: u64) =
      unat (pk_buffer_size pk) - unat (pk_len pk)"
    using b by (simp add: unat_of_nat)
  moreover have "unat (of_nat n :: u64) = n" using assms b by (simp add: unat_of_nat)
  ultimately show ?thesis using assms by (simp add: no_room_def word_less_nat_alt)
qed

lemma unat_u16_u32 [simp]: "unat (ucast (w :: u16) :: u32) = unat w"
  using unsigned_less [of w, where ?'a = nat] by (simp add: unsigned_ucast_eq take_bit_nat_eq_self)

definition initialised :: "nat \<Rightarrow> u8 list \<Rightarrow> hicn_packet_buffer \<Rightarrow> hicn_packet_buffer" where
  "initialised n ip pk = pk\<lparr>
     pk_bytes := overlay n (tcp_header_bytes 2) (overlay 0 ip (pk_bytes pk)),
     pk_len := of_nat (n + 20), pk_l4 := of_nat n, pk_payload := of_nat (n + 20)\<rparr>"

lemma init_tcp:
  assumes "pk_type pk \<noteq> 0" "60 \<le> length (pk_bytes pk)" "60 \<le> unat (pk_buffer_size pk)"
  shows "pk_format pk = HICN_PACKET_FORMAT_IPV6_TCP \<Longrightarrow>
      hicn_packet_init_header 0 pk = Some (0, initialised 40 (ipv6_header_bytes 20 6) pk)"
    "pk_format pk = HICN_PACKET_FORMAT_IPV4_TCP \<Longrightarrow>
      hicn_packet_init_header 0 pk = Some (0, initialised 20 (ipv4_header_bytes 40 6) pk)"
proof -
  have u: "\<not> hicn_packet_is_undefined pk" using assms(1) by (simp add: hicn_packet_is_undefined_def word_unat_eq_iff)
  show "hicn_packet_init_header 0 pk = Some (0, initialised 40 (ipv6_header_bytes 20 6) pk)"
    if "pk_format pk = HICN_PACKET_FORMAT_IPV6_TCP"
    using assms that u
    by (cases pk) (simp add: hicn_packet_init_header_def CALL_unfold format_tcp init_packet_header_ops_def ipv6_init_packet_header_def
        assert_that_def room header_lengths pk_simps ipv6_header_bytes_def call_from_unfold tcp_init_packet_header_def
        tcp_header_bytes_def next_is_ah_def none_init_packet_header_def initialised_def format_tcp_Suc Let_def)
  show "hicn_packet_init_header 0 pk = Some (0, initialised 20 (ipv4_header_bytes 40 6) pk)"
    if "pk_format pk = HICN_PACKET_FORMAT_IPV4_TCP"
    using assms that u
    by (cases pk) (simp add: hicn_packet_init_header_def CALL_unfold format_tcp init_packet_header_ops_def ipv4_init_packet_header_def
        assert_that_def room header_lengths pk_simps ipv4_header_bytes_def call_from_unfold tcp_init_packet_header_def
        tcp_header_bytes_def next_is_ah_def none_init_packet_header_def initialised_def format_tcp_Suc Let_def)
qed

lemma set_format_tcp:
  "HICN_PACKET_FORMAT_SET HICN_PACKET_FORMAT_IPV6_TCP 0 IPPROTO_IPV6 = HICN_PACKET_FORMAT_IPV6_TCP"
  "HICN_PACKET_FORMAT_SET HICN_PACKET_FORMAT_IPV4_TCP 0 IPPROTO_IP = HICN_PACKET_FORMAT_IPV4_TCP"
  "HICN_PACKET_FORMAT_SET HICN_PACKET_FORMAT_IPV6_TCP (Suc 0) IPPROTO_TCP = HICN_PACKET_FORMAT_IPV6_TCP"
  "HICN_PACKET_FORMAT_SET HICN_PACKET_FORMAT_IPV4_TCP (Suc 0) IPPROTO_TCP = HICN_PACKET_FORMAT_IPV4_TCP"
  "HICN_PACKET_FORMAT_SET HICN_PACKET_FORMAT_IPV6_TCP 2 IPPROTO_NONE = HICN_PACKET_FORMAT_IPV6_TCP"
  "HICN_PACKET_FORMAT_SET HICN_PACKET_FORMAT_IPV4_TCP 2 IPPROTO_NONE = HICN_PACKET_FORMAT_IPV4_TCP"
  "HICN_PACKET_FORMAT_SET HICN_PACKET_FORMAT_IPV6_TCP 3 IPPROTO_NONE = HICN_PACKET_FORMAT_IPV6_TCP"
  "HICN_PACKET_FORMAT_SET HICN_PACKET_FORMAT_IPV4_TCP 3 IPPROTO_NONE = HICN_PACKET_FORMAT_IPV4_TCP"
  by (simp_all add: HICN_PACKET_FORMAT_IPV6_TCP_def HICN_PACKET_FORMAT_IPV4_TCP_def 
      HICN_PACKET_FORMAT_def HICN_PACKET_FORMAT_SET_def)

lemma analyze_positions: "[0..<4] = [0, Suc 0, 2, 3]"
  by (simp add: upt_rec)

lemma tcp_header_byte:
  assumes "n + 20 \<le> length bs"
  shows "overlay n (tcp_header_bytes f) bs ! (n + 13) = f"
  using assms by (simp add: nth_overlay tcp_header_bytes_def nth_append)

lemma load_overlay_slice:
  "length bs \<le> length buf \<Longrightarrow> o' + n \<le> length bs \<Longrightarrow> load (overlay 0 bs buf) o' n = Some (take n (drop o' bs))"
  by (simp add: load_def overlay_def)

lemma ip_header_fields:
  "length (ipv6_header_bytes l p) = 40" "length (ipv4_header_bytes l p) = 20" "length (tcp_header_bytes f) = 20"
  "take (Suc 0) (drop 6 (ipv6_header_bytes l p)) = [p]" "take (Suc 0) (drop 9 (ipv4_header_bytes l p)) = [p]"
  "take 2 (drop 4 (ipv6_header_bytes l p)) = word_bytes 2 (bswap 2 l)"
  "take 2 (drop (Suc (Suc 0)) (ipv4_header_bytes l p)) = word_bytes 2 (bswap 2 l)"
  "ipv6_header_bytes l p ! 0 = 0x60" "ipv4_header_bytes l p ! 0 = 0x45" "le_word [b] = (b :: u8)"
  by (simp_all add: ipv6_header_bytes_def ipv4_header_bytes_def tcp_header_bytes_def)

lemma ip_layer:
  assumes "60 \<le> length (pk_bytes pk)"
  shows "pk_format pk = HICN_PACKET_FORMAT_IPV6_TCP \<Longrightarrow>
      analyze_layer 0 (initialised 40 (ipv6_header_bytes 20 6) pk, IPPROTO_IPV6, 0, hs) =
        Some (Analyzed (initialised 40 (ipv6_header_bytes 20 6) pk, IPPROTO_TCP, 40, hs))"
    "pk_format pk = HICN_PACKET_FORMAT_IPV4_TCP \<Longrightarrow>
      analyze_layer 0 (initialised 20 (ipv4_header_bytes 40 6) pk, IPPROTO_IP, 0, hs) =
        Some (Analyzed (initialised 20 (ipv4_header_bytes 40 6) pk, IPPROTO_TCP, 20, hs))"
proof -
  show "analyze_layer 0 (initialised 40 (ipv6_header_bytes 20 6) pk, IPPROTO_IPV6, 0, hs) =
        Some (Analyzed (initialised 40 (ipv6_header_bytes 20 6) pk, IPPROTO_TCP, 40, hs))" 
    if "pk_format pk = HICN_PACKET_FORMAT_IPV6_TCP"
    using assms that set_format_tcp(1)
    by (simp add: initialised_def analyze_layer_def ntoh_def pk_load_def load_overlay_other load_overlay_slice
      ip_header_fields assert_that_def Let_def hicn_packet_get_len_def)
  show "analyze_layer 0 (initialised 20 (ipv4_header_bytes 40 6) pk, IPPROTO_IP, 0, hs) =
        Some (Analyzed (initialised 20 (ipv4_header_bytes 40 6) pk, IPPROTO_TCP, 20, hs))" 
    if "pk_format pk = HICN_PACKET_FORMAT_IPV4_TCP"
    using assms that set_format_tcp(2)
    by (simp add: initialised_def analyze_layer_def ntoh_def pk_load_def load_overlay_other load_overlay_slice
      ip_header_fields assert_that_def Let_def hicn_packet_get_len_def)
qed

lemma tcp_layers:
  assumes f: "n \<in> {20, 40}" "n + 20 \<le> length (pk_bytes pk)" "pk_l4 pk = of_nat n" "pk_bytes pk ! (n + 13) = 2" 
    and "pk_format pk = HICN_PACKET_FORMAT_IPV6_TCP \<or> pk_format pk = HICN_PACKET_FORMAT_IPV4_TCP"
  shows "analyze_layer (Suc 0) (pk, IPPROTO_TCP, of_nat n, hs) = Some (Analyzed (pk, IPPROTO_NONE, of_nat (n + 20), False))"
    "analyze_layer 2 (pk, IPPROTO_NONE, off, hs) = Some (Analyzed (pk, IPPROTO_NONE, off, hs))"
    "analyze_layer 3 (pk, IPPROTO_NONE, off, hs) = Some (Analyzed (pk, IPPROTO_NONE, off, hs))"
  using assms call_from_at [of "Suc 0", where ops = has_signature_ops and pk = pk]
  by (cases pk; auto simp: analyze_layer_def set_format_tcp [simplified] format_tcp has_signature_ops_def tcp_has_signature_def pk_load_u8 Let_def)+

lemma nth_overlay_before: "i < off \<Longrightarrow> off \<le> length buf \<Longrightarrow> overlay off bs buf ! i = buf ! i"
  by (simp add: overlay_def nth_append min_def)

lemma nth_overlay_start: "i < length bs \<Longrightarrow> overlay 0 bs buf ! i = bs ! i"
  by (simp add: overlay_def nth_append)

lemma analyze_tcp:
  assumes "n \<in> {20, 40}" "n + 20 \<le> length (pk_bytes pk)" "pk_l4 pk = of_nat n" "pk_bytes pk ! (n + 13) = 2"
    and f: "pk_format pk = HICN_PACKET_FORMAT_IPV6_TCP \<or> pk_format pk = HICN_PACKET_FORMAT_IPV4_TCP"
    and v: "drop_bit 4 (pk_bytes pk ! 0) = 4 \<and> p = IPPROTO_IP \<or> drop_bit 4 (pk_bytes pk ! 0) = 6 \<and> p = IPPROTO_IPV6"
    and ip: "analyze_layer 0 (pk, p, 0, hs) = Some (Analyzed (pk, IPPROTO_TCP, of_nat n, hs))"
  shows "hicn_packet_analyze hs pk = Some (0, pk\<lparr>pk_payload := of_nat (n + 20), pk_type := 1, pk_buffer_size := 0\<rparr>)"
proof -
  have type: "CALL get_type_ops old (pk\<lparr>pk_payload := off\<rparr>) = Some (0, 1)" for old off
    using assms(1-4) f by (auto simp: CALL_unfold call_from_unfold format_tcp get_type_ops_def tcp_get_type_def pk_load_u8)
  have "analyze_loop [0..<4] (pk, p, 0, hs) = Some (Analyzed (pk, IPPROTO_NONE, of_nat (n + 20), False))"
    using ip tcp_layers [OF assms(1-4) f] by (simp add: analyze_positions)
  moreover have "(pk_load (Suc 0) 0 pk :: u8 option) = Some (pk_bytes pk ! 0)" using assms(1,2) by (intro pk_load_u8) auto
  ultimately show ?thesis using type v
    by (auto simp: hicn_packet_analyze_def set_type_object_def Let_def)
qed

lemma analyze_initialised:
  assumes "60 \<le> length (pk_bytes pk)"
  shows "pk_format pk = HICN_PACKET_FORMAT_IPV6_TCP \<Longrightarrow> pk1 = initialised 40 (ipv6_header_bytes 20 6) pk \<Longrightarrow>
      hicn_packet_analyze hs pk1 = Some (0, pk1\<lparr>pk_type := 1, pk_buffer_size := 0\<rparr>)"
    "pk_format pk = HICN_PACKET_FORMAT_IPV4_TCP \<Longrightarrow> pk1 = initialised 20 (ipv4_header_bytes 40 6) pk \<Longrightarrow>
      hicn_packet_analyze hs pk1 = Some (0, pk1\<lparr>pk_type := 1, pk_buffer_size := 0\<rparr>)"
proof -
  note bytes = tcp_header_byte [of 40, simplified] tcp_header_byte [of 20, simplified] initialised_def length_overlay ip_header_fields
    nth_overlay_before nth_overlay_start
  show "hicn_packet_analyze hs pk1 = Some (0, pk1\<lparr>pk_type := 1, pk_buffer_size := 0\<rparr>)"
    if "pk_format pk = HICN_PACKET_FORMAT_IPV6_TCP" "pk1 = initialised 40 (ipv6_header_bytes 20 6) pk"
  proof -
    have pk1: "60 \<le> length (pk_bytes pk1)" "pk_l4 pk1 = 40" "pk_bytes pk1 ! 53 = 2" "pk_bytes pk1 ! 0 = 0x60"
      "pk_format pk1 = HICN_PACKET_FORMAT_IPV6_TCP" "pk1\<lparr>pk_payload := 60\<rparr> = pk1"
      using assms that by (simp_all add: bytes)
    then show ?thesis
      using analyze_tcp [of 40 pk1 IPPROTO_IPV6 hs] ip_layer(1) [OF assms that(1), folded that(2)] by simp
  qed
  show "hicn_packet_analyze hs pk1 = Some (0, pk1\<lparr>pk_type := 1, pk_buffer_size := 0\<rparr>)"
    if "pk_format pk = HICN_PACKET_FORMAT_IPV4_TCP" "pk1 = initialised 20 (ipv4_header_bytes 40 6) pk"
  proof -
    have pk1: "40 \<le> length (pk_bytes pk1)" "pk_l4 pk1 = 20" "pk_bytes pk1 ! 33 = 2" "pk_bytes pk1 ! 0 = 0x45"
      "pk_format pk1 = HICN_PACKET_FORMAT_IPV4_TCP" "pk1\<lparr>pk_payload := 40\<rparr> = pk1"
      using assms that by (simp_all add: bytes)
    then show ?thesis
      using analyze_tcp [of 20 pk1 IPPROTO_IP hs] ip_layer(2) [OF assms that(1), folded that(2)] by simp
  qed
qed

section \<open>Properties\<close>

text \<open>A zeroed buffer of \<open>n\<close> bytes, for the examples.\<close>

definition zero_packet :: "nat \<Rightarrow> u32 \<Rightarrow> u16 \<Rightarrow> hicn_packet_buffer" where
  "zero_packet n format type = \<lparr>pk_bytes = replicate n 0, pk_format = format, pk_type = type,
     pk_buffer_size = of_nat n, pk_len = 0, pk_l4 = 40, pk_newhdr = 0, pk_ah = 60, pk_payload = 0\<rparr>"

lemma zero_packet_simps [simp]:
  "pk_bytes (zero_packet n f t) = replicate n 0" "pk_format (zero_packet n f t) = f" "pk_type (zero_packet n f t) = t"
  "pk_buffer_size (zero_packet n f t) = of_nat n" "pk_l4 (zero_packet n f t) = 40" "pk_ah (zero_packet n f t) = 60"
  by (simp_all add: zero_packet_def)

lemma example_formats:
  "transport_from 4 HICN_PACKET_FORMAT_IPV6_TCP = Some P_TCP" "transport_from 3 HICN_PACKET_FORMAT_IPV6_TCP = Some P_TCP"
  "HICN_PACKET_FORMAT_GET HICN_PACKET_FORMAT_IPV6_TCP 0 = IPPROTO_IPV6"
  "reaches_ah 4 HICN_PACKET_FORMAT_IPV6_TCP_AH"
proof -
  show "transport_from 4 HICN_PACKET_FORMAT_IPV6_TCP = Some P_TCP" "transport_from 3 HICN_PACKET_FORMAT_IPV6_TCP = Some P_TCP"
    "HICN_PACKET_FORMAT_GET HICN_PACKET_FORMAT_IPV6_TCP 0 = IPPROTO_IPV6" "reaches_ah 4 HICN_PACKET_FORMAT_IPV6_TCP_AH"
    by code_simp+
qed

lemma name_setter_types:
  assumes "\<exists>pk'. hicn_interest_set_name name pk = Some (0, pk') \<and> pk_type pk' = pk_type pk \<and> hicn_interest_get_name old pk' = Some (0, r)"
    "\<exists>pk'. hicn_data_set_name name pk = Some (0, pk') \<and> pk_type pk' = pk_type pk \<and> hicn_data_get_name old pk' = Some (0, r)"
    "hicn_packet_is_interest pk \<or> hicn_packet_is_data pk"
  shows "\<exists>pk'. hicn_packet_set_name name pk = Some (0, pk') \<and> hicn_packet_get_name old pk' = Some (0, r)"
proof -
  have types: "hicn_packet_is_interest pk' \<longleftrightarrow> hicn_packet_is_interest pk" "hicn_packet_is_data pk' \<longleftrightarrow> hicn_packet_is_data pk"
    if "pk_type pk' = pk_type pk" for pk' using that by (simp_all only: hicn_packet_is_interest_def hicn_packet_is_data_def)
  show ?thesis
  proof (cases "hicn_packet_is_interest pk")
    case True
    with assms(1) types show ?thesis unfolding hicn_packet_set_name_def hicn_packet_get_name_def by fastforce
  next
    case False
    with assms(2,3) types show ?thesis unfolding hicn_packet_set_name_def hicn_packet_get_name_def by fastforce
  qed
qed

text \<open>C4: the name written into the header of an Interest or Data is the name read from it,
  for the formats IPv6/TCP, IPv4/TCP and the new header. Over IPv4 the name is the last
  four bytes of the prefix, and reading leaves the other bytes of the destination alone.\<close>

theorem packet_name_roundtrip:
  assumes "hicn_packet_is_interest pk \<or> hicn_packet_is_data pk"
    and "ipv6_tcp pk \<or> new_packet pk \<or> ipv4_tcp pk"
  shows "\<exists>pk'. hicn_packet_set_name name pk = Some (0, pk') \<and>
    hicn_packet_get_name old pk' = Some (0, if ipv4_tcp pk
      then name\<lparr>name_prefix := set_v4 (name_prefix old) (v4_as_u32 (name_prefix name))\<rparr> else name)"
proof (cases "ipv4_tcp pk")
  case True
  then show ?thesis using name_setter_types [OF ipv4_tcp_name [OF True] assms(1)] by simp
next
  case False
  then consider "ipv6_tcp pk" | "new_packet pk" using assms(2) by blast
  then show ?thesis
    using False name_setter_types [OF ipv6_tcp_name assms(1)] name_setter_types [OF new_packet_name assms(1)] by cases auto
qed

theorem packet_name_roundtrip_witness:
  "\<exists>pk'. hicn_packet_set_name \<lparr>name_prefix = \<lparr>u64_0 = 7, u64_1 = 8\<rparr>, name_suffix = 9\<rparr> (zero_packet 60 HICN_PACKET_FORMAT_IPV6_TCP 1) = Some (0, pk') \<and>
    hicn_packet_get_name \<lparr>name_prefix = \<lparr>u64_0 = 0, u64_1 = 0\<rparr>, name_suffix = 0\<rparr> pk' = Some (0, \<lparr>name_prefix = \<lparr>u64_0 = 7, u64_1 = 8\<rparr>, name_suffix = 9\<rparr>)"
  using packet_name_roundtrip [of "zero_packet 60 HICN_PACKET_FORMAT_IPV6_TCP 1" "\<lparr>name_prefix = \<lparr>u64_0 = 7, u64_1 = 8\<rparr>, name_suffix = 9\<rparr>"
      "\<lparr>name_prefix = \<lparr>u64_0 = 0, u64_1 = 0\<rparr>, name_suffix = 0\<rparr>"]
  by (simp add: hicn_packet_is_interest_def ipv6_tcp_def ipv4_tcp_def tcp_fits_def example_formats)

lemmas lifetime_defs = hicn_packet_set_lifetime_def hicn_packet_get_lifetime_def CALL_def transport_def
  set_lifetime_ops_def get_lifetime_ops_def call_from_setter call_from_getter

text \<open>C9: the lifetime read from a header is the lifetime written, up to the encoding of the TCP
  header: never more than was asked for, off by less than one part in 32768, exact up to 65535
  milliseconds, and the largest lifetime there is for every value from that one on. The new header
  keeps it exactly.\<close>

theorem packet_lifetime_roundtrip:
  assumes "transport pk = Some P_TCP \<and> tcp_fits pk \<or> transport pk = Some P_NEW \<and> new_fits pk"
  shows "\<exists>pk' v. hicn_packet_set_lifetime l pk = Some (0, pk') \<and> hicn_packet_get_lifetime old pk' = Some (0, v) \<and>
    (if transport pk = Some P_NEW then v = l
     else if HICN_MAX_LIFETIME \<le> l then v = HICN_MAX_LIFETIME
     else v \<le> l \<and> unat l - unat v \<le> unat l div 2 ^ 15) \<and>
    (l \<le> 0xFFFF \<longrightarrow> v = l)"
  using assms
proof (elim disjE conjE)
  assume pk: "transport pk = Some P_TCP" "tcp_fits pk"
  then obtain pk' v where "tcp_set_lifetime l pk = Some (0, pk')" "pk_format pk' = pk_format pk"
    "tcp_get_lifetime old pk' = Some (0, v)" and v: "if HICN_MAX_LIFETIME \<le> l then v = HICN_MAX_LIFETIME
      else v \<le> l \<and> unat l - unat v \<le> unat l div 2 ^ 15" "l \<le> 0xFFFF \<longrightarrow> v = l"
    using tcp_lifetime_roundtrip by blast
  then have "hicn_packet_set_lifetime l pk = Some (0, pk')" "hicn_packet_get_lifetime old pk' = Some (0, v)"
    using pk by (simp_all add: lifetime_defs)
  then show ?thesis using v pk(1) by (intro exI [of _ pk'] exI [of _ v]) simp
qed (use new_lifetime_roundtrip [of pk l old] in \<open>auto simp: lifetime_defs\<close>)

theorem packet_lifetime_roundtrip_witness:
  "\<exists>pk' v. hicn_packet_set_lifetime 1000 (zero_packet 60 HICN_PACKET_FORMAT_IPV6_TCP 1) = Some (0, pk') \<and>
    hicn_packet_get_lifetime 0 pk' = Some (0, v) \<and> v = 1000"
  using packet_lifetime_roundtrip [of "zero_packet 60 HICN_PACKET_FORMAT_IPV6_TCP 1" 1000 0]
  by (auto simp: transport_def tcp_fits_def example_formats)

text \<open>C26: the fields of the authentication header. Timestamp, algorithm and key identifier
  are read back as written. The size of the signature is kept as a number of words in one byte:
  it is read back as written exactly when it is a multiple of four below 1024.\<close>

theorem signature_fields_roundtrip:
  assumes "signed_packet pk" "length k = 32"
  shows "(\<exists>pk'. hicn_packet_set_signature_timestamp t pk = Some (0, pk') \<and> hicn_packet_get_signature_timestamp o1 pk' = Some (0, t)) \<and>
    (\<exists>pk'. hicn_packet_set_validation_algorithm a pk = Some (0, pk') \<and> hicn_packet_get_validation_algorithm o2 pk' = Some (0, a)) \<and>
    (\<exists>pk'. hicn_packet_set_key_id k pk = Some (0, pk') \<and> hicn_packet_get_key_id o3 pk' = Some (0, k)) \<and>
    (\<exists>pk' m. hicn_packet_set_signature_size n pk = Some (0, pk') \<and> hicn_packet_get_signature_size o1 pk' = Some (0, m) \<and>
      (m = n \<longleftrightarrow> unat n mod 4 = 0 \<and> unat n < 1024))"
proof (intro conjI)
  show "\<exists>pk' m. hicn_packet_set_signature_size n pk = Some (0, pk') \<and> hicn_packet_get_signature_size o1 pk' = Some (0, m) \<and>
      (m = n \<longleftrightarrow> unat n mod 4 = 0 \<and> unat n < 1024)"
    using signature_fields(1) [OF assms(1)] signature_size_stored by blast
qed (use signature_fields(2-4) [OF assms(1)] assms(2) in blast)+

theorem signature_fields_roundtrip_witness:
  "\<exists>pk' m. hicn_packet_set_signature_size 256 (zero_packet 120 HICN_PACKET_FORMAT_IPV6_TCP_AH 2) = Some (0, pk') \<and>
    hicn_packet_get_signature_size 0 pk' = Some (0, m) \<and> m = 256"
  using signature_fields_roundtrip [of "zero_packet 120 HICN_PACKET_FORMAT_IPV6_TCP_AH 2" "replicate 32 0" 0 0 0 0 "[]" 256]
  by (auto simp: signed_packet_def example_formats)

text \<open>C21: the header checksum computed for an IPv4/UDP packet passes the check of the
  receiver, whatever the header held before.\<close>

theorem ipv4_header_checksum_verifies:
  assumes "pk_format pk = HICN_PACKET_FORMAT_IPV4_UDP" "20 \<le> length (pk_bytes pk)"
  shows "\<exists>pk'. hicn_packet_compute_header_checksum i pk = Some (0, pk') \<and>
    hicn_packet_check_integrity_no_payload j pk' = Some HICN_LIB_ERROR_NONE"
  using ipv4_checksum [OF assms] by simp

theorem ipv4_header_checksum_verifies_witness:
  "\<exists>pk'. hicn_packet_compute_header_checksum 0 (zero_packet 60 HICN_PACKET_FORMAT_IPV4_UDP 1) = Some (0, pk') \<and>
    hicn_packet_check_integrity_no_payload 0 pk' = Some HICN_LIB_ERROR_NONE"
  using ipv4_header_checksum_verifies [of "zero_packet 60 HICN_PACKET_FORMAT_IPV4_UDP 1" 0 0]
  by (simp add: zero_packet_def)

text \<open>C10: in a buffer of at least 1500 bytes, the size of the packet buffers of the forwarder, the
  analysis of a received packet ends on every content, with no access outside the buffer and no call
  through an empty entry of the table of protocols, and either succeeds or reports an error and
  leaves a buffer with no format and no type. The size is needed: the code compares no offset with
  the length of the packet or of the buffer, and reads past a shorter one. In the witness the packet
  is a TCP header in a buffer of 1500 bytes, and the analysis accepts it.\<close>

theorem hicn_packet_analyze_safe:
  assumes "1500 \<le> length (pk_bytes pk)"
  shows "\<exists>rc pk'. hicn_packet_analyze has_signature pk = Some (rc, pk') \<and>
    (rc = HICN_LIB_ERROR_NONE \<or>
     rc = HICN_LIB_ERROR_UNEXPECTED \<and> pk_format pk' = HICN_PACKET_FORMAT_NONE \<and> hicn_packet_is_undefined pk')"
proof -
  obtain rc pk' where "hicn_packet_analyze has_signature pk = Some (rc, pk')"
    "rc = 0 \<or> rc = HICN_LIB_ERROR_UNEXPECTED \<and> pk_format pk' = HICN_PACKET_FORMAT_NONE \<and> pk_type pk' = 0"
    using analyze_total [OF assms] by blast
  then show ?thesis by (intro exI [of _ rc] exI [of _ pk']) (auto simp: hicn_packet_is_undefined_def)
qed

theorem hicn_packet_analyze_safe_witness:
  "\<exists>pk1 pk'. hicn_packet_init_header 0 (zero_packet 1500 HICN_PACKET_FORMAT_IPV6_TCP 2) = Some (HICN_LIB_ERROR_NONE, pk1) \<and>
    hicn_packet_analyze False pk1 = Some (HICN_LIB_ERROR_NONE, pk') \<and> pk_format pk' = HICN_PACKET_FORMAT_IPV6_TCP \<and>
    \<not> hicn_packet_is_undefined pk'"
proof -
  define pk where "pk = zero_packet 1500 HICN_PACKET_FORMAT_IPV6_TCP 2"
  define pk1 where "pk1 = initialised 40 (ipv6_header_bytes 20 6) pk"
  have pk: "pk_type pk \<noteq> 0" "60 \<le> length (pk_bytes pk)" "60 \<le> unat (pk_buffer_size pk)"
    "pk_format pk = HICN_PACKET_FORMAT_IPV6_TCP" by (simp_all add: pk_def zero_packet_def)
  have "length (pk_bytes pk1) = 1500"
    by (simp add: pk1_def pk_def initialised_def zero_packet_def ipv6_header_bytes_def tcp_header_bytes_def)
  then obtain rc pk' where "hicn_packet_analyze False pk1 = Some (rc, pk')"
    using hicn_packet_analyze_safe [of pk1 False] by auto
  then show ?thesis using init_tcp(1) [OF pk] analyze_initialised(1) [OF pk(2,4) pk1_def, of False]
    unfolding pk_def [symmetric] by (simp add: hicn_packet_is_undefined_def pk1_def initialised_def pk(4))
qed

text \<open>C16: an IPv6/TCP or IPv4/TCP header that \<open>hicn_packet_init_header\<close> made with no additional
  header size is analysed as what it is: the format, the header offsets, the length and the payload
  of the buffer stay as they were, and the packet is an Interest. The analysis also zeroes the buffer size, as the 32-bit result of \<open>get_type\<close>
  is written over the 16-bit field \<open>type\<close> and the field after it.\<close>

theorem init_header_analyzed:
  assumes "pk_type pk \<noteq> 0" "60 \<le> length (pk_bytes pk)" "60 \<le> unat (pk_buffer_size pk)"
    and "pk_format pk \<in> {HICN_PACKET_FORMAT_IPV6_TCP, HICN_PACKET_FORMAT_IPV4_TCP}"
  shows "\<exists>pk1. hicn_packet_init_header 0 pk = Some (HICN_LIB_ERROR_NONE, pk1) \<and> pk_format pk1 = pk_format pk \<and>
    hicn_packet_analyze has_signature pk1 =
      Some (HICN_LIB_ERROR_NONE, pk1\<lparr>pk_type := ucast HICN_PACKET_TYPE_INTEREST, pk_buffer_size := 0\<rparr>)"
  using assms(4)
proof (elim insertE emptyE)
  assume f: "pk_format pk = HICN_PACKET_FORMAT_IPV6_TCP"
  show ?thesis using init_tcp(1) [OF assms(1-3) f] analyze_initialised(1) [OF assms(2) f refl]
    by (simp add: initialised_def)
next
  assume f: "pk_format pk = HICN_PACKET_FORMAT_IPV4_TCP"
  show ?thesis using init_tcp(2) [OF assms(1-3) f] analyze_initialised(2) [OF assms(2) f refl]
    by (simp add: initialised_def)
qed

theorem init_header_analyzed_witness:
  "\<exists>pk1. hicn_packet_init_header 0 (zero_packet 60 HICN_PACKET_FORMAT_IPV6_TCP 2) = Some (HICN_LIB_ERROR_NONE, pk1) \<and>
    pk_format pk1 = HICN_PACKET_FORMAT_IPV6_TCP \<and>
    hicn_packet_analyze True pk1 =
      Some (HICN_LIB_ERROR_NONE, pk1\<lparr>pk_type := ucast HICN_PACKET_TYPE_INTEREST, pk_buffer_size := 0\<rparr>)"
  using init_header_analyzed [of "zero_packet 60 HICN_PACKET_FORMAT_IPV6_TCP 2" True] by (simp add: zero_packet_def)

lemma new_has_signature_kept:
  "unat (pk_newhdr pk) + NEW_HDRLEN \<le> length (pk_bytes pk) \<Longrightarrow>
   \<exists>rc\<ge>0. new_has_signature hs pk = Some (rc, hs)"
  by (simp add: new_has_signature_def pk_load_def load_Some)

lemma analyze_new_first:
  assumes "1500 \<le> length (pk_bytes pk)"
  shows "analyze_layer 0 (pk, IPPROTO_ENCAP, 0, hs) =
     Some (Analyzed (pk\<lparr>pk_format := HICN_PACKET_FORMAT_SET (pk_format pk) 0 IPPROTO_ENCAP, pk_newhdr := 0\<rparr>,
       if hs then IPPROTO_AH else IPPROTO_NONE, 32, hs))"
proof -
  define pk1 where "pk1 = pk\<lparr>pk_format := HICN_PACKET_FORMAT_SET (pk_format pk) 0 IPPROTO_ENCAP, pk_newhdr := 0\<rparr>"
  obtain rc where "rc \<ge> 0" "new_has_signature hs pk1 = Some (rc, hs)"
    using assms new_has_signature_kept [of pk1 hs] by (auto simp: pk1_def)
  then have "rc \<ge> 0 \<and> call_from has_signature_ops 4 hs pk1 = Some (rc, hs)"
    using call_from_at [of 0 has_signature_ops hs pk1] by (simp add: pk1_def FORMAT_GET_SET has_signature_ops_def)
  then show ?thesis by (simp add: analyze_layer_def pk1_def)
qed

lemma analyze_ah_second:
  assumes "1500 \<le> length (pk_bytes pk)"
  shows "\<exists>pk1 off. analyze_layer (Suc 0) (pk, IPPROTO_AH, 32, hs) = Some (Analyzed (pk1, IPPROTO_NONE, off, hs)) \<and>
     pk_bytes pk1 = pk_bytes pk \<and> pk_newhdr pk1 = pk_newhdr pk \<and>
     pk_format pk1 = HICN_PACKET_FORMAT_SET (pk_format pk) (Suc 0) IPPROTO_AH"
proof -
  define pk1 where "pk1 = pk\<lparr>pk_format := HICN_PACKET_FORMAT_SET (pk_format pk) (Suc 0) IPPROTO_AH, pk_ah := 32\<rparr>"
  have "\<exists>w. call_from (ah_getter_ops ah_get_signature_size) 3 0 pk1 = Some (0, w)"
    using assms call_from_at [of "Suc 0" "ah_getter_ops ah_get_signature_size" 0 pk1]
    by (simp add: pk1_def FORMAT_GET_SET ah_getter_ops_def ah_get_signature_size_def pk_load_def load_Some)
  then show ?thesis by (auto simp: analyze_layer_def pk1_def)
qed

lemma analyze_none_rest:
  "analyze_layer i (pk, IPPROTO_NONE, off, hs) =
    Some (Analyzed (pk\<lparr>pk_format := HICN_PACKET_FORMAT_SET (pk_format pk) i IPPROTO_NONE\<rparr>, IPPROTO_NONE, off, hs))"
  by (simp add: analyze_layer_def)

lemma analyze_second:
  assumes "1500 \<le> length (pk_bytes pk)" "p = (if hs then IPPROTO_AH else IPPROTO_NONE)"
  shows "\<exists>pk1 off. analyze_layer (Suc 0) (pk, p, 32, hs) = Some (Analyzed (pk1, IPPROTO_NONE, off, hs)) \<and>
     pk_bytes pk1 = pk_bytes pk \<and> pk_newhdr pk1 = pk_newhdr pk \<and>
     pk_format pk1 = HICN_PACKET_FORMAT_SET (pk_format pk) (Suc 0) p"
proof (cases hs)
  case True
  then show ?thesis using analyze_ah_second [OF assms(1), of hs] assms(2) by simp
next
  case False
  then show ?thesis using analyze_none_rest [of "Suc 0" pk 32 hs] assms(2) by simp
qed

lemma analyze_new:
  assumes "1500 \<le> length (pk_bytes pk)" "drop_bit 4 (pk_bytes pk ! 0) = 9"
  shows "\<exists>pk'. hicn_packet_analyze hs pk = Some (0, pk') \<and>
    HICN_PACKET_FORMAT_GET (pk_format pk') 0 = IPPROTO_ENCAP \<and>
    HICN_PACKET_FORMAT_GET (pk_format pk') 1 = (if hs then IPPROTO_AH else IPPROTO_NONE)"
proof -
  define p where "p = (if hs then IPPROTO_AH else IPPROTO_NONE)"
  let ?pk = "pk\<lparr>pk_format := HICN_PACKET_FORMAT_SET (pk_format pk) 0 IPPROTO_ENCAP, pk_newhdr := 0\<rparr>"
  obtain pk1 off where l1: "analyze_layer (Suc 0) (?pk, p, 32, hs) = Some (Analyzed (pk1, IPPROTO_NONE, off, hs))"
    and pk1: "pk_bytes pk1 = pk_bytes pk" "pk_newhdr pk1 = 0"
      "pk_format pk1 = HICN_PACKET_FORMAT_SET (HICN_PACKET_FORMAT_SET (pk_format pk) 0 IPPROTO_ENCAP) (Suc 0) p"
    using analyze_second [of ?pk p hs, OF _ p_def] assms(1) by auto
  let ?f = "HICN_PACKET_FORMAT_SET (HICN_PACKET_FORMAT_SET (pk_format pk1) 2 IPPROTO_NONE) 3 IPPROTO_NONE"
  have "analyze_loop [0..<4] (pk, IPPROTO_ENCAP, 0, hs) = Some (Analyzed (pk1\<lparr>pk_format := ?f\<rparr>, IPPROTO_NONE, off, hs))"
    using analyze_new_first [OF assms(1), of hs, folded p_def] l1
    by (simp add: analyze_positions analyze_none_rest [simplified])
  moreover have "(pk_load (Suc 0) 0 pk :: u8 option) = Some (pk_bytes pk ! 0)" using assms(1) by (intro pk_load_u8) auto
  moreover obtain w where "CALL get_type_ops (type_object (pk1\<lparr>pk_format := ?f, pk_payload := off\<rparr>))
      (pk1\<lparr>pk_format := ?f, pk_payload := off\<rparr>) = Some (0, w)"
    using assms(1) pk1 by (simp add: CALL_unfold FORMAT_GET_SET get_type_ops_def new_get_type_def pk_load_def load_Some)
  ultimately show ?thesis unfolding p_def [symmetric] using assms(2) pk1
    by (auto simp: hicn_packet_analyze_def set_type_object_def FORMAT_GET_SET Let_def)
qed

text \<open>C40: on a packet with the new header the format found depends on the value the local
  variable \<open>has_signature\<close> happens to have: with a true value an authentication header is
  taken to follow, with a false value nothing, whatever the flags of the header say.\<close>

theorem new_header_analysis_undetermined:
  assumes "1500 \<le> length (pk_bytes pk)" "drop_bit 4 (pk_bytes pk ! 0) = 9"
  shows "\<exists>pk1 pk2. hicn_packet_analyze True pk = Some (HICN_LIB_ERROR_NONE, pk1) \<and>
    hicn_packet_analyze False pk = Some (HICN_LIB_ERROR_NONE, pk2) \<and>
    HICN_PACKET_FORMAT_GET (pk_format pk1) 1 = IPPROTO_AH \<and> HICN_PACKET_FORMAT_GET (pk_format pk2) 1 = IPPROTO_NONE"
  using analyze_new [OF assms, of True] analyze_new [OF assms, of False] by auto

theorem new_header_analysis_undetermined_witness:
  "\<exists>pk1 pk2. hicn_packet_analyze True (zero_packet 1500 0 0\<lparr>pk_bytes := 0x90 # replicate 1499 0\<rparr>) = Some (HICN_LIB_ERROR_NONE, pk1) \<and>
    hicn_packet_analyze False (zero_packet 1500 0 0\<lparr>pk_bytes := 0x90 # replicate 1499 0\<rparr>) = Some (HICN_LIB_ERROR_NONE, pk2) \<and>
    HICN_PACKET_FORMAT_GET (pk_format pk1) 1 = IPPROTO_AH \<and> HICN_PACKET_FORMAT_GET (pk_format pk2) 1 = IPPROTO_NONE"
  using new_header_analysis_undetermined [of "zero_packet 1500 0 0\<lparr>pk_bytes := 0x90 # replicate 1499 0\<rparr>"] by simp

lemma tcp_set_lifetime_writes:
  assumes "tcp_fits pk"
  shows "\<exists>(w :: u16) b. tcp_set_lifetime l pk = Some (0, pk\<lparr>pk_bytes := overlay (unat (pk_l4 pk) + TCP_DATA_OFFSET) [b]
     (overlay (unat (pk_l4 pk) + TCP_URG_PTR) (word_bytes 2 w) (pk_bytes pk))\<rparr>)"
  using assms by (auto simp: tcp_set_lifetime_def tcp_fits_def hton_def pk_simps split: prod.splits)

lemma ipv6_interest_fields:
  assumes "ipv6_tcp pk"
  shows "\<exists>pk1 pk2. hicn_interest_set_name name pk = Some (0, pk1) \<and> hicn_interest_set_locator a pk1 = Some (0, pk2) \<and>
      ipv6_tcp pk2 \<and> hicn_interest_get_name old pk2 = Some (0, name) \<and> hicn_interest_get_locator olda pk2 = Some (0, a)"
  using assms
  by (simp add: name_defs ip_name_defs tcp_name_defs CALL_unfold call_from_setter call_from_getter
      hicn_interest_set_locator_def hicn_interest_get_locator_def set_interest_locator_ops_def get_interest_locator_ops_def
      ipv6_set_interest_locator_def ipv6_get_interest_locator_def
      ipv6_tcp_def tcp_fits_def hicn_ops_vft_def pk_simps)

lemma lifetime_keeps_names:
  assumes "ipv6_tcp pk" "tcp_set_lifetime l pk = Some (0, pk')"
  shows "hicn_interest_get_name old pk' = hicn_interest_get_name old pk"
    "hicn_interest_get_locator olda pk' = hicn_interest_get_locator olda pk"
proof -
  have fits: "tcp_fits pk" using assms(1) by (simp add: ipv6_tcp_def)
  obtain w :: u16 and b where "pk' = pk\<lparr>pk_bytes := overlay (unat (pk_l4 pk) + TCP_DATA_OFFSET) [b]
     (overlay (unat (pk_l4 pk) + TCP_URG_PTR) (word_bytes 2 w) (pk_bytes pk))\<rparr>"
    using tcp_set_lifetime_writes [OF fits, of l] assms(2) by auto
  then show "hicn_interest_get_name old pk' = hicn_interest_get_name old pk"
    "hicn_interest_get_locator olda pk' = hicn_interest_get_locator olda pk"
    using assms(1)
    by (simp_all add: name_defs ip_name_defs tcp_name_defs CALL_unfold call_from_getter
      hicn_interest_get_locator_def get_interest_locator_ops_def ipv6_get_interest_locator_def
      ipv6_tcp_def tcp_fits_def hicn_ops_vft_def pk_simps)
qed

lemma transport_from_4:
  "transport_from 4 f = (case hicn_ops_vft (HICN_PACKET_FORMAT_GET f 0) of None \<Rightarrow> None
     | Some p \<Rightarrow> if p = P_IPV4 \<or> p = P_IPV6 \<or> p = P_UDP then transport_from 3 f else Some p)"
  using transport_from.simps(2) [of 3] by simp

text \<open>C17: the fields of an Interest over IPv6/TCP are independent: after its name, its locator
  and its lifetime are written, in this order, the name and the locator are read back as written.
  The lifetime is read back as written up to 65535; above, the value read is not above the one
  written and differs by at most one part in 32768, and from the largest encodable lifetime on it is
  that one.\<close>

theorem interest_fields_independent:
  assumes "ipv6_tcp pk"
  shows "\<exists>pk1 pk2 pk3 v. hicn_interest_set_name name pk = Some (0, pk1) \<and> hicn_interest_set_locator a pk1 = Some (0, pk2) \<and>
      hicn_interest_set_lifetime l pk2 = Some (0, pk3) \<and>
      hicn_interest_get_name old pk3 = Some (0, name) \<and> hicn_interest_get_locator olda pk3 = Some (0, a) \<and>
      hicn_interest_get_lifetime oldl pk3 = Some (0, v) \<and> 
      (if HICN_MAX_LIFETIME \<le> l then v = HICN_MAX_LIFETIME else v \<le> l \<and> unat l - unat v \<le> unat l div 2 ^ 15) \<and>
      (l \<le> 0xFFFF \<longrightarrow> v = l)"
proof -
  obtain pk1 pk2 where pk2: "hicn_interest_set_name name pk = Some (0, pk1)" "hicn_interest_set_locator a pk1 = Some (0, pk2)"
    "ipv6_tcp pk2" "hicn_interest_get_name old pk2 = Some (0, name)" "hicn_interest_get_locator olda pk2 = Some (0, a)"
    using ipv6_interest_fields [OF assms] by blast
  then have tcp: "transport_from 4 (pk_format pk2) = Some P_TCP" "tcp_fits pk2"
    by (simp_all add: ipv6_tcp_def transport_from_4)
  obtain pk3 v where l: "tcp_set_lifetime l pk2 = Some (0, pk3)" "pk_format pk3 = pk_format pk2" "tcp_get_lifetime oldl pk3 = Some (0, v)"
    and v: "if HICN_MAX_LIFETIME \<le> l then v = HICN_MAX_LIFETIME else v \<le> l \<and> unat l - unat v \<le> unat l div 2 ^ 15"
      "l \<le> 0xFFFF \<longrightarrow> v = l"
    using tcp_lifetime_roundtrip [OF tcp(2)] by blast
  have "hicn_interest_set_lifetime l pk2 = Some (0, pk3)" "hicn_interest_get_lifetime oldl pk3 = Some (0, v)"
    using tcp l by (simp_all add: hicn_interest_set_lifetime_def hicn_interest_get_lifetime_def lifetime_defs)
  with pk2 v lifetime_keeps_names [OF pk2(3) l(1)] show ?thesis by metis
qed

theorem interest_fields_independent_witness:
  "\<exists>pk1 pk2 pk3. hicn_interest_set_name \<lparr>name_prefix = \<lparr>u64_0 = 7, u64_1 = 8\<rparr>, name_suffix = 9\<rparr>
        (zero_packet 60 HICN_PACKET_FORMAT_IPV6_TCP 1) = Some (0, pk1) \<and>
      hicn_interest_set_locator \<lparr>u64_0 = 1, u64_1 = 2\<rparr> pk1 = Some (0, pk2) \<and>
      hicn_interest_set_lifetime 1000 pk2 = Some (0, pk3) \<and>
      hicn_interest_get_name \<lparr>name_prefix = \<lparr>u64_0 = 0, u64_1 = 0\<rparr>, name_suffix = 0\<rparr> pk3 =
        Some (0, \<lparr>name_prefix = \<lparr>u64_0 = 7, u64_1 = 8\<rparr>, name_suffix = 9\<rparr>) \<and>
      hicn_interest_get_lifetime 5 pk3 = Some (0, 1000)"
  using interest_fields_independent [of "zero_packet 60 HICN_PACKET_FORMAT_IPV6_TCP 1" "\<lparr>name_prefix = \<lparr>u64_0 = 7, u64_1 = 8\<rparr>, name_suffix = 9\<rparr>"
      "\<lparr>u64_0 = 1, u64_1 = 2\<rparr>" 1000 "\<lparr>name_prefix = \<lparr>u64_0 = 0, u64_1 = 0\<rparr>, name_suffix = 0\<rparr>" "\<lparr>u64_0 = 0, u64_1 = 0\<rparr>" 5]
  by (auto simp: ipv6_tcp_def tcp_fits_def example_formats)

end
