(* ===== verification/Nexthops.thy ===== *)
theory Nexthops
  imports Hicn_Prelude Complex_Main "HOL-Library.Multiset"
begin

text \<open>
  The next-hop table of a FIB entry,
  \<open>hicn-light/src/hicn/core/nexthops.{h,c}\<close>: an array of at most
  \<open>MAX_NEXTHOPS\<close> connection identifiers, the strategy state kept beside each of
  them, and the mask \<open>flags\<close> by which the policy framework and the strategies
  hide next hops while a packet is being forwarded.

  \<^item> \<^verbatim>\<open>uint_fast32_t\<close> has 64 bits on the modelled platform, so there are 64
    slots; the mask of slot \<open>i\<close> is the \<open>int\<close> expression \<open>1 << i\<close>, which is a
    single bit for \<open>i < 31\<close>, the sign-extended sign bit for \<open>i = 31\<close> and
    undefined beyond (\<open>shift1\<close>).
  \<^item> \<open>nexthops_enumerate\<close> is the macro of the same name: a loop over the slots
    whose body may return early; \<open>enabled\<close> is the list of slots it visits, to
    which the lemmas reduce every operation.
\<close>

section \<open>Data\<close>

text \<open>The per-next-hop state of the strategies: a union of which the entry's
  strategy selects the member. The \<open>double\<close> fields of the load balancer are
  real numbers.\<close>

datatype nexthop_strategy_state =
    NoState
  | LoadBalancerState (lb_pi: u32) (lb_avg_pi: real) (lb_weight: real)
  | BestPathState (sent_probes: u32) (recv_probes: u32) (rtt_sum: u64)

record strategy_nexthop_state =
  state_priority :: "32 word"
  state_member :: nexthop_strategy_state

record nexthops =
  elts :: "u32 list"
  nexthops_state :: "strategy_nexthop_state list"
  num_elts :: nat
  nexthops_flags :: u64
  cur_elts :: u64

definition MAX_NEXTHOPS :: nat where
  "MAX_NEXTHOPS = 64"

definition INVALID_NEXTHOP :: u32 where
  "INVALID_NEXTHOP = - 1"

definition DEFAULT_PRIORITY :: "32 word" where
  "DEFAULT_PRIORITY = 0"

definition STRATEGY_NEXTHOP_STATE_EMPTY :: strategy_nexthop_state where
  "STRATEGY_NEXTHOP_STATE_EMPTY = \<lparr>state_priority = 0, state_member = LoadBalancerState 0 0 0\<rparr>"

definition NEXTHOPS_EMPTY :: nexthops where
  "NEXTHOPS_EMPTY = \<lparr>elts = replicate MAX_NEXTHOPS 0,
     nexthops_state = replicate MAX_NEXTHOPS STRATEGY_NEXTHOP_STATE_EMPTY,
     num_elts = 0, nexthops_flags = 0, cur_elts = 0\<rparr>"

section \<open>Operations\<close>

definition shift1 :: "nat \<Rightarrow> u64 option" where
  "shift1 i = (if i < 31 then Some (2 ^ i) else if i = 31 then Some (scast (2 ^ 31 :: u32)) else None)"

definition nexthops_is_disabled :: "nexthops \<Rightarrow> nat \<Rightarrow> bool option" where
  "nexthops_is_disabled nh i = do { m \<leftarrow> shift1 i; Some (nexthops_flags nh AND m \<noteq> 0) }"

text \<open>The loop: the table is read anew in every round through \<open>get\<close>; \<open>Inl\<close> is a
  \<open>return\<close> from within the body.\<close>

fun nexthops_enum :: "('s \<Rightarrow> nexthops) \<Rightarrow> (nat \<Rightarrow> u32 \<Rightarrow> 's \<Rightarrow> ('r + 's) option) \<Rightarrow> nat list \<Rightarrow> 's \<Rightarrow> ('r + 's) option" where
  "nexthops_enum get body [] s = Some (Inr s)"
| "nexthops_enum get body (i # is) s =
     (if num_elts (get s) \<le> i then Some (Inr s)
      else do {
        d \<leftarrow> nexthops_is_disabled (get s) i;
        if d then nexthops_enum get body is s
        else do {
          x \<leftarrow> read_at (elts (get s)) i;
          r \<leftarrow> body i x s;
          (case r of Inl v \<Rightarrow> Some (Inl v) | Inr s' \<Rightarrow> nexthops_enum get body is s') } })"

definition nexthops_enumerate :: "('s \<Rightarrow> nexthops) \<Rightarrow> (nat \<Rightarrow> u32 \<Rightarrow> 's \<Rightarrow> ('r + 's) option) \<Rightarrow> 's \<Rightarrow> ('r + 's) option" where
  "nexthops_enumerate get body s = nexthops_enum get body [0..<MAX_NEXTHOPS] s"

definition nexthops_disable :: "nexthops \<Rightarrow> nat \<Rightarrow> (int \<times> nexthops) option" where
  "nexthops_disable nh offset =
     (if num_elts nh \<le> offset then Some (- 1, nh)
      else do {
        m \<leftarrow> shift1 offset;
        Some (0, nh\<lparr>nexthops_flags := nexthops_flags nh OR m, cur_elts := cur_elts nh - 1\<rparr>) })"

definition nexthops_disable_all :: "nexthops \<Rightarrow> nexthops" where
  "nexthops_disable_all nh = nh\<lparr>nexthops_flags := NOT 0, cur_elts := 0\<rparr>"

definition nexthops_reset :: "nexthops \<Rightarrow> nexthops" where
  "nexthops_reset nh = nh\<lparr>nexthops_flags := 0, cur_elts := of_nat (num_elts nh)\<rparr>"

definition nexthops_set_len :: "nexthops \<Rightarrow> nat \<Rightarrow> nexthops" where
  "nexthops_set_len nh n = nh\<lparr>num_elts := n, cur_elts := of_nat n\<rparr>"

definition nexthops_clear :: "nexthops \<Rightarrow> nexthops" where
  "nexthops_clear nh = (nexthops_set_len nh 0)\<lparr>nexthops_flags := 0\<rparr>"

definition nexthops_find :: "nexthops \<Rightarrow> u32 \<Rightarrow> nat option" where
  "nexthops_find nh nexthop = do {
     r \<leftarrow> nexthops_enumerate (\<lambda>_. nh)
            (\<lambda>i n s. Some (if n = nexthop then Inl i else Inr s)) ();
     Some (case r of Inl i \<Rightarrow> i | Inr _ \<Rightarrow> unat INVALID_NEXTHOP) }"

definition nexthops_add :: "nexthops \<Rightarrow> u32 \<Rightarrow> (nat \<times> nexthops) option" where
  "nexthops_add nh nexthop = do {
     r \<leftarrow> nexthops_enumerate (\<lambda>_. nh)
            (\<lambda>i n s. Some (if n = nexthop then Inl i else Inr s)) ();
     (case r of
        Inl i \<Rightarrow> Some (i, nh)
      | Inr _ \<Rightarrow> do {
          es \<leftarrow> write_at (elts nh) (num_elts nh) nexthop;
          Some (num_elts nh, nexthops_reset (nh\<lparr>num_elts := num_elts nh + 1, elts := es\<rparr>)) }) }"

definition nexthops_remove :: "nexthops \<Rightarrow> u32 \<Rightarrow> (nat \<times> nexthops) option" where
  "nexthops_remove nh nexthop = do {
     r \<leftarrow> nexthops_enumerate (\<lambda>_. nh)
            (\<lambda>i n s. if n = nexthop then do {
               let k = num_elts nh - 1;
               e \<leftarrow> read_at (elts nh) k;
               es \<leftarrow> write_at (elts nh) i e;
               t \<leftarrow> read_at (nexthops_state nh) k;
               ts \<leftarrow> write_at (nexthops_state nh) i t;
               Some (Inl (i, nexthops_reset
                 (nh\<lparr>num_elts := k, elts := es, nexthops_state := ts\<rparr>))) }
             else Some (Inr s)) ();
     Some (case r of Inl v \<Rightarrow> v | Inr _ \<Rightarrow> (unat INVALID_NEXTHOP, nh)) }"

definition nexthops_contains :: "nexthops \<Rightarrow> u32 \<Rightarrow> bool option" where
  "nexthops_contains nh nexthop = do {
     r \<leftarrow> nexthops_enumerate (\<lambda>_. nh)
            (\<lambda>i n s. Some (if n = nexthop then Inl True else Inr s)) ();
     Some (case r of Inl b \<Rightarrow> b | Inr _ \<Rightarrow> False) }"

definition nexthops_get_one :: "nexthops \<Rightarrow> u32 option" where
  "nexthops_get_one nh = do {
     r \<leftarrow> nexthops_enumerate (\<lambda>_. nh) (\<lambda>i n s. Some (Inl n)) ();
     Some (case r of Inl n \<Rightarrow> n | Inr _ \<Rightarrow> INVALID_NEXTHOP) }"

definition nexthops_select :: "nexthops \<Rightarrow> nat \<Rightarrow> (int \<times> nexthops) option" where
  "nexthops_select nh i =
     (if num_elts nh \<le> i then Some (- 1, nh)
      else do {
        m \<leftarrow> shift1 i;
        Some (0, nh\<lparr>nexthops_flags := NOT 0 AND NOT m, cur_elts := 1\<rparr>) })"

definition nexthops_select_first :: "nexthops \<Rightarrow> (int \<times> nexthops) option" where
  "nexthops_select_first nh = nexthops_select nh 0"

definition nexthops_set_priority_by_id :: "nexthops \<Rightarrow> nat \<Rightarrow> 32 word \<Rightarrow> nexthops option" where
  "nexthops_set_priority_by_id nh i priority = do {
     t \<leftarrow> read_at (nexthops_state nh) i;
     ts \<leftarrow> write_at (nexthops_state nh) i (t\<lparr>state_priority := priority\<rparr>);
     Some (nh\<lparr>nexthops_state := ts\<rparr>) }"

definition nexthops_set_priority :: "nexthops \<Rightarrow> u32 \<Rightarrow> 32 word \<Rightarrow> nexthops option" where
  "nexthops_set_priority nh nexthop priority = do {
     r \<leftarrow> nexthops_enumerate (\<lambda>nh. nh)
            (\<lambda>i n nh. if nexthop = n
               then do { nh' \<leftarrow> nexthops_set_priority_by_id nh i priority; Some (Inr nh') }
               else Some (Inr nh)) nh;
     Some (case r of Inl nh' \<Rightarrow> nh' | Inr nh' \<Rightarrow> nh') }"

definition nexthops_reset_priority :: "nexthops \<Rightarrow> u32 \<Rightarrow> nexthops option" where
  "nexthops_reset_priority nh nexthop = nexthops_set_priority nh nexthop DEFAULT_PRIORITY"

definition nexthops_reset_priority_by_id :: "nexthops \<Rightarrow> nat \<Rightarrow> nexthops option" where
  "nexthops_reset_priority_by_id nh i = nexthops_set_priority_by_id nh i DEFAULT_PRIORITY"

definition nexthops_reset_priorities :: "nexthops \<Rightarrow> nexthops option" where
  "nexthops_reset_priorities nh = do {
     r \<leftarrow> nexthops_enumerate (\<lambda>nh. nh)
            (\<lambda>i n nh. do { nh' \<leftarrow> nexthops_reset_priority nh (of_nat i); Some (Inr nh') }) nh;
     Some (case r of Inl nh' \<Rightarrow> nh' | Inr nh' \<Rightarrow> nh') }"

definition nexthops_equal :: "nexthops \<Rightarrow> nexthops \<Rightarrow> bool option" where
  "nexthops_equal a b =
     (if num_elts a \<noteq> num_elts b then Some False
      else do {
        r \<leftarrow> nexthops_enumerate (\<lambda>_. a)
               (\<lambda>i n s. do { c \<leftarrow> nexthops_contains b n; Some (if \<not> c then Inl False else Inr s) }) ();
        Some (case r of Inl v \<Rightarrow> v | Inr _ \<Rightarrow> True) })"

text \<open>The copy is field by field over the whole arrays.\<close>

definition nexthops_copy :: "nexthops \<Rightarrow> nexthops \<Rightarrow> nexthops option" where
  "nexthops_copy src dst = do {
     (es, ts) \<leftarrow> foldM (\<lambda>(es, ts) i. do {
         e \<leftarrow> read_at (elts src) i;
         es' \<leftarrow> write_at es i e;
         t \<leftarrow> read_at (nexthops_state src) i;
         ts' \<leftarrow> write_at ts i t;
         Some (es', ts') }) (elts dst, nexthops_state dst) [0..<MAX_NEXTHOPS];
     Some \<lparr>elts = es, nexthops_state = ts, num_elts = num_elts src,
           nexthops_flags = nexthops_flags src, cur_elts = cur_elts src\<rparr> }"

definition hash_step :: "u32 \<Rightarrow> u32 \<Rightarrow> u32" where
  "hash_step h n = (let a = h + n; b = a + push_bit 10 a in b XOR drop_bit 6 b)"

definition nexthops_get_hash :: "nexthops \<Rightarrow> u32 option" where
  "nexthops_get_hash nh = do {
     r \<leftarrow> nexthops_enumerate (\<lambda>_. nh) (\<lambda>i n h. Some (Inr (hash_step h n))) 0;
     (let h = (case r of Inl h \<Rightarrow> h | Inr h \<Rightarrow> h);
          a = h + push_bit 3 h;
          b = a XOR drop_bit 11 a
      in Some (b + push_bit 15 b)) }"

section \<open>The enabled next hops\<close>

definition enabled_from :: "nat \<Rightarrow> nexthops \<Rightarrow> (nat \<times> u32) list" where
  "enabled_from k nh =
     map (\<lambda>i. (i, elts nh ! i)) (filter (\<lambda>i. \<not> bit (nexthops_flags nh) i) [k..<num_elts nh])"

abbreviation enabled :: "nexthops \<Rightarrow> (nat \<times> u32) list" where
  "enabled nh \<equiv> enabled_from 0 nh"

definition nexthops_wf :: "nexthops \<Rightarrow> bool" where
  "nexthops_wf nh \<longleftrightarrow> length (elts nh) = MAX_NEXTHOPS \<and>
     length (nexthops_state nh) = MAX_NEXTHOPS \<and> num_elts nh \<le> 31"

definition same_from :: "nat \<Rightarrow> nexthops \<Rightarrow> nexthops \<Rightarrow> bool" where
  "same_from k a b \<longleftrightarrow> num_elts a = num_elts b \<and> elts a = elts b \<and>
     length (nexthops_state a) = length (nexthops_state b) \<and>
     (\<forall>j\<ge>k. bit (nexthops_flags a) j = bit (nexthops_flags b) j)"

fun loopM :: "(nat \<Rightarrow> 'a \<Rightarrow> 's \<Rightarrow> ('r + 's) option) \<Rightarrow> (nat \<times> 'a) list \<Rightarrow> 's \<Rightarrow> ('r + 's) option" where
  "loopM body [] s = Some (Inr s)"
| "loopM body (p # ps) s = do {
     r \<leftarrow> body (fst p) (snd p) s;
     (case r of Inl v \<Rightarrow> Some (Inl v) | Inr s' \<Rightarrow> loopM body ps s') }"

lemma nexthops_is_disabled_bit: "i < 31 \<Longrightarrow> nexthops_is_disabled nh i = Some (bit (nexthops_flags nh) i)"
  by (simp add: nexthops_is_disabled_def shift1_def and_exp_eq_0_iff_not_bit)

lemma enabled_from_same: "same_from k a b \<Longrightarrow> enabled_from k b = enabled_from k a"
  by (auto simp: enabled_from_def same_from_def intro!: arg_cong [of _ _ "map _"] filter_cong)

lemma enabled_from_Cons:
  "k < num_elts nh \<Longrightarrow> enabled_from k nh =
     (if bit (nexthops_flags nh) k then [] else [(k, elts nh ! k)]) @ enabled_from (Suc k) nh"
  by (simp add: enabled_from_def upt_conv_Cons)

lemma enabled_from_Nil: "num_elts nh \<le> k \<Longrightarrow> enabled_from k nh = []"
  by (simp add: enabled_from_def)

lemma nexthops_wf_same: "same_from k a b \<Longrightarrow> nexthops_wf a \<Longrightarrow> nexthops_wf b"
  by (simp add: same_from_def nexthops_wf_def)

lemma nexthops_enum_loop_wf:
  assumes frame: "\<And>i x s s'. nexthops_wf (get s) \<Longrightarrow> i < num_elts (get s) \<Longrightarrow> body i x s = Some (Inr s') \<Longrightarrow>
      same_from (Suc i) (get s) (get s')"
    and "nexthops_wf (get s)" "k \<le> MAX_NEXTHOPS"
  shows "nexthops_enum get body [k..<MAX_NEXTHOPS] s = loopM body (enabled_from k (get s)) s"
  using assms(2,3)
proof (induction "MAX_NEXTHOPS - k" arbitrary: k s)
  case 0
  then show ?case by (simp add: enabled_from_Nil nexthops_wf_def MAX_NEXTHOPS_def)
next
  case (Suc d)
  then have k: "k < MAX_NEXTHOPS" and d: "d = MAX_NEXTHOPS - Suc k" by simp_all
  show ?case
  proof (cases "num_elts (get s) \<le> k")
    case True
    then show ?thesis by (simp add: enabled_from_Nil upt_conv_Cons [OF k])
  next
    case False
    with Suc.prems have dis: "nexthops_is_disabled (get s) k = Some (bit (nexthops_flags (get s)) k)"
      and rd: "read_at (elts (get s)) k = Some (elts (get s) ! k)"
      using k by (auto simp: nexthops_is_disabled_bit nexthops_wf_def read_at_def)
    have next_round: "nexthops_enum get body [Suc k..<MAX_NEXTHOPS] s' = loopM body (enabled_from (Suc k) (get s)) s'"
      if "same_from (Suc k) (get s) (get s')" for s'
      using Suc.hyps(1) [OF d, of s'] nexthops_wf_same [OF that Suc.prems(1)] enabled_from_same [OF that] k by simp
    have self: "same_from (Suc k) (get s) (get s)" by (simp add: same_from_def)
    show ?thesis
    proof (cases "bit (nexthops_flags (get s)) k")
      case True
      then show ?thesis using False dis next_round [OF self] by (simp add: upt_conv_Cons [OF k] enabled_from_Cons)
    next
      case bit: False
      then show ?thesis using False dis rd
        by (auto simp: upt_conv_Cons [OF k] enabled_from_Cons next_round [OF frame [OF Suc.prems(1)]]
            split: sum.split Option.bind_split)
    qed
  qed
qed

lemma nexthops_enumerate_loop_wf:
  assumes "\<And>i x s s'. nexthops_wf (get s) \<Longrightarrow> i < num_elts (get s) \<Longrightarrow> body i x s = Some (Inr s') \<Longrightarrow>
      same_from (Suc i) (get s) (get s')"
    and "nexthops_wf (get s)"
  shows "nexthops_enumerate get body s = loopM body (enabled (get s)) s"
  unfolding nexthops_enumerate_def by (rule nexthops_enum_loop_wf) (use assms in auto)

lemma nexthops_enumerate_loop:
  assumes "\<And>i x s s'. body i x s = Some (Inr s') \<Longrightarrow> same_from (Suc i) (get s) (get s')"
    and "nexthops_wf (get s)"
  shows "nexthops_enumerate get body s = loopM body (enabled (get s)) s"
  using nexthops_enumerate_loop_wf [of get body s] assms by blast

lemma nexthops_enumerate_const:
  "nexthops_wf nh \<Longrightarrow> nexthops_enumerate (\<lambda>_. nh) body s = loopM body (enabled nh) s"
  using nexthops_enumerate_loop [of body "\<lambda>_. nh" s] by (simp add: same_from_def)

lemma loopM_return:
  "loopM (\<lambda>i n s. Some (if P n then Inl (g i) else Inr s)) ps s =
     Some (case find (\<lambda>p. P (snd p)) ps of Some p \<Rightarrow> Inl (g (fst p)) | None \<Rightarrow> Inr s)"
  by (induction ps) auto

lemma loopM_first:
  assumes "\<And>i n s. n \<noteq> x \<Longrightarrow> body i n s = Some (Inr s)" and "\<And>i s s'. body i x s \<noteq> Some (Inr s')"
  shows "loopM body ps s =
     (case find (\<lambda>p. snd p = x) ps of Some p \<Rightarrow> body (fst p) x s | None \<Rightarrow> Some (Inr s))"
  using assms by (induction ps) (auto split: Option.bind_split sum.split)

lemma loopM_fold:
  "loopM (\<lambda>i n s. Some (Inr (f n s))) ps s = Some (Inr (fold f (map snd ps) s))"
  by (induction ps arbitrary: s) auto

section \<open>Functional behaviour\<close>

lemma find_some_enabled: "find (\<lambda>p. snd p = x) ps = None \<longleftrightarrow> x \<notin> snd ` set ps"
  by (force simp: find_None_iff)

lemma nexthops_find_correct:
  "nexthops_wf nh \<Longrightarrow> nexthops_find nh x = Some (case find (\<lambda>p. snd p = x) (enabled nh) of
     Some p \<Rightarrow> fst p | None \<Rightarrow> unat INVALID_NEXTHOP)"
  by (simp add: nexthops_find_def nexthops_enumerate_const loopM_return split: option.split)

lemma nexthops_contains_correct:
  "nexthops_wf nh \<Longrightarrow> nexthops_contains nh x = Some (x \<in> snd ` set (enabled nh))"
  using find_some_enabled [of x "enabled nh"]
  by (auto simp: nexthops_contains_def nexthops_enumerate_const loopM_return split: option.split)

lemma nexthops_get_one_correct:
  "nexthops_wf nh \<Longrightarrow> nexthops_get_one nh =
     Some (if enabled nh = [] then INVALID_NEXTHOP else snd (hd (enabled nh)))"
  by (cases "enabled nh") (simp_all add: nexthops_get_one_def nexthops_enumerate_const)

lemma nexthops_get_hash_correct:
  "nexthops_wf nh \<Longrightarrow> nexthops_get_hash nh =
     (let h = fold (\<lambda>n h. hash_step h n) (map snd (enabled nh)) 0;
          a = h + push_bit 3 h; b = a XOR drop_bit 11 a
      in Some (b + push_bit 15 b))"
  by (simp add: nexthops_get_hash_def nexthops_enumerate_const loopM_fold)

section \<open>The table as a set of next hops\<close>

definition hops :: "nexthops \<Rightarrow> u32 list" where
  "hops nh = take (num_elts nh) (elts nh)"

definition nexthops_inv :: "nexthops \<Rightarrow> bool" where
  "nexthops_inv nh \<longleftrightarrow> nexthops_wf nh \<and> nexthops_flags nh = 0 \<and>
     cur_elts nh = of_nat (num_elts nh) \<and> distinct (hops nh)"

lemma length_hops: "nexthops_wf nh \<Longrightarrow> length (hops nh) = num_elts nh"
  by (simp add: hops_def nexthops_wf_def MAX_NEXTHOPS_def)

lemma enabled_reset:
  "nexthops_wf nh \<Longrightarrow> nexthops_flags nh = 0 \<Longrightarrow> enabled nh = enumerate 0 (hops nh)"
  by (rule nth_equalityI)
     (simp_all add: enabled_from_def length_hops nth_enumerate_eq hops_def nexthops_wf_def MAX_NEXTHOPS_def)

lemma enabled_hops: "nexthops_inv nh \<Longrightarrow> enabled nh = enumerate 0 (hops nh)"
  by (simp add: nexthops_inv_def enabled_reset)

lemma snd_enumerate: "snd ` set (enumerate k xs) = set xs"
  by (metis list.set_map map_snd_enumerate)

lemma find_enumerate_Some:
  "find (\<lambda>p. snd p = x) (enumerate 0 xs) = Some p \<Longrightarrow> fst p < length xs \<and> snd p = x \<and> xs ! fst p = x"
  by (auto simp: find_Some_iff nth_enumerate_eq)

lemma find_enumerate_None:
  "find (\<lambda>p. snd p = x) (enumerate 0 xs) = None \<longleftrightarrow> x \<notin> set xs"
  by (simp add: find_some_enabled snd_enumerate)

lemma nexthops_contains_hops: "nexthops_inv nh \<Longrightarrow> nexthops_contains nh x = Some (x \<in> set (hops nh))"
  by (simp add: nexthops_contains_correct nexthops_inv_def enabled_reset snd_enumerate)

lemma nexthops_add_hops:
  assumes inv: "nexthops_inv nh" and room: "x \<in> set (hops nh) \<or> num_elts nh < 31"
  shows "\<exists>i nh'. nexthops_add nh x = Some (i, nh') \<and> nexthops_inv nh' \<and> hops nh' ! i = x \<and>
    i < num_elts nh' \<and> hops nh' = (if x \<in> set (hops nh) then hops nh else hops nh @ [x])"
proof (cases "find (\<lambda>p. snd p = x) (enumerate 0 (hops nh))")
  case None
  then have x: "x \<notin> set (hops nh)" by (simp add: find_enumerate_None)
  with room have n: "num_elts nh < 31" by simp
  have "hops (nexthops_reset (nh\<lparr>num_elts := num_elts nh + 1, elts := (elts nh)[num_elts nh := x]\<rparr>)) = hops nh @ [x]"
    using inv n by (simp add: hops_def nexthops_reset_def nexthops_inv_def nexthops_wf_def MAX_NEXTHOPS_def take_Suc_conv_app_nth)
  with None x n inv show ?thesis
    using length_hops [of nh]
    by (auto simp: nexthops_add_def nexthops_enumerate_const enabled_hops loopM_return write_at_def
        nexthops_inv_def nexthops_wf_def nexthops_reset_def MAX_NEXTHOPS_def nth_append)
next
  case (Some p)
  then have "x \<in> set (hops nh)" using find_enumerate_Some [OF Some] by (metis nth_mem)
  with Some inv find_enumerate_Some [OF Some] length_hops [of nh] show ?thesis
    by (auto simp: nexthops_add_def nexthops_enumerate_const enabled_hops loopM_return nexthops_inv_def)
qed

lemma take_update_last:
  assumes "i < n" "n \<le> length xs"
  shows "mset (take (n - 1) (xs[i := xs ! (n - 1)])) = mset (take n xs) - {#xs ! i#}"
proof -
  obtain m where n: "n = Suc m" using assms by (cases n) auto
  have tk: "take n xs = take m xs @ [xs ! m]" using n assms by (simp add: take_Suc_conv_app_nth)
  show ?thesis
  proof (cases "i = m")
    case True
    then show ?thesis using n tk by simp
  next
    case False
    then have "i < length (take m xs)" using assms n by simp
    then have "xs ! i \<in># mset (take m xs)" by (metis nth_mem nth_take set_mset_mset length_take min_less_iff_conj)
    then show ?thesis using n tk False assms
      by (simp add: take_update_swap mset_update diff_union_swap2)
  qed
qed

lemma nexthops_remove_hops:
  assumes inv: "nexthops_inv nh"
  shows "\<exists>i nh'. nexthops_remove nh x = Some (i, nh') \<and> nexthops_inv nh' \<and>
    mset (hops nh') = mset (hops nh) - {#x#} \<and> (x \<notin> set (hops nh) \<longrightarrow> nh' = nh)"
proof (cases "find (\<lambda>p. snd p = x) (enumerate 0 (hops nh))")
  case None
  then have "x \<notin> set (hops nh)" by (simp add: find_enumerate_None)
  with None inv show ?thesis
    by (auto simp: nexthops_remove_def nexthops_enumerate_const enabled_hops nexthops_inv_def
        loopM_first [where x = x] Let_def split: Option.bind_split intro!: exI)
next
  case (Some p)
  let ?n = "num_elts nh" and ?i = "fst p"
  let ?nh = "nexthops_reset (nh\<lparr>num_elts := ?n - 1, elts := (elts nh)[?i := elts nh ! (?n - 1)],
    nexthops_state := (nexthops_state nh)[?i := nexthops_state nh ! (?n - 1)]\<rparr>)"
  have wf: "nexthops_wf nh" using inv by (simp add: nexthops_inv_def)
  have i: "?i < ?n" and xi: "elts nh ! ?i = x" using find_enumerate_Some [OF Some] length_hops [OF wf]
    by (auto simp: hops_def)
  have x: "x \<in> set (hops nh)" using find_enumerate_Some [OF Some] by (metis nth_mem)
  have "?n - Suc 0 < 64" using wf by (auto simp: nexthops_wf_def)
  then have run: "nexthops_remove nh x = Some (?i, ?nh)"
    using Some i wf enabled_hops [OF inv]
    by (simp add: nexthops_remove_def nexthops_enumerate_const loopM_first [where x = x] Let_def
        read_at_def write_at_def nexthops_wf_def MAX_NEXTHOPS_def split: Option.bind_split)
  have ms: "mset (hops ?nh) = mset (hops nh) - {#x#}"
    using take_update_last [OF i, of "elts nh"] wf xi
    by (simp add: hops_def nexthops_reset_def nexthops_wf_def MAX_NEXTHOPS_def)
  have "distinct (hops ?nh)" using inv
    by (metis ms nexthops_inv_def distinct_remove1 mset_eq_imp_distinct_iff mset_remove1)
  then have "nexthops_inv ?nh" using wf by (auto simp: nexthops_inv_def nexthops_wf_def nexthops_reset_def)
  with run ms x show ?thesis by blast
qed

text \<open>What the users of the table rely on: it is a set of next hops.\<close>

locale hop_set =
  fixes add_hop :: "'t \<Rightarrow> 'a \<Rightarrow> (nat \<times> 't) option"
    and remove_hop :: "'t \<Rightarrow> 'a \<Rightarrow> (nat \<times> 't) option"
    and has_hop :: "'t \<Rightarrow> 'a \<Rightarrow> bool option"
    and hop_set :: "'t \<Rightarrow> 'a set"
    and has_room :: "'t \<Rightarrow> bool"
    and invar :: "'t \<Rightarrow> bool"
  assumes add_hop: "invar t \<Longrightarrow> has_room t \<Longrightarrow>
      \<exists>i t'. add_hop t x = Some (i, t') \<and> invar t' \<and> hop_set t' = insert x (hop_set t)"
    and remove_hop: "invar t \<Longrightarrow>
      \<exists>i t'. remove_hop t x = Some (i, t') \<and> invar t' \<and> hop_set t' = hop_set t - {x}"
    and has_hop: "invar t \<Longrightarrow> has_hop t x = Some (x \<in> hop_set t)"
begin

lemma add_remove:
  assumes "invar t" "has_room t"
  shows "\<exists>i t' j t''. add_hop t x = Some (i, t') \<and> has_hop t' x = Some True \<and>
    remove_hop t' x = Some (j, t'') \<and> has_hop t'' x = Some False \<and> hop_set t'' = hop_set t - {x}"
proof -
  obtain i t' where a: "add_hop t x = Some (i, t')" "invar t'" "hop_set t' = insert x (hop_set t)"
    using add_hop [OF assms, of x] by auto
  obtain j t'' where "remove_hop t' x = Some (j, t'')" "invar t''" "hop_set t'' = hop_set t' - {x}"
    using remove_hop [OF a(2), of x] by auto
  with a show ?thesis using has_hop [of t' x] has_hop [of t'' x] by auto
qed

lemma remove_hops:
  "invar t \<Longrightarrow> \<exists>t'. foldM (\<lambda>t x. map_option snd (remove_hop t x)) t xs = Some t' \<and>
     invar t' \<and> hop_set t' = hop_set t - set xs"
proof (induction xs arbitrary: t)
  case (Cons x xs)
  obtain i t' where r: "remove_hop t x = Some (i, t')" "invar t'" "hop_set t' = hop_set t - {x}"
    using remove_hop [OF Cons.prems, of x] by auto
  with Cons.IH [OF r(2)] show ?case by auto
qed simp

end

lemma set_remove_hops: "distinct xs \<Longrightarrow> mset ys = mset xs - {#x#} \<Longrightarrow> set ys = set xs - {x}"
  by (metis mset_eq_setD mset_remove1 set_remove1_eq)

interpretation nhs: hop_set nexthops_add nexthops_remove nexthops_contains
  "\<lambda>nh. set (hops nh)" "\<lambda>nh. num_elts nh < 31" nexthops_inv
proof unfold_locales
  fix t x assume "nexthops_inv t" "num_elts t < 31"
  then show "\<exists>i t'. nexthops_add t x = Some (i, t') \<and> nexthops_inv t' \<and> set (hops t') = insert x (set (hops t))"
    using nexthops_add_hops [of t x] by (metis insert_absorb list.simps(15) set_append Un_insert_right Un_empty_right list.set(1))
next
  fix t x assume "nexthops_inv t"
  then show "\<exists>i t'. nexthops_remove t x = Some (i, t') \<and> nexthops_inv t' \<and> set (hops t') = set (hops t) - {x}"
    using nexthops_remove_hops [of t x] set_remove_hops by (metis nexthops_inv_def)
qed (rule nexthops_contains_hops)

lemma NEXTHOPS_EMPTY_inv [simp]: "nexthops_inv NEXTHOPS_EMPTY" "hops NEXTHOPS_EMPTY = []"
  by (simp_all add: nexthops_inv_def nexthops_wf_def NEXTHOPS_EMPTY_def hops_def)

section \<open>Selection and disabling\<close>

lemma filter_upt_single: "i < n \<Longrightarrow> filter (\<lambda>j. j = i) [0..<n] = [i]"
  by (induction n) (auto simp: less_Suc_eq filter_empty_conv)

lemma enabled_select:
  assumes "nexthops_wf nh" "i < num_elts nh"
  shows "\<exists>nh'. nexthops_select nh i = Some (0, nh') \<and> nexthops_wf nh' \<and> enabled nh' = [(i, elts nh ! i)] \<and> cur_elts nh' = 1"
proof -
  have i: "i < 31" using assms by (simp add: nexthops_wf_def)
  have "filter (\<lambda>j. \<not> bit (NOT (2 ^ i) :: u64) j) [0..<num_elts nh] = filter (\<lambda>j. j = i) [0..<num_elts nh]"
    using assms i by (intro filter_cong) (auto simp: nexthops_wf_def bit_simps)
  also have "\<dots> = [i]" using assms(2) by (rule filter_upt_single)
  finally show ?thesis using assms i
    by (simp add: nexthops_select_def shift1_def enabled_from_def nexthops_wf_def)
qed

lemma enabled_disable:
  assumes "nexthops_wf nh" "i < num_elts nh"
  shows "\<exists>nh'. nexthops_disable nh i = Some (0, nh') \<and> nexthops_wf nh' \<and> same_from (Suc i) nh nh' \<and>
    enabled nh' = filter (\<lambda>p. fst p \<noteq> i) (enabled nh) \<and> cur_elts nh' = cur_elts nh - 1"
proof -
  have i: "i < 31" using assms by (simp add: nexthops_wf_def)
  have b: "bit (f OR 2 ^ i :: u64) j \<longleftrightarrow> bit f j \<or> j = i" for j f using i by (auto simp: bit_simps)
  show ?thesis using assms i
    by (simp add: nexthops_disable_def shift1_def enabled_from_def nexthops_wf_def same_from_def b
        filter_map comp_def conj_commute)
qed

lemma length_filter_fst:
  "distinct (map fst ps) \<Longrightarrow> i \<in> fst ` set ps \<Longrightarrow> length ps = Suc (length (filter (\<lambda>p. fst p \<noteq> i) ps))"
proof (induction ps)
  case (Cons p ps)
  then show ?case by (cases "fst p = i") (auto intro!: arg_cong [of _ _ length] filter_True [symmetric] simp: rev_image_eqI)
qed simp

section \<open>Priorities, comparison and copy\<close>

lemma nexthops_equal_hops:
  assumes "nexthops_inv a" "nexthops_inv b"
  shows "nexthops_equal a b = Some (set (hops a) = set (hops b))"
proof -
  have w: "nexthops_wf a" "nexthops_wf b" using assms by (simp_all add: nexthops_inv_def)
  have len: "card (set (hops a)) = num_elts a" "card (set (hops b)) = num_elts b"
    using assms by (simp_all add: nexthops_inv_def distinct_card length_hops)
  have "nexthops_enumerate (\<lambda>_. a) (\<lambda>i n s. do { c \<leftarrow> nexthops_contains b n; Some (if \<not> c then Inl False else Inr s) }) () =
    loopM (\<lambda>i n s. Some (if n \<notin> set (hops b) then Inl False else Inr s)) (enabled a) ()"
    using nexthops_enumerate_const [OF w(1)] assms(2) by (simp add: nexthops_contains_hops)
  moreover have "find (\<lambda>p. snd p \<notin> set (hops b)) (enabled a) = None \<longleftrightarrow> set (hops a) \<subseteq> set (hops b)"
    using snd_enumerate [of 0 "hops a"] enabled_hops [OF assms(1)] by (force simp: find_None_iff)
  moreover have "set (hops a) \<subseteq> set (hops b) \<longleftrightarrow> set (hops a) = set (hops b)" if "num_elts a = num_elts b"
    using that len by (metis List.finite_set card_subset_eq subset_refl)
  ultimately show ?thesis using len
    by (auto simp: nexthops_equal_def loopM_return split: option.split)
qed

lemma set_priority_by_id_frame:
  "nexthops_set_priority_by_id nh i p = Some nh' \<Longrightarrow> same_from k nh nh'"
  by (auto simp: nexthops_set_priority_by_id_def same_from_def read_at_def write_at_def split: if_splits)

lemma nexthops_copy_arrays:
  assumes "length es = n" "length ts = n" "length as = n" "length bs = n" "m \<le> n"
  shows "foldM (\<lambda>(es, ts) i. do { e \<leftarrow> read_at as i; es' \<leftarrow> write_at es i e; t \<leftarrow> read_at bs i; ts' \<leftarrow> write_at ts i t; Some (es', ts') })
    (es, ts) [0..<m] = Some (take m as @ drop m es, take m bs @ drop m ts)"
  using assms(5)
proof (induction m)
  case (Suc m)
  have upd: "(take m xs @ drop m ys)[m := xs ! m] = take (Suc m) xs @ drop (Suc m) ys"
    if "length xs = n" "length ys = n" for xs ys :: "'z list"
    using Suc.prems that by (simp add: list_update_append take_Suc_conv_app_nth Cons_nth_drop_Suc [symmetric])
  from Suc assms show ?case
    by (simp add: foldM_append read_at_def write_at_def upd)
qed simp

lemma nexthops_copy_eq:
  "nexthops_wf src \<Longrightarrow> nexthops_wf dst \<Longrightarrow> nexthops_copy src dst = Some (nexthops.truncate src)"
  by (simp add: nexthops_copy_def nexthops_copy_arrays [where n = MAX_NEXTHOPS] nexthops_wf_def nexthops.truncate_def)

section \<open>Properties\<close>

definition example_hops :: nexthops where
  "example_hops = NEXTHOPS_EMPTY\<lparr>elts := [5, 7, 9] @ replicate 61 0, num_elts := 3, cur_elts := 3\<rparr>"

lemma example_hops_inv: "nexthops_inv example_hops" "hops example_hops = [5, 7, 9]"
  by (simp_all add: nexthops_inv_def nexthops_wf_def example_hops_def NEXTHOPS_EMPTY_def hops_def MAX_NEXTHOPS_def)

text \<open>C27: in a table that holds no hop twice, hides none of them and has fewer than 31 (the
  bound is 31 and not \<open>MAX_NEXTHOPS\<close>, 64, as the flags are made by shifting an \<open>int\<close>), adding
  a next hop and removing it again succeeds, the table reports it exactly in between, and
  afterwards holds what it held before, less that next hop. A hidden hop is left out because
  \<open>nexthops_add\<close> does not see it and enters it a second time.\<close>

theorem nexthops_add_remove:
  assumes "nexthops_inv nh" "num_elts nh < 31"
  shows "\<exists>i nh' j nh''. nexthops_add nh x = Some (i, nh') \<and> nexthops_contains nh' x = Some True \<and>
    nexthops_remove nh' x = Some (j, nh'') \<and> nexthops_contains nh'' x = Some False \<and>
    set (hops nh'') = set (hops nh) - {x}"
  by (rule nhs.add_remove [OF assms])

theorem nexthops_add_remove_witness:
  "num_elts example_hops < 31 \<and> (\<exists>i nh' j nh''. nexthops_add example_hops 11 = Some (i, nh') \<and>
    nexthops_contains nh' 11 = Some True \<and> nexthops_remove nh' 11 = Some (j, nh'') \<and>
    nexthops_contains nh'' 11 = Some False \<and> set (hops nh'') = {5, 7, 9})"
proof -
  have n: "num_elts example_hops < 31" by (simp add: example_hops_def)
  with nexthops_add_remove [OF example_hops_inv(1) n, of 11] show ?thesis by (simp add: example_hops_inv)
qed

text \<open>C28: disabling slot \<open>i\<close> hides exactly that slot from the enumeration, and the
  counter \<open>cur_elts\<close> goes on being the number of enabled next hops exactly when
  the slot was enabled before: a second disabling counts the slot twice.\<close>

theorem nexthops_disable_counts:
  assumes "nexthops_wf nh" "i < num_elts nh" "cur_elts nh = of_nat (length (enabled nh))"
  shows "\<exists>nh'. nexthops_disable nh i = Some (0, nh') \<and>
    enabled nh' = filter (\<lambda>p. fst p \<noteq> i) (enabled nh) \<and>
    (cur_elts nh' = of_nat (length (enabled nh')) \<longleftrightarrow> i \<in> fst ` set (enabled nh))"
proof -
  obtain nh' where d: "nexthops_disable nh i = Some (0, nh')" "cur_elts nh' = cur_elts nh - 1"
    and e: "enabled nh' = filter (\<lambda>p. fst p \<noteq> i) (enabled nh)" using enabled_disable [OF assms(1,2)] by auto
  have dist: "distinct (map fst (enabled nh))" by (simp add: enabled_from_def comp_def)
  show ?thesis
  proof (cases "i \<in> fst ` set (enabled nh)")
    case True
    then have "length (enabled nh) = Suc (length (filter (\<lambda>p. fst p \<noteq> i) (enabled nh)))"
      by (rule length_filter_fst [OF dist])
    with True d e assms(3) show ?thesis by auto
  next
    case False
    then have "filter (\<lambda>p. fst p \<noteq> i) (enabled nh) = enabled nh" by (auto intro!: filter_True)
    with False d e assms(3) show ?thesis by auto
  qed
qed

theorem nexthops_disable_counts_witness:
  "\<exists>nh'. nexthops_disable example_hops 1 = Some (0, nh') \<and> enabled nh' = [(0, 5), (2, 9)] \<and> cur_elts nh' = 2"
proof -
  have e: "enabled example_hops = [(0, 5), (1, 7), (2, 9)]"
    by (simp add: enabled_hops [OF example_hops_inv(1)] example_hops_inv(2))
  have "nexthops_wf example_hops" using example_hops_inv(1) by (simp add: nexthops_inv_def)
  moreover have "1 < num_elts example_hops" "cur_elts example_hops = 3" by (simp_all add: example_hops_def)
  ultimately show ?thesis using nexthops_disable_counts [of example_hops 1] by (auto simp: e)
qed

text \<open>C33: for tables without disabled or repeated next hops \<open>nexthops_equal\<close>
  answers whether they hold the same set of next hops.\<close>

theorem nexthops_equal_same_set:
  assumes "nexthops_inv a" "nexthops_inv b"
  shows "nexthops_equal a b = Some (set (hops a) = set (hops b))"
  by (rule nexthops_equal_hops [OF assms])

theorem nexthops_equal_same_set_witness:
  "nexthops_equal example_hops (example_hops\<lparr>elts := [9, 5, 7] @ replicate 61 0\<rparr>) = Some True"
proof -
  let ?b = "example_hops\<lparr>elts := [9, 5, 7] @ replicate 61 0\<rparr>"
  have "nexthops_inv ?b" "hops ?b = [9, 5, 7]"
    by (simp_all add: nexthops_inv_def nexthops_wf_def example_hops_def NEXTHOPS_EMPTY_def hops_def MAX_NEXTHOPS_def)
  with nexthops_equal_same_set [OF example_hops_inv(1), of ?b] show ?thesis by (auto simp: example_hops_inv(2))
qed

end
