(* ===== verification/Msgbuf.thy ===== *)
theory Msgbuf
  imports Util_Pool Hicn_Packet "HOL-Library.Multiset"
begin

text \<open>
  The message buffers of the forwarder (\<open>core/msgbuf.h\<close>, \<open>core/msgbuf.c\<close>) and the
  reference-counted pool they live in (\<open>core/msgbuf_pool.c\<close>).

  The array \<open>packet\<close> of a message buffer is the byte list of its packet buffer, which is
  set up to point to it; the offset is relative, so a copy of the structure has its own
  packet.  A message buffer of the pool is named by its index.  The union of name and command
  type holds the name.  A pointer into the pool that was taken before the pool was moved by a
  resize is not followed: the step is \<^term>\<open>None\<close>.  An argument \<open>junk\<close> is the value of
  an uninitialised local variable.
\<close>

section \<open>Message buffers\<close>

record msgbuf =
  mb_pkbuf :: hicn_packet_buffer
  mb_connection_id :: u32
  mb_recv_ts :: u64
  mb_refs :: u32
  mb_path_label :: u32
  mb_name :: hicn_name
  mb_name_hash :: u32

definition MTU :: u16 where [simp]: "MTU = 1500"

definition REQUEST_LIGHT :: u8 where [simp]: "REQUEST_LIGHT = 0xc0"

definition MIN_PROBE_SUFFIX :: u32 where "MIN_PROBE_SUFFIX = 0xefffffff"

definition MAX_PROBE_SUFFIX :: u32 where "MAX_PROBE_SUFFIX = 0xffffffff - 1"

definition msgbuf_initialize :: "msgbuf \<Rightarrow> (int \<times> msgbuf) option" where
  "msgbuf_initialize m = do {
     let pk = hicn_packet_set_buffer (pk_bytes (mb_pkbuf m)) MTU 0 (mb_pkbuf m);
     (_, pk) \<leftarrow> hicn_packet_init_header 0 pk;
     Some (0, m\<lparr>mb_pkbuf := pk\<rparr>) }"

definition msgbuf_initialize_from_packet :: "msgbuf \<Rightarrow> int \<times> msgbuf" where
  "msgbuf_initialize_from_packet m =
     (0, m\<lparr>mb_pkbuf := hicn_packet_set_buffer (pk_bytes (mb_pkbuf m)) MTU (pk_len (mb_pkbuf m)) (mb_pkbuf m)\<rparr>)"

definition msgbuf_get_type :: "msgbuf \<Rightarrow> u32" where
  "msgbuf_get_type m = hicn_packet_get_type (mb_pkbuf m)"

definition msgbuf_set_type :: "u32 \<Rightarrow> msgbuf \<Rightarrow> msgbuf" where
  "msgbuf_set_type type m = m\<lparr>mb_pkbuf := hicn_packet_set_type type (mb_pkbuf m)\<rparr>"

definition is_interest_or_data :: "msgbuf \<Rightarrow> bool" where
  "is_interest_or_data m \<longleftrightarrow>
     msgbuf_get_type m = HICN_PACKET_TYPE_INTEREST \<or> msgbuf_get_type m = HICN_PACKET_TYPE_DATA"

definition msgbuf_get_name :: "msgbuf \<Rightarrow> hicn_name option" where
  "msgbuf_get_name m = do { assert_that (is_interest_or_data m); Some (mb_name m) }"

definition msgbuf_set_name :: "hicn_name \<Rightarrow> msgbuf \<Rightarrow> msgbuf" where
  "msgbuf_set_name name m = m\<lparr>mb_name := name\<rparr>"

definition msgbuf_get_name_hash :: "msgbuf \<Rightarrow> u32 option" where
  "msgbuf_get_name_hash m = do { assert_that (is_interest_or_data m); Some (mb_name_hash m) }"

definition msgbuf_get_len :: "msgbuf \<Rightarrow> nat" where
  "msgbuf_get_len m = hicn_packet_get_len (mb_pkbuf m)"

definition msgbuf_set_len :: "u64 \<Rightarrow> msgbuf \<Rightarrow> msgbuf" where
  "msgbuf_set_len len m = m\<lparr>mb_pkbuf := hicn_packet_set_len len (mb_pkbuf m)\<rparr>"

definition msgbuf_get_interest_lifetime :: "u32 \<Rightarrow> msgbuf \<Rightarrow> u32 option" where
  "msgbuf_get_interest_lifetime junk m = do {
     (rc, lifetime) \<leftarrow> hicn_interest_get_lifetime junk (mb_pkbuf m);
     Some (if rc \<noteq> HICN_LIB_ERROR_NONE then 0 else lifetime) }"

definition msgbuf_set_interest_lifetime :: "u32 \<Rightarrow> msgbuf \<Rightarrow> (bool \<times> msgbuf) option" where
  "msgbuf_set_interest_lifetime lifetime m = do {
     (rc, pk) \<leftarrow> hicn_interest_set_lifetime lifetime (mb_pkbuf m);
     Some (rc = HICN_LIB_ERROR_NONE, m\<lparr>mb_pkbuf := pk\<rparr>) }"

definition msgbuf_get_data_expiry_time :: "u32 \<Rightarrow> msgbuf \<Rightarrow> u32 option" where
  "msgbuf_get_data_expiry_time junk m = do {
     (rc, lifetime) \<leftarrow> hicn_data_get_expiry_time junk (mb_pkbuf m);
     Some (if rc \<noteq> HICN_LIB_ERROR_NONE then 0 else lifetime) }"

definition msgbuf_set_data_expiry_time :: "u32 \<Rightarrow> msgbuf \<Rightarrow> (bool \<times> msgbuf) option" where
  "msgbuf_set_data_expiry_time lifetime m = do {
     (rc, pk) \<leftarrow> hicn_data_set_expiry_time lifetime (mb_pkbuf m);
     Some (rc = HICN_LIB_ERROR_NONE, m\<lparr>mb_pkbuf := pk\<rparr>) }"

definition msgbuf_init_pathlabel :: "u8 \<Rightarrow> msgbuf \<Rightarrow> msgbuf option" where
  "msgbuf_init_pathlabel junk m = do {
     (rc, pl) \<leftarrow> hicn_data_get_path_label junk (mb_pkbuf m);
     assert_that (rc = HICN_LIB_ERROR_NONE);
     Some (m\<lparr>mb_path_label := ucast pl\<rparr>) }"

definition msgbuf_get_path_label :: "u8 \<Rightarrow> msgbuf \<Rightarrow> (int \<times> u8) option" where
  "msgbuf_get_path_label old m = do {
     assert_that (msgbuf_get_type m = HICN_PACKET_TYPE_DATA);
     hicn_data_get_path_label old (mb_pkbuf m) }"

definition msgbuf_set_path_label :: "u8 \<Rightarrow> msgbuf \<Rightarrow> (int \<times> msgbuf) option" where
  "msgbuf_set_path_label pl m = do {
     assert_that (msgbuf_get_type m = HICN_PACKET_TYPE_DATA);
     (rc, pk) \<leftarrow> hicn_data_set_path_label pl (mb_pkbuf m);
     Some (rc, m\<lparr>mb_pkbuf := pk\<rparr>) }"

definition msgbuf_update_pathlabel :: "u8 \<Rightarrow> u32 \<Rightarrow> msgbuf \<Rightarrow> (int \<times> msgbuf) option" where
  "msgbuf_update_pathlabel junk outface m = do {
     assert_that (msgbuf_get_type m = HICN_PACKET_TYPE_DATA);
     (rc, pl) \<leftarrow> msgbuf_get_path_label junk m;
     if rc < 0 then Some (- 1, m) else msgbuf_set_path_label (update_path_label pl outface) m }"

definition msgbuf_reset_pathlabel :: "msgbuf \<Rightarrow> msgbuf option" where
  "msgbuf_reset_pathlabel m = do {
     (_, pk) \<leftarrow> hicn_data_set_path_label 0 (mb_pkbuf m);
     Some (m\<lparr>mb_path_label := 0, mb_pkbuf := pk\<rparr>) }"

definition msgbuf_modify_suffix :: "hicn_name \<Rightarrow> u32 \<Rightarrow> msgbuf \<Rightarrow> msgbuf option" where
  "msgbuf_modify_suffix junk new_suffix m = do {
     assert_that (msgbuf_get_type m = HICN_PACKET_TYPE_INTEREST);
     (_, name) \<leftarrow> hicn_interest_get_name junk (mb_pkbuf m);
     (_, pk) \<leftarrow> hicn_interest_set_name (hicn_name_set_suffix name new_suffix) (mb_pkbuf m);
     Some (m\<lparr>mb_pkbuf := pk\<rparr>) }"

definition msgbuf_is_command :: "msgbuf \<Rightarrow> bool option" where
  "msgbuf_is_command m = do { b \<leftarrow> read_at (pk_bytes (mb_pkbuf m)) 0; Some (b = REQUEST_LIGHT) }"

definition msgbuf_is_probe :: "hicn_name \<Rightarrow> msgbuf \<Rightarrow> bool option" where
  "msgbuf_is_probe junk m = do {
     assert_that (msgbuf_get_type m = HICN_PACKET_TYPE_DATA);
     (_, name) \<leftarrow> hicn_data_get_name junk (mb_pkbuf m);
     let suffix' = name_suffix name;
     Some (MIN_PROBE_SUFFIX \<le> suffix' \<and> suffix' \<le> MAX_PROBE_SUFFIX) }"

section \<open>The pool\<close>

type_synonym msgbuf_pool = "msgbuf pool"

definition PACKET_POOL_DEFAULT_INIT_SIZE :: nat where "PACKET_POOL_DEFAULT_INIT_SIZE = 1024"

text \<open>An element of a pool of any kind, and its update.\<close>

definition pool_at :: "'a pool \<Rightarrow> nat \<Rightarrow> 'a option" where
  "pool_at ph i = (if i < pool_alloc_size ph then Some (pool_elts ph i) else None)"

definition pool_upd :: "'a pool \<Rightarrow> nat \<Rightarrow> ('a \<Rightarrow> 'a) \<Rightarrow> 'a pool" where
  "pool_upd ph i f = ph\<lparr>pool_elts := (pool_elts ph)(i := f (pool_elts ph i))\<rparr>"

definition msgbuf_pool_create :: "msgbuf \<Rightarrow> (nat \<Rightarrow> msgbuf) \<Rightarrow> nat \<Rightarrow> nat \<Rightarrow> msgbuf_pool option option" where
  "msgbuf_pool_create zero junk init_size max_size =
     pool_init zero junk (if init_size = 0 then PACKET_POOL_DEFAULT_INIT_SIZE else init_size) 0"

definition msgbuf_pool_get :: "msgbuf_pool \<Rightarrow> (nat \<times> msgbuf_pool) option" where
  "msgbuf_pool_get mp = do {
     (id', mp) \<leftarrow> pool_get mp;
     Some (id', pool_upd mp id' (mb_refs_update (\<lambda>_. 0))) }"

definition msgbuf_pool_put :: "msgbuf_pool \<Rightarrow> nat \<Rightarrow> msgbuf_pool option" where
  "msgbuf_pool_put mp id' = pool_put mp id'"

partial_function (option) getn_resize :: "msgbuf_pool \<Rightarrow> nat \<Rightarrow> msgbuf_pool option" where
  "getn_resize mp n =
     (if vector_len (free_indices mp) < n then do {
        r \<leftarrow> pool_resize mp;
        mp \<leftarrow> r;
        getn_resize mp n }
      else Some mp)"

text \<open>\<open>msgbuf_pool_get\<close> aborts when it cannot allocate, so the branch that gives the
  buffers back is never taken.\<close>

fun getn_loop :: "msgbuf_pool \<Rightarrow> nat \<Rightarrow> (nat list \<times> msgbuf_pool) option" where
  "getn_loop mp 0 = Some ([], mp)"
| "getn_loop mp (Suc n) = do {
     (i, mp) \<leftarrow> msgbuf_pool_get mp;
     (is, mp) \<leftarrow> getn_loop mp n;
     Some (i # is, mp) }"

definition msgbuf_pool_getn :: "msgbuf_pool \<Rightarrow> nat \<Rightarrow> (nat list \<times> msgbuf_pool) option" where
  "msgbuf_pool_getn mp n = do { mp \<leftarrow> getn_resize mp n; getn_loop mp n }"

definition msgbuf_pool_at :: "msgbuf_pool \<Rightarrow> nat \<Rightarrow> msgbuf option" where
  "msgbuf_pool_at mp id' = pool_at mp id'"

definition msgbuf_pool_acquire :: "nat \<Rightarrow> msgbuf_pool \<Rightarrow> msgbuf_pool" where
  "msgbuf_pool_acquire id' mp = pool_upd mp id' (mb_refs_update (\<lambda>r. r + 1))"

definition msgbuf_pool_release :: "msgbuf_pool \<Rightarrow> nat \<Rightarrow> msgbuf_pool option" where
  "msgbuf_pool_release mp id' = do {
     m \<leftarrow> pool_at mp id';
     assert_that (mb_refs m > 0);
     let mp = pool_upd mp id' (mb_refs_update (\<lambda>r. r - 1));
     if mb_refs m - 1 = 0 then msgbuf_pool_put mp id' else Some mp }"

definition msgbuf_pool_clone :: "msgbuf_pool \<Rightarrow> nat \<Rightarrow> (nat \<times> msgbuf_pool) option" where
  "msgbuf_pool_clone mp original = do {
     _ \<leftarrow> msgbuf_pool_at mp original;
     (offset, mp') \<leftarrow> pool_get mp;
     assert_that (pool_alloc_size mp' = pool_alloc_size mp);
     m \<leftarrow> msgbuf_pool_at mp' original;
     Some (offset, pool_upd mp' offset (\<lambda>_. m\<lparr>mb_refs := 0\<rparr>)) }"

section \<open>Reference counts\<close>

text \<open>\<open>H\<close> is the multiset of the references that are held: every buffer in use has as
  many of them as its counter says.\<close>

definition refs_ok :: "msgbuf_pool \<Rightarrow> nat multiset \<Rightarrow> bool" where
  "refs_ok mp H \<longleftrightarrow> pool_inv mp \<and> set_mset H \<subseteq> pool_used mp \<and> size H < 2 ^ 32 \<and>
     (\<forall>i \<in> pool_used mp. unat (mb_refs (pool_elts mp i)) = count H i)"

lemma pool_upd_simps [simp]:
  "pool_alloc_size (pool_upd ph i f) = pool_alloc_size ph" "free_indices (pool_upd ph i f) = free_indices ph"
  "free_bitmap (pool_upd ph i f) = free_bitmap ph" "pool_max_size (pool_upd ph i f) = pool_max_size ph"
  "pool_elts (pool_upd ph i f) = (pool_elts ph)(i := f (pool_elts ph i))"
  "pool_used (pool_upd ph i f) = pool_used ph" "pool_wf (pool_upd ph i f) = pool_wf ph"
  "pool_bits_ok (pool_upd ph i f) = pool_bits_ok ph" "pool_inv (pool_upd ph i f) = pool_inv ph"
  by (simp_all add: pool_upd_def pool_used_def pool_wf_def pool_bits_ok_def pool_inv_alt)

lemma pool_used_bound: "i \<in> pool_used ph \<Longrightarrow> i < pool_alloc_size ph"
  by (simp add: pool_used_def)

lemma pool_at_used [simp]: "i \<in> pool_used ph \<Longrightarrow> pool_at ph i = Some (pool_elts ph i)"
  by (simp add: pool_at_def pool_used_bound)

lemma count_less: "size (H :: nat multiset) < n \<Longrightarrow> count H i < n"
  using count_le_size [of H i] by simp

lemma acquire_refs:
  assumes "refs_ok mp H" "i \<in> pool_used mp" "size H + 1 < 2 ^ 32"
  shows "refs_ok (msgbuf_pool_acquire i mp) (add_mset i H)"
proof -
  have "unat (mb_refs (pool_elts mp i)) = count H i" "count H i + 1 < 2 ^ 32"
    using assms count_le_size [of H i] by (auto simp: refs_ok_def)
  then have "unat (mb_refs (pool_elts mp i) + 1) = count H i + 1"
    by (simp add: unat_word_ariths)
  then show ?thesis using assms by (auto simp: refs_ok_def msgbuf_pool_acquire_def)
qed

lemma release_refs:
  assumes "refs_ok mp H" "i \<in># H"
  shows "\<exists>mp'. msgbuf_pool_release mp i = Some mp' \<and> refs_ok mp' (H - {#i#}) \<and>
    pool_used mp' = (if count H i = 1 then pool_used mp - {i} else pool_used mp) \<and>
    (\<forall>j. j \<noteq> i \<longrightarrow> pool_elts mp' j = pool_elts mp j) \<and>
    pool_elts mp' i = pool_elts mp i\<lparr>mb_refs := mb_refs (pool_elts mp i) - 1\<rparr>"
proof -
  let ?r = "mb_refs (pool_elts mp i)"
  let ?mp = "pool_upd mp i (mb_refs_update (\<lambda>r. r - 1))"
  have used: "i \<in> pool_used mp" and r: "unat ?r = count H i" and inv: "pool_inv mp" using assms by (auto simp: refs_ok_def)
  have pos: "0 < count H i" using assms(2) by simp
  then have "1 \<le> unat ?r" using r by simp
  then have r1: "unat (?r - 1) = count H i - 1" "?r > 0" using r
    by (auto simp: unat_sub word_le_nat_alt word_less_nat_alt)
  have refs: "\<forall>j \<in> pool_used mp. unat (mb_refs (pool_elts ?mp j)) = count (H - {#i#}) j"
    using assms r1 by (auto simp: refs_ok_def)
  have size: "size (H - {#i#}) < 2 ^ 32" using assms by (auto simp: refs_ok_def size_Diff_singleton)
  show ?thesis
  proof (cases "count H i = 1")
    case True
    then have "?r - 1 = 0" using r1 by (simp add: unat_eq_zero)
    moreover obtain mp' where mp': "pool_put ?mp i = Some mp'" "pool_inv mp'" "pool_used mp' = pool_used mp - {i}"
      "pool_elts mp' = pool_elts ?mp" using pool_put_frees [of ?mp i] inv used by auto
    moreover have "i \<notin># H - {#i#}" using True by (simp add: count_eq_zero_iff [symmetric])
    then have "set_mset (H - {#i#}) \<subseteq> pool_used mp - {i}" using assms(1)
      by (auto simp: refs_ok_def dest: in_diffD)
    ultimately show ?thesis using used r1 refs size True
      by (auto simp: msgbuf_pool_release_def msgbuf_pool_put_def refs_ok_def split: if_splits)
  next
    case False
    then have "unat (?r - 1) \<noteq> 0" using r1(1) pos by linarith
    then have "?r - 1 \<noteq> 0" by auto
    moreover have "set_mset (H - {#i#}) \<subseteq> pool_used mp" using assms(1) by (auto simp: refs_ok_def dest: in_diffD)
    ultimately show ?thesis using used r1 refs size False inv
      by (simp add: msgbuf_pool_release_def refs_ok_def)
  qed
qed

lemma get_refs:
  assumes "refs_ok mp H"
  shows "\<exists>i mp'. msgbuf_pool_get mp = Some (i, mp') \<and> refs_ok mp' H \<and> i \<notin> pool_used mp \<and>
    pool_used mp' = insert i (pool_used mp) \<and> (\<forall>j. j \<noteq> i \<longrightarrow> pool_elts mp' j = pool_elts mp j)"
proof -
  obtain i mp' where "pool_get mp = Some (i, mp')" "pool_inv mp'" "i \<notin> pool_used mp"
    "pool_used mp' = insert i (pool_used mp)" "pool_elts mp' = pool_elts mp"
    using pool_get_fresh [of mp] assms by (auto simp: refs_ok_def)
  moreover from this have "i \<notin># H" using assms by (auto simp: refs_ok_def)
  then have "count H i = 0" by (simp add: count_eq_zero_iff)
  ultimately show ?thesis using assms by (auto simp: msgbuf_pool_get_def refs_ok_def)
qed

lemma clone_refs:
  assumes "refs_ok mp H" "o' \<in> pool_used mp" "pool_len mp < pool_alloc_size mp"
  shows "\<exists>i mp'. msgbuf_pool_clone mp o' = Some (i, mp') \<and> refs_ok mp' H \<and> i \<notin> pool_used mp \<and>
    pool_used mp' = insert i (pool_used mp) \<and> (\<forall>j. j \<noteq> i \<longrightarrow> pool_elts mp' j = pool_elts mp j) \<and>
    pool_elts mp' i = pool_elts mp o'\<lparr>mb_refs := 0\<rparr>"
proof -
  obtain i mp' where "pool_get mp = Some (i, mp')" "pool_inv mp'" "i \<notin> pool_used mp"
    "pool_used mp' = insert i (pool_used mp)" "pool_elts mp' = pool_elts mp" "pool_alloc_size mp' = pool_alloc_size mp"
    using pool_get_fresh [of mp] assms by (auto simp: refs_ok_def)
  moreover from this have "i \<notin># H" using assms by (auto simp: refs_ok_def)
  then have "count H i = 0" by (simp add: count_eq_zero_iff)
  ultimately show ?thesis using assms(1,2) by (auto simp: msgbuf_pool_clone_def msgbuf_pool_at_def refs_ok_def)
qed

section \<open>Allocating several buffers\<close>

lemma getn_resize_returns:
  assumes "pool_wf mp"
  shows "\<exists>mp'. getn_resize mp n = Some mp' \<and> pool_wf mp' \<and> n \<le> vector_len (free_indices mp') \<and>
    pool_elts mp' = pool_elts mp \<and> pool_alloc_size mp \<le> pool_alloc_size mp' \<and>
    (if vector_len (free_indices mp) < n then set (vec (free_indices mp')) \<inter> {..<pool_alloc_size mp} = {} else mp' = mp)"
  using assms
proof (induction "n - pool_alloc_size mp" arbitrary: mp rule: less_induct)
  case less
  let ?A = "pool_alloc_size mp"
  have pos: "0 < ?A" using less.prems by (simp add: pool_wf_def)
  show ?case
  proof (cases "vector_len (free_indices mp) < n")
    case True
    obtain mp1 where mp1: "pool_resize mp = Some (Some mp1)" "pool_wf mp1" "pool_alloc_size mp1 = 2 * ?A"
      "pool_elts mp1 = pool_elts mp" "set (vec (free_indices mp1)) = {?A..<2 * ?A}" "vector_len (free_indices mp1) = ?A"
      using pool_resize_correct [OF less.prems] by blast
    have run: "getn_resize mp n = getn_resize mp1 n" using True mp1(1) by (simp add: getn_resize.simps [of mp])
    show ?thesis
    proof (cases "?A < n")
      case True': True
      then have "n - pool_alloc_size mp1 < n - ?A" using pos mp1(3) by simp
      from less.hyps [OF this mp1(2)] show ?thesis using run True True' mp1 by fastforce
    next
      case False
      then have "getn_resize mp1 n = Some mp1" using mp1(6) by (simp add: getn_resize.simps)
      then show ?thesis using run True False mp1 by auto
    qed
  qed (use less.prems in \<open>simp add: getn_resize.simps\<close>)
qed

lemma getn_loop_returns:
  assumes "pool_wf mp" "n \<le> vector_len (free_indices mp)"
  shows "\<exists>ids mp'. getn_loop mp n = Some (ids, mp') \<and> pool_wf mp' \<and> length ids = n \<and> distinct ids \<and>
    set ids \<subseteq> set (vec (free_indices mp)) \<and> set (vec (free_indices mp')) = set (vec (free_indices mp)) - set ids \<and>
    pool_alloc_size mp' = pool_alloc_size mp \<and> (\<forall>j. j \<notin> set ids \<longrightarrow> pool_elts mp' j = pool_elts mp j) \<and>
    (\<forall>j \<in> set ids. mb_refs (pool_elts mp' j) = 0)"
  using assms
proof (induction n arbitrary: mp)
  case (Suc n)
  then have free: "0 < vector_len (free_indices mp)" by simp
  obtain i mp1 where get: "pool_get mp = Some (i, mp1)" "pool_wf mp1" "i \<in> set (vec (free_indices mp))"
    "set (vec (free_indices mp1)) = set (vec (free_indices mp)) - {i}"
    "vector_len (free_indices mp1) = vector_len (free_indices mp) - 1"
    "pool_alloc_size mp1 = pool_alloc_size mp" "pool_elts mp1 = pool_elts mp"
    using pool_get_wf [OF Suc.prems(1) free] by blast
  let ?mp = "pool_upd mp1 i (mb_refs_update (\<lambda>_. 0))"
  have "pool_wf ?mp" "n \<le> vector_len (free_indices ?mp)" using get Suc.prems(2) by simp_all
  then obtain ids mp' where IH: "getn_loop ?mp n = Some (ids, mp')" "pool_wf mp'" "length ids = n" "distinct ids"
    "set ids \<subseteq> set (vec (free_indices ?mp))" "set (vec (free_indices mp')) = set (vec (free_indices ?mp)) - set ids"
    "pool_alloc_size mp' = pool_alloc_size ?mp" "\<forall>j. j \<notin> set ids \<longrightarrow> pool_elts mp' j = pool_elts ?mp j"
    "\<forall>j \<in> set ids. mb_refs (pool_elts mp' j) = 0"
    using Suc.IH by blast
  have "getn_loop mp (Suc n) = Some (i # ids, mp')" using get(1) IH(1) by (simp add: msgbuf_pool_get_def)
  moreover have "i \<notin> set ids" using IH(5) get(4) by auto
  ultimately show ?case using IH(2-9) get by auto
qed simp

section \<open>Properties\<close>

definition zero_msgbuf :: msgbuf where
  "zero_msgbuf = \<lparr>mb_pkbuf = zero_packet 1500 HICN_PACKET_FORMAT_NONE 0, mb_connection_id = 0, mb_recv_ts = 0,
     mb_refs = 0, mb_path_label = 0, mb_name = \<lparr>name_prefix = \<lparr>u64_0 = 0, u64_1 = 0\<rparr>, name_suffix = 0\<rparr>, mb_name_hash = 0\<rparr>"

lemma example_pool:
  "\<exists>mp. msgbuf_pool_create zero_msgbuf (\<lambda>_. zero_msgbuf) 0 0 = Some (Some mp) \<and> refs_ok mp {#} \<and> pool_used mp = {}"
  using pool_init_inv [of PACKET_POOL_DEFAULT_INIT_SIZE zero_msgbuf "\<lambda>_. zero_msgbuf"]
  by (auto simp: msgbuf_pool_create_def refs_ok_def PACKET_POOL_DEFAULT_INIT_SIZE_def)

text \<open>C11: the references of the pool are counted: from a state in which every buffer in use has
  as many holders as its counter says, taking a buffer, acquiring it and releasing it always
  succeed and keep that state; a release frees the buffer exactly when it was the last reference
  to it, and no other buffer is touched.\<close>

theorem msgbuf_pool_counts_references:
  assumes "refs_ok mp H" "size H + 1 < 2 ^ 32"
  shows "\<exists>i mp1 mp2. msgbuf_pool_get mp = Some (i, mp1) \<and> i \<notin> pool_used mp \<and> refs_ok mp1 H \<and>
    mp2 = msgbuf_pool_acquire i mp1 \<and> refs_ok mp2 (add_mset i H) \<and>
    (\<forall>j \<in># add_mset i H. \<exists>mp3. msgbuf_pool_release mp2 j = Some mp3 \<and> refs_ok mp3 (add_mset i H - {#j#}) \<and>
       (j \<notin> pool_used mp3 \<longleftrightarrow> count (add_mset i H) j = 1) \<and> pool_used mp2 - {j} \<subseteq> pool_used mp3 \<and>
       (\<forall>k. k \<noteq> j \<longrightarrow> pool_elts mp3 k = pool_elts mp2 k))"
proof -
  obtain i mp1 where 1: "msgbuf_pool_get mp = Some (i, mp1)" "refs_ok mp1 H" "i \<notin> pool_used mp"
    "pool_used mp1 = insert i (pool_used mp)" using get_refs [OF assms(1)] by blast
  let ?mp2 = "msgbuf_pool_acquire i mp1"
  have 2: "refs_ok ?mp2 (add_mset i H)" using acquire_refs [OF 1(2) _ assms(2)] 1(4) by simp
  have "\<exists>mp3. msgbuf_pool_release ?mp2 j = Some mp3 \<and> refs_ok mp3 (add_mset i H - {#j#}) \<and>
       (j \<notin> pool_used mp3 \<longleftrightarrow> count (add_mset i H) j = 1) \<and> pool_used ?mp2 - {j} \<subseteq> pool_used mp3 \<and>
       (\<forall>k. k \<noteq> j \<longrightarrow> pool_elts mp3 k = pool_elts ?mp2 k)" if j: "j \<in># add_mset i H" for j
  proof -
    obtain mp3 where mp3: "msgbuf_pool_release ?mp2 j = Some mp3" "refs_ok mp3 (add_mset i H - {#j#})"
      "pool_used mp3 = (if count (add_mset i H) j = 1 then pool_used ?mp2 - {j} else pool_used ?mp2)"
      "\<forall>k. k \<noteq> j \<longrightarrow> pool_elts mp3 k = pool_elts ?mp2 k"
      using release_refs [OF 2 j] by blast
    moreover have "j \<in> pool_used ?mp2" using 2 j by (auto simp: refs_ok_def)
    ultimately show ?thesis by (intro exI [of _ mp3]) (auto split: if_splits)
  qed
  with 1 2 show ?thesis by blast
qed

theorem msgbuf_pool_counts_references_witness:
  "\<exists>mp i mp1. msgbuf_pool_create zero_msgbuf (\<lambda>_. zero_msgbuf) 0 0 = Some (Some mp) \<and> msgbuf_pool_get mp = Some (i, mp1) \<and>
     (\<exists>mp3. msgbuf_pool_release (msgbuf_pool_acquire i mp1) i = Some mp3 \<and> i \<notin> pool_used mp3)"
proof -
  obtain mp where mp: "msgbuf_pool_create zero_msgbuf (\<lambda>_. zero_msgbuf) 0 0 = Some (Some mp)" "refs_ok mp {#}"
    using example_pool by blast
  with msgbuf_pool_counts_references [of mp "{#}"] show ?thesis by auto
qed

text \<open>C24: \<open>msgbuf_pool_getn\<close> returns whatever the size of the pool: its loop of resizes ends, and
  it gives \<open>n\<close> different buffers that were not in use, with no references, and touches no other.\<close>

theorem msgbuf_pool_getn_returns:
  assumes "pool_wf mp"
  shows "\<exists>ids mp'. msgbuf_pool_getn mp n = Some (ids, mp') \<and> pool_wf mp' \<and> length ids = n \<and> distinct ids \<and>
    set ids \<inter> pool_used mp = {} \<and> set ids \<subseteq> pool_used mp' \<and>
    (\<forall>j \<in> set ids. mb_refs (pool_elts mp' j) = 0) \<and> (\<forall>j \<in> pool_used mp. pool_elts mp' j = pool_elts mp j)"
proof -
  obtain mp1 where 1: "getn_resize mp n = Some mp1" "pool_wf mp1" "n \<le> vector_len (free_indices mp1)"
    "pool_elts mp1 = pool_elts mp" "pool_alloc_size mp \<le> pool_alloc_size mp1"
    "if vector_len (free_indices mp) < n then set (vec (free_indices mp1)) \<inter> {..<pool_alloc_size mp} = {} else mp1 = mp"
    using getn_resize_returns [OF assms] by blast
  obtain ids mp' where 2: "getn_loop mp1 n = Some (ids, mp')" "pool_wf mp'" "length ids = n" "distinct ids"
    "set ids \<subseteq> set (vec (free_indices mp1))" "set (vec (free_indices mp')) = set (vec (free_indices mp1)) - set ids"
    "pool_alloc_size mp' = pool_alloc_size mp1" "\<forall>j. j \<notin> set ids \<longrightarrow> pool_elts mp' j = pool_elts mp1 j"
    "\<forall>j \<in> set ids. mb_refs (pool_elts mp' j) = 0"
    using getn_loop_returns [OF 1(2,3)] by blast
  have disj: "set ids \<inter> pool_used mp = {}" using 1(6) 2(5) by (auto simp: pool_used_def split: if_splits)
  moreover have "set ids \<subseteq> pool_used mp'" using 1(2) 2(5-7) by (auto simp: pool_used_def pool_wf_def)
  moreover have "\<forall>j \<in> pool_used mp. pool_elts mp' j = pool_elts mp j" using disj 2(8) 1(4) by auto
  ultimately show ?thesis using 1(1) 2 by (intro exI [of _ ids] exI [of _ mp']) (simp add: msgbuf_pool_getn_def)
qed

theorem msgbuf_pool_getn_returns_witness:
  "\<exists>mp ids mp'. msgbuf_pool_create zero_msgbuf (\<lambda>_. zero_msgbuf) 0 0 = Some (Some mp) \<and>
     msgbuf_pool_getn mp 5000 = Some (ids, mp') \<and> length ids = 5000"
proof -
  obtain mp where mp: "msgbuf_pool_create zero_msgbuf (\<lambda>_. zero_msgbuf) 0 0 = Some (Some mp)" "pool_wf mp"
    using example_pool by (auto simp: refs_ok_def pool_inv_alt)
  with msgbuf_pool_getn_returns [of mp 5000] show ?thesis by blast
qed

text \<open>C38: when some buffers are free, but fewer than \<open>n\<close>, \<open>msgbuf_pool_getn\<close> loses them: the
  resize overwrites the stack of free indices, so afterwards they are neither given to the caller
  nor ever allocated again.\<close>

theorem msgbuf_pool_getn_loses_free:
  assumes "pool_wf mp" "vector_len (free_indices mp) < n"
  shows "\<exists>ids mp'. msgbuf_pool_getn mp n = Some (ids, mp') \<and>
    set (vec (free_indices mp)) \<inter> set ids = {} \<and> set (vec (free_indices mp)) \<inter> set (vec (free_indices mp')) = {}"
proof -
  obtain mp1 where 1: "getn_resize mp n = Some mp1" "pool_wf mp1" "n \<le> vector_len (free_indices mp1)"
    "set (vec (free_indices mp1)) \<inter> {..<pool_alloc_size mp} = {}"
    using getn_resize_returns [OF assms(1), of n] assms(2) by auto
  obtain ids mp' where 2: "getn_loop mp1 n = Some (ids, mp')" "set ids \<subseteq> set (vec (free_indices mp1))"
    "set (vec (free_indices mp')) = set (vec (free_indices mp1)) - set ids"
    using getn_loop_returns [OF 1(2,3)] by blast
  moreover have "set (vec (free_indices mp)) \<subseteq> {..<pool_alloc_size mp}" using assms(1) by (auto simp: pool_wf_def)
  ultimately show ?thesis using 1 by (intro exI [of _ ids] exI [of _ mp']) (auto simp: msgbuf_pool_getn_def)
qed

theorem msgbuf_pool_getn_loses_free_witness:
  "\<exists>mp ids mp'. msgbuf_pool_create zero_msgbuf (\<lambda>_. zero_msgbuf) 0 0 = Some (Some mp) \<and>
     msgbuf_pool_getn mp 1025 = Some (ids, mp') \<and> set ids \<inter> {..<1024} = {}"
proof -
  obtain mp where mp: "msgbuf_pool_create zero_msgbuf (\<lambda>_. zero_msgbuf) 0 0 = Some (Some mp)" "pool_wf mp" "pool_used mp = {}"
    using example_pool by (auto simp: refs_ok_def pool_inv_alt)
  have "next_pow2 (2 ^ 10) = 2 ^ 10" by (rule next_pow2_power)
  then have size: "pool_alloc_size mp = 1024"
    using mp(1) pool_init_correct [of zero_msgbuf "\<lambda>_. zero_msgbuf" 1024]
    by (auto simp: msgbuf_pool_create_def PACKET_POOL_DEFAULT_INIT_SIZE_def)
  then have free: "set (vec (free_indices mp)) = {..<1024}" using mp(2,3) by (auto simp: pool_used_def pool_wf_def)
  have "length (vec (free_indices mp)) = card (set (vec (free_indices mp)))"
    using mp(2) by (simp add: pool_wf_def distinct_card)
  then have "vector_len (free_indices mp) = 1024" using free mp(2) by (simp add: vector_len_def vec_length pool_wf_def)
  then show ?thesis using msgbuf_pool_getn_loses_free [OF mp(2), of 1025] free mp(1) by auto
qed

end
