(* ===== verification/Content_Store.thy ===== *)
theory Content_Store
  imports Msgbuf Nexthops
begin

text \<open>
  The entries of the packet cache (\<open>core/packet_cache.h\<close>, \<open>core/pit.h\<close>), the content store
  (\<open>core/content_store.c\<close>) and its LRU list (\<open>content_store/lru.c\<close>): a doubly linked list
  through the entries of the cache, the most recently stored Data first.

  An entry is named by its index in the pool of entries; \<open>INVALID_ENTRY_ID\<close> is
  \<^term>\<open>None\<close>.  The union of an entry is a datatype; reading the member that was not
  written last is \<^term>\<open>None\<close>.  A FIB entry is named by a number, its address.
\<close>

section \<open>Data\<close>

record cs_entry =
  ce_msgbuf_id :: nat
  ce_prev :: "nat option"
  ce_next :: "nat option"

record pit_entry =
  ingressIdSet :: nexthops
  egressIdSet :: nexthops
  pit_fib_entry :: "nat option"

datatype pkt_cache_entry_type = PKT_CACHE_PIT_TYPE | PKT_CACHE_CS_TYPE

datatype entry_u = U_pit pit_entry | U_cs cs_entry

record pkt_cache_entry =
  pe_name :: hicn_name
  pe_type :: pkt_cache_entry_type
  pe_create_ts :: u64
  pe_expire_ts :: u64
  pe_has_expire_ts :: bool
  pe_u :: entry_u

datatype cs_type = CS_TYPE_UNDEFINED | CS_TYPE_LRU | CS_TYPE_N

record cs_lru_stats =
  countHits :: u64
  countMisses :: u64
  countAdds :: u64
  countUpdates :: u64
  countLruDeletions :: u64
  countLruEvictions :: u64

record cs =
  cs_kind :: cs_type
  cs_num_entries :: int
  cs_max_size :: nat
  lru_head :: "nat option"
  lru_tail :: "nat option"
  cs_stats :: cs_lru_stats

record pkt_cache =
  pc_pit_max_size :: nat
  pc_cs :: cs
  pc_entries :: "pkt_cache_entry pool"
  pc_index :: "hicn_ip_address \<Rightarrow> (u32 \<Rightarrow> nat option) option"
  pc_cached_prefix :: hicn_ip_address
  pc_cached_suffixes :: "hicn_ip_address option"

definition DEFAULT_CS_SIZE :: nat where "DEFAULT_CS_SIZE = 256"

definition LRU_SUCCESS :: int where [simp]: "LRU_SUCCESS = 1"

definition LRU_EVICTION :: int where [simp]: "LRU_EVICTION = 2"

section \<open>The content store\<close>

definition zero_stats :: cs_lru_stats where
  "zero_stats = \<lparr>countHits = 0, countMisses = 0, countAdds = 0, countUpdates = 0, countLruDeletions = 0, countLruEvictions = 0\<rparr>"

definition cs_lru_initialize :: "cs \<Rightarrow> cs" where
  "cs_lru_initialize c = c\<lparr>lru_head := None, lru_tail := None\<rparr>"

text \<open>\<open>CS_TYPE_VALID\<close> is not parenthesised, so its negation holds for \<open>CS_TYPE_UNDEFINED\<close>
  alone; the table has no entry for \<open>CS_TYPE_N\<close>.  \<open>junk\<close> is the allocated memory.\<close>

definition cs_create :: "cs \<Rightarrow> cs_type \<Rightarrow> nat \<Rightarrow> cs option option" where
  "cs_create junk type max_size =
     (if type = CS_TYPE_UNDEFINED then Some None
      else if type = CS_TYPE_LRU then
        Some (Some ((cs_lru_initialize (junk\<lparr>cs_kind := type, cs_num_entries := 0,
          cs_max_size := (if max_size = 0 then DEFAULT_CS_SIZE else max_size)\<rparr>))\<lparr>cs_stats := zero_stats\<rparr>))
      else None)"

definition cs_clear :: "cs \<Rightarrow> cs \<Rightarrow> cs option option" where
  "cs_clear junk c = cs_create junk (cs_kind c) (cs_max_size c)"

definition stats_upd :: "(cs_lru_stats \<Rightarrow> cs_lru_stats) \<Rightarrow> pkt_cache \<Rightarrow> pkt_cache" where
  "stats_upd f pc = pc\<lparr>pc_cs := (pc_cs pc)\<lparr>cs_stats := f (cs_stats (pc_cs pc))\<rparr>\<rparr>"

definition cs_hit :: "pkt_cache \<Rightarrow> pkt_cache" where
  "cs_hit = stats_upd (countHits_update (\<lambda>n. n + 1))"

definition cs_miss :: "pkt_cache \<Rightarrow> pkt_cache" where
  "cs_miss = stats_upd (countMisses_update (\<lambda>n. n + 1))"

section \<open>The LRU list\<close>

definition pkt_cache_entry_at :: "pkt_cache \<Rightarrow> nat \<Rightarrow> pkt_cache_entry option" where
  "pkt_cache_entry_at pc i = pool_at (pc_entries pc) i"

definition entry_upd :: "nat \<Rightarrow> (pkt_cache_entry \<Rightarrow> pkt_cache_entry) \<Rightarrow> pkt_cache \<Rightarrow> pkt_cache" where
  "entry_upd i f pc = pc\<lparr>pc_entries := pool_upd (pc_entries pc) i f\<rparr>"

fun as_cs_entry :: "entry_u \<Rightarrow> cs_entry option" where
  "as_cs_entry (U_cs c) = Some c"
| "as_cs_entry (U_pit _) = None"

fun as_pit_entry :: "entry_u \<Rightarrow> pit_entry option" where
  "as_pit_entry (U_pit p) = Some p"
| "as_pit_entry (U_cs _) = None"

definition cs_entry_of :: "pkt_cache \<Rightarrow> nat \<Rightarrow> cs_entry option" where
  "cs_entry_of pc i = do { e \<leftarrow> pkt_cache_entry_at pc i; as_cs_entry (pe_u e) }"

definition cs_entry_at :: "pkt_cache \<Rightarrow> nat \<Rightarrow> cs_entry option" where
  "cs_entry_at pc i = do {
     e \<leftarrow> pkt_cache_entry_at pc i;
     assert_that (pe_type e = PKT_CACHE_CS_TYPE);
     as_cs_entry (pe_u e) }"

definition cs_entry_upd :: "nat \<Rightarrow> (cs_entry \<Rightarrow> cs_entry) \<Rightarrow> pkt_cache \<Rightarrow> pkt_cache" where
  "cs_entry_upd i f = entry_upd i (pe_u_update (\<lambda>u. case u of U_cs c \<Rightarrow> U_cs (f c) | U_pit p \<Rightarrow> U_pit p))"

definition lru_upd :: "(cs \<Rightarrow> cs) \<Rightarrow> pkt_cache \<Rightarrow> pkt_cache" where
  "lru_upd f pc = pc\<lparr>pc_cs := f (pc_cs pc)\<rparr>"

definition cs_lru_remove_entry :: "pkt_cache \<Rightarrow> nat \<Rightarrow> (int \<times> pkt_cache) option" where
  "cs_lru_remove_entry pc entry_id = do {
     c \<leftarrow> cs_entry_of pc entry_id;
     let pc = (if lru_head (pc_cs pc) = Some entry_id then lru_upd (lru_head_update (\<lambda>_. ce_next c)) pc else pc);
     let pc = (if lru_tail (pc_cs pc) = Some entry_id then lru_upd (lru_tail_update (\<lambda>_. ce_prev c)) pc else pc);
     pc \<leftarrow> (case ce_next c of None \<Rightarrow> Some pc
            | Some n \<Rightarrow> do { _ \<leftarrow> cs_entry_at pc n; Some (cs_entry_upd n (ce_prev_update (\<lambda>_. ce_prev c)) pc) });
     c \<leftarrow> cs_entry_of pc entry_id;
     pc \<leftarrow> (case ce_prev c of None \<Rightarrow> Some pc
            | Some p \<Rightarrow> do { _ \<leftarrow> cs_entry_at pc p; Some (cs_entry_upd p (ce_next_update (\<lambda>_. ce_next c)) pc) });
     Some (LRU_SUCCESS, stats_upd (countLruDeletions_update (\<lambda>n. n + 1)) pc) }"

definition cs_lru_push :: "pkt_cache \<Rightarrow> nat \<Rightarrow> pkt_cache option" where
  "cs_lru_push pc entry_id = do {
     _ \<leftarrow> cs_entry_at pc entry_id;
     (case lru_head (pc_cs pc) of
        Some h \<Rightarrow> do {
          head_entry \<leftarrow> cs_entry_at pc h;
          assert_that (ce_prev head_entry = None);
          let pc = cs_entry_upd h (ce_prev_update (\<lambda>_. Some entry_id)) pc;
          let pc = cs_entry_upd entry_id (\<lambda>c. c\<lparr>ce_next := Some h, ce_prev := None\<rparr>) pc;
          Some (lru_upd (lru_head_update (\<lambda>_. Some entry_id)) pc) }
      | None \<Rightarrow> do {
          assert_that (lru_tail (pc_cs pc) = None);
          let pc = cs_entry_upd entry_id (\<lambda>c. c\<lparr>ce_next := None, ce_prev := None\<rparr>) pc;
          Some (lru_upd (\<lambda>c. c\<lparr>lru_head := Some entry_id, lru_tail := Some entry_id\<rparr>) pc) }) }"

text \<open>The comparison of the \<open>int\<close> \<open>num_entries\<close> with the \<open>size_t\<close> \<open>max_size\<close> is unsigned.\<close>

definition cs_is_full :: "cs \<Rightarrow> bool" where
  "cs_is_full c \<longleftrightarrow> cs_num_entries c mod 2 ^ 64 > int (cs_max_size c)"

definition cs_lru_add :: "pkt_cache \<Rightarrow> nat \<Rightarrow> bool \<Rightarrow> (int \<times> pkt_cache) option" where
  "cs_lru_add pc entry_id is_update = do {
     pc \<leftarrow> cs_lru_push pc entry_id;
     let pc = (if is_update then pc else stats_upd (countAdds_update (\<lambda>n. n + 1)) pc);
     if cs_is_full (pc_cs pc) then do {
       let pc = stats_upd (countLruEvictions_update (\<lambda>n. n + 1)) pc;
       tail \<leftarrow> lru_tail (pc_cs pc);
       (_, pc) \<leftarrow> cs_lru_remove_entry pc tail;
       Some (LRU_EVICTION, pc) }
     else Some (LRU_SUCCESS, pc) }"

definition cs_lru_add_entry :: "pkt_cache \<Rightarrow> nat \<Rightarrow> (int \<times> pkt_cache) option" where
  "cs_lru_add_entry pc entry_id = cs_lru_add pc entry_id False"

definition cs_lru_update_entry :: "pkt_cache \<Rightarrow> nat \<Rightarrow> pkt_cache option" where
  "cs_lru_update_entry pc entry_id = do {
     let pc = stats_upd (countUpdates_update (\<lambda>n. n + 1)) pc;
     (_, pc) \<leftarrow> cs_lru_remove_entry pc entry_id;
     (_, pc) \<leftarrow> cs_lru_add pc entry_id True;
     Some pc }"

section \<open>The list the links represent\<close>

text \<open>The links of an entry of the content store.\<close>

definition links :: "pkt_cache \<Rightarrow> nat \<Rightarrow> (nat option \<times> nat option) option" where
  "links pc i = map_option (\<lambda>c. (ce_prev c, ce_next c)) (cs_entry_at pc i)"

definition first_of :: "nat list \<Rightarrow> nat option \<Rightarrow> nat option" where
  "first_of xs n = (case xs of [] \<Rightarrow> n | x # _ \<Rightarrow> Some x)"

definition last_of :: "nat option \<Rightarrow> nat list \<Rightarrow> nat option" where
  "last_of p xs = (if xs = [] then p else Some (last xs))"

fun linked :: "(nat \<Rightarrow> (nat option \<times> nat option) option) \<Rightarrow> nat option \<Rightarrow> nat list \<Rightarrow> nat option \<Rightarrow> bool" where
  "linked L p [] n \<longleftrightarrow> True"
| "linked L p (x # xs) n \<longleftrightarrow> L x = Some (p, first_of xs n) \<and> linked L (Some x) xs n"

definition lru_list :: "pkt_cache \<Rightarrow> nat list \<Rightarrow> bool" where
  "lru_list pc xs \<longleftrightarrow> distinct xs \<and> linked (links pc) None xs None \<and>
     lru_head (pc_cs pc) = first_of xs None \<and> lru_tail (pc_cs pc) = last_of None xs"

lemma first_of_simps [simp]: "first_of [] n = n" "first_of (x # xs) n = Some x"
  by (simp_all add: first_of_def)

lemma last_of_simps [simp]: "last_of p [] = p" "last_of p (xs @ [x]) = Some x" "last_of p (x # xs) = last_of (Some x) xs"
  by (simp_all add: last_of_def)

lemma first_of_append [simp]: "first_of (xs @ ys) n = first_of xs (first_of ys n)"
  by (cases xs) simp_all

lemma last_of_append [simp]: "last_of p (xs @ ys) = last_of (last_of p xs) ys"
  by (induction xs arbitrary: p) simp_all

lemma linked_append [simp]:
  "linked L p (xs @ ys) n \<longleftrightarrow> linked L p xs (first_of ys n) \<and> linked L (last_of p xs) ys n"
  by (induction xs arbitrary: p) auto

lemma linked_cong: "(\<And>i. i \<in> set xs \<Longrightarrow> L i = L' i) \<Longrightarrow> linked L p xs n = linked L' p xs n"
  by (induction xs arbitrary: p) auto

lemma linked_fresh: "x \<notin> set xs \<Longrightarrow> linked (L(x := v)) p xs n = linked L p xs n"
  by (rule linked_cong) auto

lemma linked_in: "linked L p xs n \<Longrightarrow> i \<in> set xs \<Longrightarrow> L i \<noteq> None"
  by (induction xs arbitrary: p) auto

lemma linked_set_prev:
  assumes "linked L p xs n" "distinct xs" "first_of xs None = Some x"
  shows "linked (L(x := Some (p', snd (the (L x))))) p' xs n"
  using assms by (cases xs) (auto simp: linked_fresh)

lemma linked_set_next:
  assumes "linked L p xs n" "distinct xs" "last_of None xs = Some x"
  shows "linked (L(x := Some (fst (the (L x)), n'))) p xs n'"
proof (cases xs rule: rev_cases)
  case (snoc ys y)
  then show ?thesis using assms by (auto simp: linked_fresh)
qed (use assms in simp)

section \<open>The operations on the represented list\<close>

definition strip_links :: "pkt_cache_entry \<Rightarrow> pkt_cache_entry" where
  "strip_links e = e\<lparr>pe_u := (case pe_u e of U_cs c \<Rightarrow> U_cs (c\<lparr>ce_prev := None, ce_next := None\<rparr>) | U_pit p \<Rightarrow> U_pit p)\<rparr>"

text \<open>Nothing but links, head, tail and counters is changed.\<close>

definition lru_frame :: "pkt_cache \<Rightarrow> pkt_cache \<Rightarrow> bool" where
  "lru_frame pc pc' \<longleftrightarrow>
     pc_pit_max_size pc' = pc_pit_max_size pc \<and> pc_index pc' = pc_index pc \<and>
     pc_cached_prefix pc' = pc_cached_prefix pc \<and> pc_cached_suffixes pc' = pc_cached_suffixes pc \<and>
     pool_alloc_size (pc_entries pc') = pool_alloc_size (pc_entries pc) \<and>
     pool_max_size (pc_entries pc') = pool_max_size (pc_entries pc) \<and>
     free_indices (pc_entries pc') = free_indices (pc_entries pc) \<and>
     free_bitmap (pc_entries pc') = free_bitmap (pc_entries pc) \<and>
     (\<forall>j. strip_links (pool_elts (pc_entries pc') j) = strip_links (pool_elts (pc_entries pc) j)) \<and>
     cs_kind (pc_cs pc') = cs_kind (pc_cs pc) \<and> cs_num_entries (pc_cs pc') = cs_num_entries (pc_cs pc) \<and>
     cs_max_size (pc_cs pc') = cs_max_size (pc_cs pc)"

lemma lru_frame_refl [simp]: "lru_frame pc pc"
  by (simp add: lru_frame_def)

lemma lru_frame_trans: "lru_frame a b \<Longrightarrow> lru_frame b c \<Longrightarrow> lru_frame a c"
  unfolding lru_frame_def by simp

lemma strip_links_upd:
  "(\<And>c. ce_msgbuf_id (f c) = ce_msgbuf_id c) \<Longrightarrow>
   strip_links (pe_u_update (\<lambda>u. case u of U_cs c \<Rightarrow> U_cs (f c) | U_pit p \<Rightarrow> U_pit p) e) = strip_links e"
  by (auto simp: strip_links_def split: entry_u.splits)

lemma cs_entry_upd_frame: "(\<And>c. ce_msgbuf_id (f c) = ce_msgbuf_id c) \<Longrightarrow> lru_frame pc (cs_entry_upd i f pc)"
  by (simp add: lru_frame_def cs_entry_upd_def entry_upd_def strip_links_upd)

lemma lru_upd_frame [simp]:
  "lru_frame pc (stats_upd g pc)" "lru_frame pc (lru_upd (lru_head_update (\<lambda>_. h)) pc)"
  "lru_frame pc (lru_upd (lru_tail_update (\<lambda>_. h)) pc)"
  "lru_frame pc (lru_upd (\<lambda>c. c\<lparr>lru_head := h, lru_tail := t\<rparr>) pc)"
  by (simp_all add: lru_frame_def stats_upd_def lru_upd_def)

lemma upd_simps [simp]:
  "cs_entry_at (stats_upd g pc) j = cs_entry_at pc j" "cs_entry_at (lru_upd k pc) j = cs_entry_at pc j"
  "cs_entry_of (stats_upd g pc) j = cs_entry_of pc j" "cs_entry_of (lru_upd k pc) j = cs_entry_of pc j"
  "pc_cs (cs_entry_upd i f pc) = pc_cs pc" "pc_cs (lru_upd k pc) = k (pc_cs pc)"
  "pc_cs (stats_upd g pc) = (pc_cs pc)\<lparr>cs_stats := g (cs_stats (pc_cs pc))\<rparr>"
  "links (stats_upd g pc) = links pc" "links (lru_upd k pc) = links pc"
  by (simp_all add: cs_entry_at_def cs_entry_of_def pkt_cache_entry_at_def stats_upd_def lru_upd_def
      cs_entry_upd_def entry_upd_def links_def [abs_def])

lemma cs_entry_at_upd [simp]:
  "cs_entry_at (cs_entry_upd i f pc) j = (if j = i then map_option f (cs_entry_at pc j) else cs_entry_at pc j)"
  by (auto simp: cs_entry_at_def pkt_cache_entry_at_def cs_entry_upd_def entry_upd_def pool_at_def split: entry_u.splits)

lemma cs_entry_of_upd [simp]:
  "cs_entry_of (cs_entry_upd i f pc) j = (if j = i then map_option f (cs_entry_of pc j) else cs_entry_of pc j)"
  by (auto simp: cs_entry_of_def pkt_cache_entry_at_def cs_entry_upd_def entry_upd_def pool_at_def split: entry_u.splits)

lemma cs_entry_of_at: "cs_entry_at pc i = Some c \<Longrightarrow> cs_entry_of pc i = Some c"
  by (auto simp: cs_entry_of_def cs_entry_at_def bind_eq_Some_conv split: if_splits)

lemma links_upd:
  "links (cs_entry_upd i f pc) = (links pc)(i := map_option (\<lambda>c. (ce_prev (f c), ce_next (f c))) (cs_entry_at pc i))"
  by (auto simp: links_def fun_eq_iff option.map_comp o_def)

lemma links_Some: "links pc i = Some (p, n) \<longleftrightarrow> (\<exists>c. cs_entry_at pc i = Some c \<and> ce_prev c = p \<and> ce_next c = n)"
  by (auto simp: links_def)

lemma relink_next:
  assumes "linked (links pc) None ys n" "linked (links pc) p zs None" "distinct (ys @ i # zs)" "cs_entry_at pc i = Some c"
    and "q = ce_prev c" "first_of zs None = ce_next c"
  shows "\<exists>pc'. (case ce_next c of None \<Rightarrow> Some pc
      | Some n \<Rightarrow> do { _ \<leftarrow> cs_entry_at pc n; Some (cs_entry_upd n (ce_prev_update (\<lambda>_. q)) pc) }) = Some pc' \<and>
    linked (links pc') None ys n \<and> linked (links pc') q zs None \<and> cs_entry_at pc' i = Some c \<and>
    lru_frame pc pc' \<and> pc_cs pc' = pc_cs pc"
proof (cases zs)
  case Nil
  then show ?thesis using assms by auto
next
  case (Cons z zs')
  then obtain d where d: "cs_entry_at pc z = Some d" using assms(2) by (auto simp: links_Some)
  let ?pc = "cs_entry_upd z (ce_prev_update (\<lambda>_. q)) pc"
  have L: "links ?pc = (links pc)(z := Some (q, snd (the (links pc z))))"
    using d by (auto simp: links_upd links_def fun_eq_iff)
  have "linked (links ?pc) q zs None"
    unfolding L by (rule linked_set_prev [OF assms(2)]) (use Cons assms(3) in simp_all)
  moreover have "linked (links ?pc) None ys n" using assms(1,3) Cons by (simp add: L linked_fresh)
  moreover have "ce_next c = Some z" using assms(6) Cons by simp
  ultimately show ?thesis using assms(3,4) Cons d
    by (intro exI [of _ ?pc]) (auto simp: cs_entry_upd_frame simp del: linked.simps)
qed

lemma relink_prev:
  assumes "linked (links pc) None ys n" "linked (links pc) p zs None" "distinct (ys @ i # zs)" "cs_entry_at pc i = Some c"
    and "last_of None ys = ce_prev c"
  shows "\<exists>pc'. (case ce_prev c of None \<Rightarrow> Some pc
      | Some p \<Rightarrow> do { _ \<leftarrow> cs_entry_at pc p; Some (cs_entry_upd p (ce_next_update (\<lambda>_. ce_next c)) pc) }) = Some pc' \<and>
    linked (links pc') None ys (ce_next c) \<and> linked (links pc') p zs None \<and> cs_entry_at pc' i = Some c \<and>
    lru_frame pc pc' \<and> pc_cs pc' = pc_cs pc"
proof (cases ys rule: rev_cases)
  case Nil
  then show ?thesis using assms by auto
next
  case (snoc ys' y)
  then obtain d where d: "cs_entry_at pc y = Some d" using assms(1) by (auto simp: links_Some)
  let ?pc = "cs_entry_upd y (ce_next_update (\<lambda>_. ce_next c)) pc"
  have L: "links ?pc = (links pc)(y := Some (fst (the (links pc y)), ce_next c))"
    using d by (auto simp: links_upd links_def fun_eq_iff)
  have "linked (links ?pc) None ys (ce_next c)"
    unfolding L by (rule linked_set_next [OF assms(1)]) (use snoc assms(3) in simp_all)
  moreover have "linked (links ?pc) p zs None" using assms(2,3) snoc by (simp add: L linked_fresh)
  moreover have "ce_prev c = Some y" using assms(5) snoc by simp
  ultimately show ?thesis using assms(3,4) snoc d
    by (intro exI [of _ ?pc]) (auto simp: cs_entry_upd_frame simp del: linked.simps linked_append)
qed

lemma cs_lru_remove_list:
  assumes "lru_list pc (ys @ i # zs)"
  shows "\<exists>pc'. cs_lru_remove_entry pc i = Some (LRU_SUCCESS, pc') \<and> lru_list pc' (ys @ zs) \<and> lru_frame pc pc' \<and>
    links pc' i = links pc i"
proof -
  have d: "distinct (ys @ i # zs)" and l: "linked (links pc) None ys (Some i)" "linked (links pc) (Some i) zs None"
    and li: "links pc i = Some (last_of None ys, first_of zs None)"
    and ht: "lru_head (pc_cs pc) = first_of ys (Some i)" "lru_tail (pc_cs pc) = last_of (Some i) zs"
    using assms by (auto simp: lru_list_def)
  obtain c where c: "cs_entry_at pc i = Some c" "ce_prev c = last_of None ys" "ce_next c = first_of zs None"
    using li by (auto simp: links_Some)
  define pc1 where "pc1 = (let pc = (if lru_head (pc_cs pc) = Some i then lru_upd (lru_head_update (\<lambda>_. ce_next c)) pc else pc)
     in (if lru_tail (pc_cs pc) = Some i then lru_upd (lru_tail_update (\<lambda>_. ce_prev c)) pc else pc))"
  have same [simp]: "links pc1 = links pc" "\<And>j. cs_entry_at pc1 j = cs_entry_at pc j" "\<And>j. cs_entry_of pc1 j = cs_entry_of pc j"
    by (simp_all add: pc1_def Let_def)
  have f1: "lru_frame pc pc1" by (auto simp: pc1_def Let_def intro: lru_frame_trans [OF lru_upd_frame(2) lru_upd_frame(3)])
  have ht1: "lru_head (pc_cs pc1) = first_of (ys @ zs) None" "lru_tail (pc_cs pc1) = last_of None (ys @ zs)"
    using ht c d by (cases ys; cases zs rule: rev_cases; auto simp: pc1_def Let_def)+
  obtain pc2 where pc2: "(case ce_next c of None \<Rightarrow> Some pc1
      | Some n \<Rightarrow> do { _ \<leftarrow> cs_entry_at pc1 n; Some (cs_entry_upd n (ce_prev_update (\<lambda>_. ce_prev c)) pc1) }) = Some pc2"
    "linked (links pc2) None ys (Some i)" "linked (links pc2) (ce_prev c) zs None" "cs_entry_at pc2 i = Some c"
    "lru_frame pc1 pc2" "pc_cs pc2 = pc_cs pc1"
    using relink_next [of pc1 ys "Some i" "Some i" zs i c "ce_prev c"] l c d by auto
  obtain pc3 where pc3: "(case ce_prev c of None \<Rightarrow> Some pc2
      | Some p \<Rightarrow> do { _ \<leftarrow> cs_entry_at pc2 p; Some (cs_entry_upd p (ce_next_update (\<lambda>_. ce_next c)) pc2) }) = Some pc3"
    "linked (links pc3) None ys (ce_next c)" "linked (links pc3) (ce_prev c) zs None" "cs_entry_at pc3 i = Some c"
    "lru_frame pc2 pc3" "pc_cs pc3 = pc_cs pc2"
    using relink_prev [OF pc2(2,3) d pc2(4)] c by auto
  let ?pc' = "stats_upd (countLruDeletions_update (\<lambda>n. n + 1)) pc3"
  have "cs_lru_remove_entry pc i = do {
     pc \<leftarrow> (case ce_next c of None \<Rightarrow> Some pc1
       | Some n \<Rightarrow> do { _ \<leftarrow> cs_entry_at pc1 n; Some (cs_entry_upd n (ce_prev_update (\<lambda>_. ce_prev c)) pc1) });
     c \<leftarrow> cs_entry_of pc i;
     pc \<leftarrow> (case ce_prev c of None \<Rightarrow> Some pc
       | Some p \<Rightarrow> do { _ \<leftarrow> cs_entry_at pc p; Some (cs_entry_upd p (ce_next_update (\<lambda>_. ce_next c)) pc) });
     Some (LRU_SUCCESS, stats_upd (countLruDeletions_update (\<lambda>n. n + 1)) pc) }"
    unfolding cs_lru_remove_entry_def pc1_def Let_def by (simp add: cs_entry_of_at [OF c(1)])
  then have "cs_lru_remove_entry pc i = Some (LRU_SUCCESS, ?pc')"
    unfolding pc2(1) by (simp add: cs_entry_of_at [OF pc2(4)] pc3(1))
  moreover have "lru_list ?pc' (ys @ zs)"
    using d pc3(2,3,6) pc2(6) ht1 c by (auto simp: lru_list_def)
  moreover have "lru_frame pc ?pc'"
    by (rule lru_frame_trans [OF f1 lru_frame_trans [OF pc2(5) lru_frame_trans [OF pc3(5) lru_upd_frame(1)]]])
  moreover have "links ?pc' i = links pc i" using pc3(4) c(1) by (simp add: links_def)
  ultimately show ?thesis by blast
qed

lemma cs_lru_push_list:
  assumes "lru_list pc xs" "i \<notin> set xs" "cs_entry_at pc i = Some c"
  shows "\<exists>pc'. cs_lru_push pc i = Some pc' \<and> lru_list pc' (i # xs) \<and> lru_frame pc pc'"
proof (cases xs)
  case Nil
  let ?pc = "cs_entry_upd i (\<lambda>c. c\<lparr>ce_next := None, ce_prev := None\<rparr>) pc"
  let ?pc' = "lru_upd (\<lambda>c. c\<lparr>lru_head := Some i, lru_tail := Some i\<rparr>) ?pc"
  have "cs_lru_push pc i = Some ?pc'" using assms Nil by (simp add: cs_lru_push_def lru_list_def)
  moreover have "lru_list ?pc' (i # xs)" using assms Nil by (simp add: lru_list_def links_upd)
  moreover have "lru_frame pc ?pc'" by (rule lru_frame_trans [OF cs_entry_upd_frame lru_upd_frame(4)]) simp
  ultimately show ?thesis by blast
next
  case (Cons h hs)
  let ?pc1 = "cs_entry_upd h (ce_prev_update (\<lambda>_. Some i)) pc"
  let ?pc2 = "cs_entry_upd i (\<lambda>c. c\<lparr>ce_next := Some h, ce_prev := None\<rparr>) ?pc1"
  let ?pc' = "lru_upd (lru_head_update (\<lambda>_. Some i)) ?pc2"
  have lh: "links pc h = Some (None, first_of hs None)" "linked (links pc) None xs None" "distinct xs"
    using assms(1) Cons by (auto simp: lru_list_def)
  then obtain d where d: "cs_entry_at pc h = Some d" "ce_prev d = None" by (auto simp: links_Some)
  have "cs_lru_push pc i = Some ?pc'" using assms Cons d by (simp add: cs_lru_push_def lru_list_def)
  moreover have L1: "links ?pc1 = (links pc)(h := Some (Some i, snd (the (links pc h))))"
    using d by (auto simp: links_upd links_def fun_eq_iff)
  have "linked (links ?pc1) (Some i) xs None"
    unfolding L1 by (rule linked_set_prev [OF lh(2,3)]) (simp add: Cons)
  then have "lru_list ?pc' (i # xs)" using assms Cons
    by (auto simp: lru_list_def links_upd [of i] linked_fresh simp del: linked.simps(2))
       (simp add: linked_fresh)
  moreover have "lru_frame pc ?pc'"
    by (rule lru_frame_trans [OF cs_entry_upd_frame lru_frame_trans [OF cs_entry_upd_frame lru_upd_frame(2)]]) simp_all
  ultimately show ?thesis by blast
qed

lemma cs_is_full_frame: "lru_frame pc pc' \<Longrightarrow> cs_is_full (pc_cs pc') = cs_is_full (pc_cs pc)"
  by (simp add: lru_frame_def cs_is_full_def)

lemma lru_list_stats [simp]: "lru_list (stats_upd f pc) xs = lru_list pc xs"
  by (simp add: lru_list_def)

lemma cs_lru_add_list:
  assumes "lru_list pc xs" "i \<notin> set xs" "cs_entry_at pc i = Some c"
  shows "\<exists>pc'. cs_lru_add pc i u = Some (if cs_is_full (pc_cs pc) then LRU_EVICTION else LRU_SUCCESS, pc') \<and>
    lru_list pc' (if cs_is_full (pc_cs pc) then butlast (i # xs) else i # xs) \<and> lru_frame pc pc'"
proof -
  obtain pc1 where pc1: "cs_lru_push pc i = Some pc1" "lru_list pc1 (i # xs)" "lru_frame pc pc1"
    using cs_lru_push_list [OF assms] by blast
  define pc2 where "pc2 = (if u then pc1 else stats_upd (countAdds_update (\<lambda>n. n + 1)) pc1)"
  have pc2: "lru_list pc2 (i # xs)" "lru_frame pc pc2"
    using pc1 lru_frame_trans [OF pc1(3) lru_upd_frame(1)] by (auto simp: pc2_def)
  show ?thesis
  proof (cases "cs_is_full (pc_cs pc)")
    case False
    then show ?thesis using pc1(1) pc2 cs_is_full_frame [OF pc2(2)]
      by (simp add: cs_lru_add_def pc2_def Let_def)
  next
    case True
    let ?t = "last (i # xs)" and ?pc3 = "stats_upd (countLruEvictions_update (\<lambda>n. n + 1)) pc2"
    have split: "i # xs = butlast (i # xs) @ ?t # []" by simp
    have "lru_list ?pc3 (butlast (i # xs) @ ?t # [])" using pc2(1) split by simp
    from cs_lru_remove_list [OF this]
    obtain pc4 where pc4: "cs_lru_remove_entry ?pc3 ?t = Some (LRU_SUCCESS, pc4)" "lru_list pc4 (butlast (i # xs))"
      "lru_frame ?pc3 pc4" by auto
    moreover have "lru_tail (pc_cs pc2) = Some ?t" using pc2(1) by (simp add: lru_list_def last_of_def)
    ultimately have "cs_lru_add pc i u = Some (LRU_EVICTION, pc4)"
      using True pc1(1) cs_is_full_frame [OF pc2(2)] by (simp add: cs_lru_add_def pc2_def [symmetric] Let_def)
    moreover have "lru_frame pc pc4"
      by (rule lru_frame_trans [OF pc2(2) lru_frame_trans [OF lru_upd_frame(1) pc4(3)]])
    ultimately show ?thesis using True pc4(2) by simp
  qed
qed

lemma cs_lru_update_list:
  assumes "lru_list pc (ys @ i # zs)" "\<not> cs_is_full (pc_cs pc)"
  shows "\<exists>pc'. cs_lru_update_entry pc i = Some pc' \<and> lru_list pc' (i # ys @ zs) \<and> lru_frame pc pc'"
proof -
  let ?pc1 = "stats_upd (countUpdates_update (\<lambda>n. n + 1)) pc"
  obtain pc2 where pc2: "cs_lru_remove_entry ?pc1 i = Some (LRU_SUCCESS, pc2)" "lru_list pc2 (ys @ zs)" "lru_frame ?pc1 pc2"
    "links pc2 i = links ?pc1 i"
    using cs_lru_remove_list [of ?pc1 ys i zs] assms(1) by auto
  have "links pc i \<noteq> None" "i \<notin> set (ys @ zs)" using assms(1) by (auto simp: lru_list_def)
  then obtain c where "cs_entry_at pc2 i = Some c" using pc2(4) by (cases "cs_entry_at pc2 i") (auto simp: links_def)
  from cs_lru_add_list [OF pc2(2) \<open>i \<notin> set (ys @ zs)\<close> this, of True]
  obtain pc3 where pc3: "cs_lru_add pc2 i True = Some (LRU_SUCCESS, pc3)" "lru_list pc3 (i # ys @ zs)" "lru_frame pc2 pc3"
    using assms(2) cs_is_full_frame [OF pc2(3)] by (auto simp: cs_is_full_def)
  have "lru_frame pc pc3" by (rule lru_frame_trans [OF lru_upd_frame(1) lru_frame_trans [OF pc2(3) pc3(3)]])
  then show ?thesis using pc2(1) pc3 by (auto simp: cs_lru_update_entry_def)
qed

section \<open>Properties\<close>

text \<open>A content store of two entries, of which the first is in the list, for the examples.\<close>

definition example_store :: pkt_cache where
  "example_store = \<lparr>pc_pit_max_size = 0,
     pc_cs = \<lparr>cs_kind = CS_TYPE_LRU, cs_num_entries = 2, cs_max_size = 1, lru_head = Some 0, lru_tail = Some 0, cs_stats = zero_stats\<rparr>,
     pc_entries = \<lparr>pool_alloc_size = 64, pool_max_size = 0, free_bitmap = \<lparr>cur_size = 0, vector_max_size = 0, cells = [0]\<rparr>,
       free_indices = \<lparr>cur_size = 0, vector_max_size = 0, cells = []\<rparr>,
       pool_elts = (\<lambda>i. \<lparr>pe_name = \<lparr>name_prefix = \<lparr>u64_0 = 0, u64_1 = 0\<rparr>, name_suffix = of_nat i\<rparr>, pe_type = PKT_CACHE_CS_TYPE,
         pe_create_ts = 0, pe_expire_ts = 0, pe_has_expire_ts = True, pe_u = U_cs \<lparr>ce_msgbuf_id = i, ce_prev = None, ce_next = None\<rparr>\<rparr>)\<rparr>,
     pc_index = (\<lambda>_. None), pc_cached_prefix = \<lparr>u64_0 = 0, u64_1 = 0\<rparr>, pc_cached_suffixes = None\<rparr>"

text \<open>C7: the links through the entries represent a list, most recent entry first. Removing an
  entry removes it from the list, updating one moves it to the front, and adding one puts it at the
  front and, when the store holds more entries than its size, drops the last of the list and says so.
  None of them fails or changes anything but links, head, tail and counters.\<close>

theorem lru_refines_list:
  assumes "lru_list pc xs"
  shows "if i \<in> set xs
    then (\<exists>pc'. cs_lru_remove_entry pc i = Some (LRU_SUCCESS, pc') \<and> lru_list pc' (remove1 i xs) \<and> lru_frame pc pc') \<and>
      (cs_is_full (pc_cs pc) \<or>
       (\<exists>pc'. cs_lru_update_entry pc i = Some pc' \<and> lru_list pc' (i # remove1 i xs) \<and> lru_frame pc pc'))
    else cs_entry_at pc i = None \<or>
      (\<exists>pc'. cs_lru_add_entry pc i = Some (if cs_is_full (pc_cs pc) then LRU_EVICTION else LRU_SUCCESS, pc') \<and>
         lru_list pc' (if cs_is_full (pc_cs pc) then butlast (i # xs) else i # xs) \<and> lru_frame pc pc')"
proof (cases "i \<in> set xs")
  case True
  then obtain ys zs where xs: "xs = ys @ i # zs" using split_list by metis
  moreover have "i \<notin> set ys" using assms xs by (simp add: lru_list_def)
  ultimately have "remove1 i xs = ys @ zs" by (simp add: remove1_append)
  then show ?thesis using True cs_lru_remove_list [of pc ys i zs] cs_lru_update_list [of pc ys i zs] assms xs by auto
next
  case False
  then show ?thesis using cs_lru_add_list [OF assms] by (cases "cs_entry_at pc i") (auto simp: cs_lru_add_entry_def)
qed

theorem lru_refines_list_witness:
  "lru_list example_store [0] \<and> (\<exists>pc'. cs_lru_add_entry example_store 1 = Some (LRU_EVICTION, pc') \<and> lru_list pc' [1])"
proof -
  have l: "lru_list example_store [0]" "cs_is_full (pc_cs example_store)" "cs_entry_at example_store 1 \<noteq> None"
    by (simp_all add: lru_list_def links_def cs_entry_at_def pkt_cache_entry_at_def pool_at_def example_store_def cs_is_full_def)
  with lru_refines_list [OF l(1), of 1] show ?thesis by auto
qed

end
