(* ===== verification/Packet_Cache.thy ===== *)
theory Packet_Cache
  imports Content_Store
begin

text \<open>
  The packet cache of \<open>core/packet_cache.c\<close>, PIT and content store in one pool of entries
  with a two-level index from prefix to suffix to entry.

  A hash table is the map it implements; a pointer to the suffix table of a prefix is that
  prefix, as these tables are never freed.  The assertion on the result of \<open>kh_put\<close> says that
  the key was not there.  An entry is named by its index and \<open>HICN_INVALID_SUFFIX\<close> as an index
  is \<^term>\<open>None\<close>.  What the cache asks of the FIB, of the connection table and of the clock is
  the record \<open>cache_env\<close>; the state of the FIB is passed along as \<open>w\<close>.  Within one operation
  every reading of the clock gives the same tick.  \<open>env_junk\<close> is the value of an uninitialised
  local variable.
\<close>

section \<open>Types\<close>

datatype pkt_cache_verdict =
    PKT_CACHE_VERDICT_FORWARD_INTEREST | PKT_CACHE_VERDICT_AGGREGATE_INTEREST
  | PKT_CACHE_VERDICT_RETRANSMIT_INTEREST | PKT_CACHE_VERDICT_FORWARD_DATA
  | PKT_CACHE_VERDICT_INTEREST_EXPIRED_FORWARD_INTEREST
  | PKT_CACHE_VERDICT_DATA_EXPIRED_FORWARD_INTEREST | PKT_CACHE_VERDICT_STORE_DATA
  | PKT_CACHE_VERDICT_CLEAR_DATA | PKT_CACHE_VERDICT_UPDATE_DATA | PKT_CACHE_VERDICT_IGNORE_DATA
  | PKT_CACHE_VERDICT_ERROR

datatype pkt_cache_lookup_result =
    PKT_CACHE_LU_INTEREST_NOT_EXPIRED | PKT_CACHE_LU_INTEREST_EXPIRED
  | PKT_CACHE_LU_DATA_NOT_EXPIRED | PKT_CACHE_LU_DATA_EXPIRED | PKT_CACHE_LU_NONE

record 'w cache_env =
  env_now :: u64
  env_junk :: u32
  env_on_data :: "nat \<Rightarrow> nexthops \<Rightarrow> msgbuf \<Rightarrow> u64 \<Rightarrow> u64 \<Rightarrow> 'w \<Rightarrow> 'w option"
  env_on_timeout :: "nat \<Rightarrow> nexthops \<Rightarrow> 'w \<Rightarrow> 'w option"
  env_is_local_remote :: "nat \<Rightarrow> 'w \<Rightarrow> bool option"
  env_is_local :: "u32 \<Rightarrow> 'w \<Rightarrow> bool"

definition DEFAULT_PKT_CACHE_SIZE :: nat where "DEFAULT_PKT_CACHE_SIZE = 2048"

section \<open>The index\<close>

definition get_suffixes :: "bool \<Rightarrow> hicn_ip_address \<Rightarrow> pkt_cache \<Rightarrow> hicn_ip_address option \<times> pkt_cache" where
  "get_suffixes create prefix' pc = (case pc_index pc prefix' of
       Some _ \<Rightarrow> (Some prefix', pc)
     | None \<Rightarrow> if \<not> create then (None, pc)
               else (Some prefix', pc\<lparr>pc_index := (pc_index pc)(prefix' := Some Map.empty)\<rparr>))"

definition set_suffix :: "hicn_ip_address \<Rightarrow> u32 \<Rightarrow> nat option \<Rightarrow> pkt_cache \<Rightarrow> pkt_cache" where
  "set_suffix p sfx v pc = pc\<lparr>pc_index := (pc_index pc)(p := map_option (\<lambda>t. t(sfx := v)) (pc_index pc p))\<rparr>"

definition remove_suffix :: "hicn_ip_address \<Rightarrow> u32 \<Rightarrow> pkt_cache \<Rightarrow> pkt_cache option" where
  "remove_suffix prefix' sfx pc = do {
     sfxs \<leftarrow> fst (get_suffixes False prefix' pc);
     t \<leftarrow> pc_index pc sfxs;
     assert_that (t sfx \<noteq> None);
     Some (set_suffix sfxs sfx None pc) }"

definition add_to_suffixes :: "hicn_ip_address \<Rightarrow> u32 \<Rightarrow> nat \<Rightarrow> pkt_cache \<Rightarrow> pkt_cache option" where
  "add_to_suffixes sfxs sfx val pc = do {
     t \<leftarrow> pc_index pc sfxs;
     assert_that (t sfx = None);
     Some (set_suffix sfxs sfx (Some val) pc) }"

definition add_suffix :: "hicn_ip_address \<Rightarrow> u32 \<Rightarrow> nat \<Rightarrow> pkt_cache \<Rightarrow> pkt_cache option" where
  "add_suffix prefix' sfx val pc = do {
     let (sfxs, pc) = get_suffixes True prefix' pc;
     sfxs \<leftarrow> sfxs;
     add_to_suffixes sfxs sfx val pc }"

definition get_from_suffixes :: "hicn_ip_address \<Rightarrow> u32 \<Rightarrow> pkt_cache \<Rightarrow> nat option option" where
  "get_from_suffixes sfxs sfx pc = do { t \<leftarrow> pc_index pc sfxs; Some (t sfx) }"

definition get_suffix :: "hicn_ip_address \<Rightarrow> u32 \<Rightarrow> pkt_cache \<Rightarrow> nat option option" where
  "get_suffix prefix' sfx pc = (case fst (get_suffixes False prefix' pc) of
       None \<Rightarrow> Some None | Some sfxs \<Rightarrow> get_from_suffixes sfxs sfx pc)"

definition get_suffix_from_name :: "hicn_name \<Rightarrow> pkt_cache \<Rightarrow> nat option option" where
  "get_suffix_from_name name pc = get_suffix (name_prefix name) (name_suffix name) pc"

definition pkt_cache_save_suffixes_for_prefix :: "hicn_ip_address \<Rightarrow> pkt_cache \<Rightarrow> pkt_cache" where
  "pkt_cache_save_suffixes_for_prefix prefix' pc =
     (if hicn_ip_address_equals (pc_cached_prefix pc) prefix' then pc
      else let (s, pc) = get_suffixes True prefix' (pc\<lparr>pc_cached_prefix := prefix'\<rparr>)
           in pc\<lparr>pc_cached_suffixes := s\<rparr>)"

definition pkt_cache_reset_suffixes_for_prefix :: "pkt_cache \<Rightarrow> pkt_cache" where
  "pkt_cache_reset_suffixes_for_prefix pc = pc\<lparr>pc_cached_suffixes := None\<rparr>"

section \<open>Entries\<close>

definition pkt_cache_create :: "cs \<Rightarrow> pkt_cache_entry \<Rightarrow> (nat \<Rightarrow> pkt_cache_entry) \<Rightarrow> nat \<Rightarrow> pkt_cache option option" where
  "pkt_cache_create junk_cs zero junk cs_size = do {
     c \<leftarrow> cs_create junk_cs CS_TYPE_LRU cs_size;
     (case c of None \<Rightarrow> Some None
      | Some c \<Rightarrow> do {
          ents \<leftarrow> pool_init zero junk DEFAULT_PKT_CACHE_SIZE 0;
          ents \<leftarrow> ents;
          Some (Some \<lparr>pc_pit_max_size = 0, pc_cs = c, pc_entries = ents, pc_index = Map.empty,
            pc_cached_prefix = IP_ADDRESS_EMPTY, pc_cached_suffixes = None\<rparr>) }) }"

definition pkt_cache_allocate :: "pkt_cache \<Rightarrow> (nat \<times> pkt_cache) option" where
  "pkt_cache_allocate pc = do {
     (i, ents) \<leftarrow> pool_get (pc_entries pc);
     Some (i, pc\<lparr>pc_entries := ents\<rparr>) }"

definition pkt_cache_add_to_index :: "nat \<Rightarrow> pkt_cache \<Rightarrow> pkt_cache option" where
  "pkt_cache_add_to_index id' pc = do {
     e \<leftarrow> pkt_cache_entry_at pc id';
     let name = pe_name e;
     (case pc_cached_suffixes pc of
        Some s \<Rightarrow> add_to_suffixes s (name_suffix name) id' pc
      | None \<Rightarrow> add_suffix (name_prefix name) (name_suffix name) id' pc) }"

definition pkt_cache_remove_from_index :: "hicn_name \<Rightarrow> pkt_cache \<Rightarrow> pkt_cache option" where
  "pkt_cache_remove_from_index name pc = remove_suffix (name_prefix name) (name_suffix name) pc"

definition is_expired :: "u64 \<Rightarrow> pkt_cache_entry \<Rightarrow> bool" where
  "is_expired now e \<longleftrightarrow> pe_has_expire_ts e \<and> pe_expire_ts e \<le> now"

definition lookup_result :: "u64 \<Rightarrow> pkt_cache_entry \<Rightarrow> pkt_cache_lookup_result" where
  "lookup_result now e = (if pe_type e = PKT_CACHE_CS_TYPE
     then if is_expired now e then PKT_CACHE_LU_DATA_EXPIRED else PKT_CACHE_LU_DATA_NOT_EXPIRED
     else if is_expired now e then PKT_CACHE_LU_INTEREST_EXPIRED else PKT_CACHE_LU_INTEREST_NOT_EXPIRED)"

definition pkt_cache_lookup :: "u64 \<Rightarrow> hicn_name \<Rightarrow> pkt_cache \<Rightarrow> (pkt_cache_lookup_result \<times> nat option) option" where
  "pkt_cache_lookup now name pc = do {
     index \<leftarrow> (case pc_cached_suffixes pc of
         Some s \<Rightarrow> get_from_suffixes s (name_suffix name) pc
       | None \<Rightarrow> get_suffix_from_name name pc);
     (case index of
        None \<Rightarrow> Some (PKT_CACHE_LU_NONE, None)
      | Some i \<Rightarrow> do { e \<leftarrow> pkt_cache_entry_at pc i; Some (lookup_result now e, Some i) }) }"

text \<open>A call through the table of content stores.\<close>

definition cs_vft :: "pkt_cache \<Rightarrow> 'a option \<Rightarrow> 'a option" where
  "cs_vft pc x = (if cs_kind (pc_cs pc) = CS_TYPE_LRU then x else None)"

text \<open>The counter is a C \<open>int\<close>.\<close>

definition num_entries_add :: "int \<Rightarrow> pkt_cache \<Rightarrow> pkt_cache option" where
  "num_entries_add d pc = do {
     let n = cs_num_entries (pc_cs pc) + d;
     assert_that (- (2 ^ 31) \<le> n \<and> n < 2 ^ 31);
     Some (pc\<lparr>pc_cs := (pc_cs pc)\<lparr>cs_num_entries := n\<rparr>\<rparr>) }"

definition entries_put :: "nat \<Rightarrow> pkt_cache \<Rightarrow> pkt_cache option" where
  "entries_put i pc = do { ents \<leftarrow> pool_put (pc_entries pc) i; Some (pc\<lparr>pc_entries := ents\<rparr>) }"

definition pkt_cache_cs_remove_entry :: "nat \<Rightarrow> bool \<Rightarrow> pkt_cache \<Rightarrow> msgbuf_pool \<Rightarrow> (pkt_cache \<times> msgbuf_pool) option" where
  "pkt_cache_cs_remove_entry i is_evicted pc mp = do {
     e \<leftarrow> pkt_cache_entry_at pc i;
     assert_that (pe_type e = PKT_CACHE_CS_TYPE);
     c \<leftarrow> as_cs_entry (pe_u e);
     _ \<leftarrow> msgbuf_pool_at mp (ce_msgbuf_id c);
     pc \<leftarrow> remove_suffix (name_prefix (pe_name e)) (name_suffix (pe_name e)) pc;
     pc \<leftarrow> (if is_evicted then Some pc else cs_vft pc (map_option snd (cs_lru_remove_entry pc i)));
     pc \<leftarrow> num_entries_add (- 1) pc;
     pc \<leftarrow> entries_put i pc;
     mp \<leftarrow> msgbuf_pool_release mp (ce_msgbuf_id c);
     Some (pc, mp) }"

definition pkt_cache_pit_remove_entry :: "nat \<Rightarrow> pkt_cache \<Rightarrow> pkt_cache option" where
  "pkt_cache_pit_remove_entry i pc = do {
     e \<leftarrow> pkt_cache_entry_at pc i;
     assert_that (pe_type e = PKT_CACHE_PIT_TYPE);
     pc \<leftarrow> remove_suffix (name_prefix (pe_name e)) (name_suffix (pe_name e)) pc;
     entries_put i pc }"

definition pkt_cache_store :: "'w cache_env \<Rightarrow> nat \<Rightarrow> nat \<Rightarrow> pkt_cache \<Rightarrow> msgbuf_pool \<Rightarrow> (pkt_cache \<times> msgbuf_pool) option" where
  "pkt_cache_store env i msgbuf_id pc mp = do {
     m \<leftarrow> msgbuf_pool_at mp msgbuf_id;
     expiry \<leftarrow> msgbuf_get_data_expiry_time (env_junk env) m;
     let pc = entry_upd i (\<lambda>e. e\<lparr>
         pe_u := U_cs \<lparr>ce_msgbuf_id = msgbuf_id, ce_prev = None, ce_next = None\<rparr>,
         pe_create_ts := env_now env, pe_expire_ts := env_now env + ucast expiry,
         pe_has_expire_ts := True, pe_type := PKT_CACHE_CS_TYPE\<rparr>) pc;
     pc \<leftarrow> num_entries_add 1 pc;
     let tail_id = lru_tail (pc_cs pc);
     (result, pc) \<leftarrow> cs_vft pc (cs_lru_add_entry pc i);
     (pc, mp) \<leftarrow> (if result = LRU_EVICTION then do {
         tail \<leftarrow> tail_id;
         e \<leftarrow> pkt_cache_entry_at pc tail;
         assert_that (pe_type e = PKT_CACHE_CS_TYPE);
         pkt_cache_cs_remove_entry tail True pc mp }
       else Some (pc, mp));
     Some (pc, msgbuf_pool_acquire msgbuf_id mp) }"

definition pkt_cache_pit_to_cs :: "'w cache_env \<Rightarrow> nat \<Rightarrow> nat \<Rightarrow> pkt_cache \<Rightarrow> msgbuf_pool \<Rightarrow> (pkt_cache \<times> msgbuf_pool) option" where
  "pkt_cache_pit_to_cs env i msgbuf_id pc mp = do {
     e \<leftarrow> pkt_cache_entry_at pc i;
     assert_that (pe_type e = PKT_CACHE_PIT_TYPE);
     pkt_cache_store env i msgbuf_id pc mp }"

definition pkt_cache_fill_pit :: "'w cache_env \<Rightarrow> nat \<Rightarrow> msgbuf \<Rightarrow> pkt_cache \<Rightarrow> pkt_cache option" where
  "pkt_cache_fill_pit env i m pc = do {
     (_, ingress) \<leftarrow> nexthops_add NEXTHOPS_EMPTY (mb_connection_id m);
     lifetime \<leftarrow> msgbuf_get_interest_lifetime (env_junk env) m;
     Some (entry_upd i (\<lambda>e. e\<lparr>
         pe_u := U_pit \<lparr>ingressIdSet = ingress, egressIdSet = NEXTHOPS_EMPTY, pit_fib_entry = None\<rparr>,
         pe_create_ts := env_now env, pe_expire_ts := env_now env + ucast lifetime,
         pe_has_expire_ts := True, pe_type := PKT_CACHE_PIT_TYPE\<rparr>) pc) }"

definition pkt_cache_cs_to_pit :: "'w cache_env \<Rightarrow> nat \<Rightarrow> msgbuf \<Rightarrow> pkt_cache \<Rightarrow> msgbuf_pool \<Rightarrow> (pkt_cache \<times> msgbuf_pool) option" where
  "pkt_cache_cs_to_pit env i m pc mp = do {
     e \<leftarrow> pkt_cache_entry_at pc i;
     assert_that (pe_type e = PKT_CACHE_CS_TYPE);
     c \<leftarrow> as_cs_entry (pe_u e);
     mp \<leftarrow> msgbuf_pool_release mp (ce_msgbuf_id c);
     (_, pc) \<leftarrow> cs_vft pc (cs_lru_remove_entry pc i);
     pc \<leftarrow> pkt_cache_fill_pit env i m pc;
     pc \<leftarrow> num_entries_add (- 1) pc;
     Some (pc, mp) }"

definition pkt_cache_update_cs :: "'w cache_env \<Rightarrow> nat \<Rightarrow> nat \<Rightarrow> pkt_cache \<Rightarrow> msgbuf_pool \<Rightarrow> (pkt_cache \<times> msgbuf_pool) option" where
  "pkt_cache_update_cs env i msgbuf_id pc mp = do {
     e \<leftarrow> pkt_cache_entry_at pc i;
     assert_that (pe_type e = PKT_CACHE_CS_TYPE);
     c \<leftarrow> as_cs_entry (pe_u e);
     mp \<leftarrow> msgbuf_pool_release mp (ce_msgbuf_id c);
     let mp = msgbuf_pool_acquire msgbuf_id mp;
     m \<leftarrow> msgbuf_pool_at mp msgbuf_id;
     expiry \<leftarrow> msgbuf_get_data_expiry_time (env_junk env) m;
     let pc = entry_upd i (\<lambda>e. e\<lparr>pe_u := U_cs (c\<lparr>ce_msgbuf_id := msgbuf_id\<rparr>),
         pe_create_ts := env_now env, pe_expire_ts := env_now env + ucast expiry, pe_has_expire_ts := True\<rparr>) pc;
     pc \<leftarrow> cs_vft pc (cs_lru_update_entry pc i);
     Some (pc, mp) }"

definition pkt_cache_add_to_pit :: "'w cache_env \<Rightarrow> msgbuf \<Rightarrow> hicn_name \<Rightarrow> pkt_cache \<Rightarrow> (nat \<times> pkt_cache) option" where
  "pkt_cache_add_to_pit env m name pc = do {
     (i, pc) \<leftarrow> pkt_cache_allocate pc;
     let pc = entry_upd i (pe_name_update (\<lambda>_. name)) pc;
     pc \<leftarrow> pkt_cache_fill_pit env i m pc;
     pc \<leftarrow> pkt_cache_add_to_index i pc;
     Some (i, pc) }"

definition pkt_cache_add_to_cs :: "'w cache_env \<Rightarrow> nat \<Rightarrow> pkt_cache \<Rightarrow> msgbuf_pool \<Rightarrow> (nat \<times> pkt_cache \<times> msgbuf_pool) option" where
  "pkt_cache_add_to_cs env msgbuf_id pc mp = do {
     (i, pc) \<leftarrow> pkt_cache_allocate pc;
     m \<leftarrow> msgbuf_pool_at mp msgbuf_id;
     name \<leftarrow> msgbuf_get_name m;
     let pc = entry_upd i (pe_name_update (\<lambda>_. name)) pc;
     (pc, mp) \<leftarrow> pkt_cache_store env i msgbuf_id pc mp;
     pc \<leftarrow> pkt_cache_add_to_index i pc;
     Some (i, pc, mp) }"

definition pkt_cache_update_pit :: "'w cache_env \<Rightarrow> nat \<Rightarrow> msgbuf \<Rightarrow> pkt_cache \<Rightarrow> 'w \<Rightarrow> (pkt_cache \<times> 'w) option" where
  "pkt_cache_update_pit env i m pc w = do {
     e \<leftarrow> pkt_cache_entry_at pc i;
     assert_that (pe_type e = PKT_CACHE_PIT_TYPE);
     p \<leftarrow> as_pit_entry (pe_u e);
     w \<leftarrow> (case pit_fib_entry p of None \<Rightarrow> Some w | Some f \<Rightarrow> env_on_timeout env f (egressIdSet p) w);
     pc \<leftarrow> pkt_cache_fill_pit env i m pc;
     Some (pc, w) }"

definition pit_entry_ingress_add :: "nat \<Rightarrow> u32 \<Rightarrow> pkt_cache \<Rightarrow> pkt_cache option" where
  "pit_entry_ingress_add i conn pc = do {
     e \<leftarrow> pkt_cache_entry_at pc i;
     p \<leftarrow> as_pit_entry (pe_u e);
     (_, ingress) \<leftarrow> nexthops_add (ingressIdSet p) conn;
     Some (entry_upd i (pe_u_update (\<lambda>_. U_pit (p\<lparr>ingressIdSet := ingress\<rparr>))) pc) }"

text \<open>Whether some connection of the ingress set is local.\<close>

definition in_local_connection_exists :: "'w cache_env \<Rightarrow> 'w \<Rightarrow> nexthops \<Rightarrow> bool option" where
  "in_local_connection_exists env w nh = do {
     r \<leftarrow> nexthops_enumerate (\<lambda>_. nh) (\<lambda>i n s. Some (if env_is_local env n w then Inl True else Inr s)) ();
     Some (case r of Inl b \<Rightarrow> b | Inr _ \<Rightarrow> False) }"

definition aggregate_unless_local :: "'w cache_env \<Rightarrow> 'w \<Rightarrow> u32 \<Rightarrow> pit_entry \<Rightarrow> bool option" where
  "aggregate_unless_local env w conn p = (case pit_fib_entry p of
       None \<Rightarrow> Some True
     | Some f \<Rightarrow> do {
         lr \<leftarrow> env_is_local_remote env f w;
         if lr \<and> env_is_local env conn w then in_local_connection_exists env w (ingressIdSet p)
         else Some True })"

definition pkt_cache_try_aggregate_in_pit :: "'w cache_env \<Rightarrow> nat \<Rightarrow> msgbuf \<Rightarrow> pkt_cache \<Rightarrow> 'w \<Rightarrow> (bool \<times> pkt_cache) option" where
  "pkt_cache_try_aggregate_in_pit env i m pc w = do {
     e \<leftarrow> pkt_cache_entry_at pc i;
     assert_that (pe_type e = PKT_CACHE_PIT_TYPE);
     p \<leftarrow> as_pit_entry (pe_u e);
     lifetime \<leftarrow> msgbuf_get_interest_lifetime (env_junk env) m;
     let expire_ts = env_now env + ucast lifetime;
     let pc = (if pe_expire_ts e < expire_ts then entry_upd i (pe_expire_ts_update (\<lambda>_. expire_ts)) pc else pc);
     let connection_id = mb_connection_id m;
     known \<leftarrow> nexthops_contains (ingressIdSet p) connection_id;
     is_aggregated \<leftarrow> (if known then Some False else aggregate_unless_local env w connection_id p);
     pc \<leftarrow> (if is_aggregated then pit_entry_ingress_add i connection_id pc else Some pc);
     Some (is_aggregated, pc) }"

section \<open>Data and Interest\<close>

text \<open>The result: the next hops to forward to, \<open>wrong_egress\<close>, the verdict and the states.\<close>

definition pkt_cache_on_data :: "'w cache_env \<Rightarrow> nat \<Rightarrow> bool \<Rightarrow> bool \<Rightarrow> pkt_cache_verdict \<Rightarrow> pkt_cache \<Rightarrow> msgbuf_pool \<Rightarrow> 'w \<Rightarrow>
    (nexthops option \<times> bool \<times> pkt_cache_verdict \<times> pkt_cache \<times> msgbuf_pool \<times> 'w) option" where
  "pkt_cache_on_data env msgbuf_id is_cs_store_enabled is_connection_local verdict pc mp w = do {
     m \<leftarrow> msgbuf_pool_at mp msgbuf_id;
     assert_that (msgbuf_get_type m = HICN_PACKET_TYPE_DATA);
     name \<leftarrow> msgbuf_get_name m;
     (lookup, entry) \<leftarrow> pkt_cache_lookup (env_now env) name pc;
     (case lookup of
        PKT_CACHE_LU_INTEREST_NOT_EXPIRED \<Rightarrow> do {
          i \<leftarrow> entry;
          e \<leftarrow> pkt_cache_entry_at pc i;
          p \<leftarrow> as_pit_entry (pe_u e);
          w \<leftarrow> (case pit_fib_entry p of None \<Rightarrow> Some w
                | Some f \<Rightarrow> env_on_data env f (egressIdSet p) m (pe_create_ts e) (env_now env) w);
          expected \<leftarrow> nexthops_contains (egressIdSet p) (mb_connection_id m);
          if \<not> expected then Some (None, True, verdict, pc, mp, w)
          else if is_cs_store_enabled then do {
            (pc, mp) \<leftarrow> pkt_cache_pit_to_cs env i msgbuf_id pc mp;
            Some (Some (ingressIdSet p), False, PKT_CACHE_VERDICT_FORWARD_DATA, pc, mp, w) }
          else do {
            pc \<leftarrow> pkt_cache_pit_remove_entry i pc;
            Some (Some (ingressIdSet p), False, PKT_CACHE_VERDICT_CLEAR_DATA, pc, mp, w) } }
      | PKT_CACHE_LU_INTEREST_EXPIRED \<Rightarrow> do {
          i \<leftarrow> entry;
          if is_cs_store_enabled \<and> is_connection_local then do {
            (pc, mp) \<leftarrow> pkt_cache_pit_to_cs env i msgbuf_id pc mp;
            Some (None, False, PKT_CACHE_VERDICT_STORE_DATA, pc, mp, w) }
          else do {
            pc \<leftarrow> pkt_cache_pit_remove_entry i pc;
            Some (None, False, PKT_CACHE_VERDICT_CLEAR_DATA, pc, mp, w) } }
      | PKT_CACHE_LU_NONE \<Rightarrow>
          if is_cs_store_enabled \<and> is_connection_local then do {
            (_, pc, mp) \<leftarrow> pkt_cache_add_to_cs env msgbuf_id pc mp;
            Some (None, False, PKT_CACHE_VERDICT_STORE_DATA, pc, mp, w) }
          else Some (None, False, PKT_CACHE_VERDICT_IGNORE_DATA, pc, mp, w)
      | PKT_CACHE_LU_DATA_EXPIRED \<Rightarrow> do {
          i \<leftarrow> entry;
          if is_cs_store_enabled \<and> is_connection_local then do {
            (pc, mp) \<leftarrow> pkt_cache_update_cs env i msgbuf_id pc mp;
            Some (None, False, PKT_CACHE_VERDICT_UPDATE_DATA, pc, mp, w) }
          else do {
            (pc, mp) \<leftarrow> pkt_cache_cs_remove_entry i False pc mp;
            Some (None, False, PKT_CACHE_VERDICT_CLEAR_DATA, pc, mp, w) } }
      | PKT_CACHE_LU_DATA_NOT_EXPIRED \<Rightarrow> do {
          i \<leftarrow> entry;
          if is_cs_store_enabled \<and> is_connection_local then do {
            (pc, mp) \<leftarrow> pkt_cache_update_cs env i msgbuf_id pc mp;
            Some (None, False, PKT_CACHE_VERDICT_UPDATE_DATA, pc, mp, w) }
          else Some (None, False, PKT_CACHE_VERDICT_IGNORE_DATA, pc, mp, w) }) }"

text \<open>The result: the verdict, the entry, the buffer of the Data found and the states.\<close>

definition pkt_cache_on_interest :: "'w cache_env \<Rightarrow> nat \<Rightarrow> hicn_name \<Rightarrow> bool \<Rightarrow> nat option \<Rightarrow> pkt_cache \<Rightarrow> msgbuf_pool \<Rightarrow> 'w \<Rightarrow>
    (pkt_cache_verdict \<times> nat option \<times> nat option \<times> pkt_cache \<times> msgbuf_pool \<times> 'w) option" where
  "pkt_cache_on_interest env msgbuf_id name is_serve_from_cs_enabled data_msgbuf_id pc mp w = do {
     m \<leftarrow> msgbuf_pool_at mp msgbuf_id;
     assert_that (msgbuf_get_type m = HICN_PACKET_TYPE_INTEREST);
     (lookup, entry) \<leftarrow> pkt_cache_lookup (env_now env) name pc;
     if lookup = PKT_CACHE_LU_NONE then do {
       (i, pc) \<leftarrow> pkt_cache_add_to_pit env m name pc;
       Some (PKT_CACHE_VERDICT_FORWARD_INTEREST, Some i, data_msgbuf_id, cs_miss pc, mp, w) }
     else if lookup = PKT_CACHE_LU_DATA_NOT_EXPIRED \<and> is_serve_from_cs_enabled then do {
       i \<leftarrow> entry;
       c \<leftarrow> cs_entry_of pc i;
       Some (PKT_CACHE_VERDICT_FORWARD_DATA, entry, Some (ce_msgbuf_id c), cs_hit pc, mp, w) }
     else if lookup = PKT_CACHE_LU_INTEREST_NOT_EXPIRED then do {
       i \<leftarrow> entry;
       (is_aggregated, pc) \<leftarrow> pkt_cache_try_aggregate_in_pit env i m pc w;
       Some (if is_aggregated then PKT_CACHE_VERDICT_AGGREGATE_INTEREST else PKT_CACHE_VERDICT_RETRANSMIT_INTEREST,
             entry, data_msgbuf_id, cs_miss pc, mp, w) }
     else if lookup = PKT_CACHE_LU_INTEREST_EXPIRED then do {
       i \<leftarrow> entry;
       (pc, w) \<leftarrow> pkt_cache_update_pit env i m pc w;
       Some (PKT_CACHE_VERDICT_INTEREST_EXPIRED_FORWARD_INTEREST, entry, data_msgbuf_id, cs_miss pc, mp, w) }
     else do {
       i \<leftarrow> entry;
       (pc, mp) \<leftarrow> pkt_cache_cs_to_pit env i m pc mp;
       Some (PKT_CACHE_VERDICT_DATA_EXPIRED_FORWARD_INTEREST, entry, data_msgbuf_id, cs_miss pc, mp, w) } }"

section \<open>Administration\<close>

text \<open>One round of the loop over the hash tables; \<open>order\<close> is the order in which they are visited.\<close>

definition cs_clear_entry :: "pkt_cache \<Rightarrow> hicn_ip_address \<times> u32 \<Rightarrow> pkt_cache option" where
  "cs_clear_entry pc = (\<lambda>(p, sfx). do {
     i \<leftarrow> get_from_suffixes p sfx pc;
     i \<leftarrow> i;
     e \<leftarrow> pkt_cache_entry_at pc i;
     if pe_type e = PKT_CACHE_CS_TYPE then entries_put i (set_suffix p sfx None pc) else Some pc })"

definition pkt_cache_cs_clear :: "cs \<Rightarrow> (hicn_ip_address \<times> u32) list \<Rightarrow> pkt_cache \<Rightarrow> pkt_cache option" where
  "pkt_cache_cs_clear junk order pc = do {
     pc \<leftarrow> foldM cs_clear_entry pc order;
     c \<leftarrow> cs_clear junk (pc_cs pc);
     c \<leftarrow> c;
     Some (pc\<lparr>pc_cached_prefix := IP_ADDRESS_EMPTY, pc_cached_suffixes := None, pc_cs := c\<rparr>) }"

definition pkt_cache_get_num_cs_stale_entries :: "u64 \<Rightarrow> pkt_cache \<Rightarrow> nat option" where
  "pkt_cache_get_num_cs_stale_entries now pc = do {
     ids \<leftarrow> pool_enumerate (pc_entries pc);
     Some (length (filter (\<lambda>i. let e = pool_elts (pc_entries pc) i
       in pe_type e = PKT_CACHE_CS_TYPE \<and> is_expired now e) ids)) }"

definition pkt_cache_set_cs_size :: "nat \<Rightarrow> pkt_cache \<Rightarrow> int \<times> pkt_cache" where
  "pkt_cache_set_cs_size size' pc =
     (if cs_num_entries (pc_cs pc) mod 2 ^ 64 > int size' then (- 1, pc)
      else (0, pc\<lparr>pc_cs := (pc_cs pc)\<lparr>cs_max_size := size'\<rparr>\<rparr>))"

definition pkt_cache_get_size :: "pkt_cache \<Rightarrow> nat" where
  "pkt_cache_get_size pc = pool_len (pc_entries pc)"

definition pkt_cache_get_cs_size :: "pkt_cache \<Rightarrow> int" where
  "pkt_cache_get_cs_size pc = cs_num_entries (pc_cs pc) mod 2 ^ 64"

record pkt_cache_stats =
  n_pit_entries :: u32
  n_cs_entries :: u32
  n_lru_evictions :: u32

definition pkt_cache_get_pit_size :: "pkt_cache \<Rightarrow> int" where
  "pkt_cache_get_pit_size pc = (int (pkt_cache_get_size pc) - pkt_cache_get_cs_size pc) mod 2 ^ 64"

definition pkt_cache_get_stats :: "pkt_cache \<Rightarrow> pkt_cache_stats" where
  "pkt_cache_get_stats pc = \<lparr>
     n_pit_entries = of_int (pkt_cache_get_pit_size pc),
     n_cs_entries = of_int (pkt_cache_get_cs_size pc),
     n_lru_evictions = ucast (countLruEvictions (cs_stats (pc_cs pc)))\<rparr>"

end
