(* ===== verification/Packet_Cache_View.thy ===== *)
theory Packet_Cache_View
  imports Packet_Cache
begin

text \<open>
  The first half of the refinement of the packet cache: pool, index tables, links and counter of
  the concrete cache represent a \<open>cache_view\<close>, and each operation of \<open>packet_cache.c\<close> on
  entries acts on that view.  The references the content store holds on the message buffers are
  accounted for by \<open>held\<close>.
\<close>

section \<open>The state the cache represents\<close>

text \<open>The entries in use without their links, the index as one map from names, and the list of
  the content store.\<close>

record cache_view =
  cv_entries :: "nat \<rightharpoonup> pkt_cache_entry"
  cv_index :: "hicn_name \<rightharpoonup> nat"
  cv_lru :: "nat list"
  cv_num :: int
  cv_max :: nat
  cv_prefix :: hicn_ip_address
  cv_cached :: "hicn_ip_address option"

definition entries_of :: "pkt_cache_entry pool \<Rightarrow> nat \<rightharpoonup> pkt_cache_entry" where
  "entries_of ph i = (if i \<in> pool_used ph then Some (strip_links (pool_elts ph i)) else None)"

definition index_of :: "pkt_cache \<Rightarrow> hicn_name \<rightharpoonup> nat" where
  "index_of pc n = Option.bind (pc_index pc (name_prefix n)) (\<lambda>t. t (name_suffix n))"

definition repr :: "pkt_cache \<Rightarrow> cache_view \<Rightarrow> bool" where
  "repr pc v \<longleftrightarrow> pool_inv (pc_entries pc) \<and> entries_of (pc_entries pc) = cv_entries v \<and>
     index_of pc = cv_index v \<and> lru_list pc (cv_lru v) \<and> set (cv_lru v) \<subseteq> dom (cv_entries v) \<and>
     cs_kind (pc_cs pc) = CS_TYPE_LRU \<and> cs_num_entries (pc_cs pc) = cv_num v \<and> cs_max_size (pc_cs pc) = cv_max v \<and>
     pc_cached_prefix pc = cv_prefix v \<and> pc_cached_suffixes pc = cv_cached v \<and>
     (\<forall>p. cv_cached v = Some p \<longrightarrow> p = cv_prefix v \<and> pc_index pc p \<noteq> None)"

lemma strip_links_simps [simp]:
  "pe_name (strip_links e) = pe_name e" "pe_type (strip_links e) = pe_type e" "pe_create_ts (strip_links e) = pe_create_ts e"
  "pe_expire_ts (strip_links e) = pe_expire_ts e" "pe_has_expire_ts (strip_links e) = pe_has_expire_ts e"
  by (simp_all add: strip_links_def)

lemma strip_links_cs: "pe_u (strip_links e) = U_cs c \<Longrightarrow> \<exists>c'. pe_u e = U_cs c' \<and> ce_msgbuf_id c' = ce_msgbuf_id c"
  by (auto simp: strip_links_def split: entry_u.splits)

lemma strip_links_pit: "pe_u (strip_links e) = U_pit p \<longleftrightarrow> pe_u e = U_pit p"
  by (auto simp: strip_links_def split: entry_u.splits)

lemma is_expired_strip [simp]: "is_expired now (strip_links e) = is_expired now e" "lookup_result now (strip_links e) = lookup_result now e"
  by (simp_all add: is_expired_def lookup_result_def)

lemma reprD:
  assumes "repr pc v"
  shows "cv_entries v = entries_of (pc_entries pc)" "cv_index v = index_of pc" "pool_inv (pc_entries pc)"
  using assms by (simp_all add: repr_def)

lemma repr_at:
  assumes "repr pc v" "cv_entries v i = Some e"
  shows "\<exists>e'. pkt_cache_entry_at pc i = Some e' \<and> strip_links e' = e \<and> i \<in> pool_used (pc_entries pc) \<and>
    pool_elts (pc_entries pc) i = e'"
  using assms(2) reprD(1) [OF assms(1)] by (auto simp: entries_of_def pkt_cache_entry_at_def split: if_splits)

lemma repr_used: "repr pc v \<Longrightarrow> i \<in> pool_used (pc_entries pc) \<longleftrightarrow> cv_entries v i \<noteq> None"
  by (drule reprD(1)) (auto simp: entries_of_def)

lemma entries_of_frame: "lru_frame pc pc' \<Longrightarrow> entries_of (pc_entries pc') = entries_of (pc_entries pc)"
  by (auto simp: lru_frame_def entries_of_def pool_used_def fun_eq_iff)

lemma repr_frame:
  assumes "repr pc v" "lru_frame pc pc'" "lru_list pc' xs" "set xs \<subseteq> dom (cv_entries v)"
  shows "repr pc' (v\<lparr>cv_lru := xs\<rparr>)"
proof -
  have "pool_inv (pc_entries pc') = pool_inv (pc_entries pc)"
    using assms(2) by (simp add: lru_frame_def pool_inv_def pool_wf_def)
  then show ?thesis using assms entries_of_frame [OF assms(2)]
    by (auto simp: repr_def lru_frame_def index_of_def fun_eq_iff)
qed

lemma repr_upd_at:
  assumes r: "repr pc v" and e': "pkt_cache_entry_at pc i = Some e'" "cv_entries v i \<noteq> None" and f: "strip_links (f e') = g"
    and l: "i \<in> set (cv_lru v) \<Longrightarrow> pe_type (f e') = PKT_CACHE_CS_TYPE \<and>
       (\<exists>c c'. pe_u e' = U_cs c \<and> pe_u (f e') = U_cs c' \<and> ce_prev c' = ce_prev c \<and> ce_next c' = ce_next c)"
  shows "repr (entry_upd i f pc) (v\<lparr>cv_entries := (cv_entries v)(i \<mapsto> g)\<rparr>)"
proof -
  have u: "i \<in> pool_used (pc_entries pc)" using e'(2) repr_used [OF r] by blast
  then have el: "pool_elts (pc_entries pc) i = e'" using e'(1) by (simp add: pkt_cache_entry_at_def)
  have "entries_of (pc_entries (entry_upd i f pc)) = (entries_of (pc_entries pc))(i \<mapsto> g)"
    using el f u by (auto simp: entries_of_def fun_eq_iff entry_upd_def)
  moreover have "links (entry_upd i f pc) j = links pc j" if "j \<in> set (cv_lru v)" for j
  proof (cases "j = i")
    case True
    have "links pc i \<noteq> None" using r that True linked_in by (fastforce simp: repr_def lru_list_def)
    then have "pe_type e' = PKT_CACHE_CS_TYPE" using e'(1) by (auto simp: links_def cs_entry_at_def split: if_splits)
    with l that True el u show ?thesis by (auto simp: links_def cs_entry_at_def pkt_cache_entry_at_def entry_upd_def)
  qed (simp add: links_def cs_entry_at_def pkt_cache_entry_at_def entry_upd_def pool_at_def)
  then have "linked (links (entry_upd i f pc)) p (cv_lru v) n = linked (links pc) p (cv_lru v) n" for p n
    by (rule linked_cong)
  moreover have "pc_cs (entry_upd i f pc) = pc_cs pc" "pc_index (entry_upd i f pc) = pc_index pc"
    "pc_cached_prefix (entry_upd i f pc) = pc_cached_prefix pc" "pc_cached_suffixes (entry_upd i f pc) = pc_cached_suffixes pc"
    "pool_inv (pc_entries (entry_upd i f pc)) = pool_inv (pc_entries pc)"
    by (simp_all add: entry_upd_def)
  ultimately show ?thesis using r by (auto simp: repr_def lru_list_def index_of_def [abs_def])
qed

lemma repr_upd:
  assumes r: "repr pc v" and v: "cv_entries v i = Some e" and i: "i \<notin> set (cv_lru v)"
    and f: "\<And>e'. strip_links e' = e \<Longrightarrow> strip_links (f e') = g"
  shows "repr (entry_upd i f pc) (v\<lparr>cv_entries := (cv_entries v)(i \<mapsto> g)\<rparr>)"
  using repr_at [OF r v] repr_upd_at [OF r, of i _ f g] v i f by auto

lemma repr_stats [simp]: "repr (stats_upd f pc) v = repr pc v"
  by (simp add: repr_def stats_upd_def lru_list_def links_def [abs_def] cs_entry_at_def pkt_cache_entry_at_def index_of_def [abs_def])

lemma repr_num:
  assumes "repr pc v" "- (2 ^ 31) \<le> cv_num v + d" "cv_num v + d < 2 ^ 31"
  shows "\<exists>pc'. num_entries_add d pc = Some pc' \<and> repr pc' (v\<lparr>cv_num := cv_num v + d\<rparr>)"
  using assms by (auto simp: num_entries_add_def Let_def repr_def lru_list_def links_def [abs_def] cs_entry_at_def
      pkt_cache_entry_at_def index_of_def [abs_def])

lemma links_index [simp]: "links (pc\<lparr>pc_index := x\<rparr>) = links pc"
  by (simp add: links_def [abs_def] cs_entry_at_def pkt_cache_entry_at_def)

lemma lru_list_index [simp]: "lru_list (pc\<lparr>pc_index := x\<rparr>) xs = lru_list pc xs"
  by (simp add: lru_list_def)

lemma repr_index:
  assumes "repr pc v" "index_of (pc\<lparr>pc_index := x\<rparr>) = y" "\<And>p. pc_index pc p \<noteq> None \<Longrightarrow> x p \<noteq> None"
  shows "repr (pc\<lparr>pc_index := x\<rparr>) (v\<lparr>cv_index := y\<rparr>)"
  using assms by (auto simp: repr_def)

lemma index_of_set:
  assumes "pc_index pc p \<noteq> None"
  shows "index_of (set_suffix p sfx u pc) = (index_of pc)(\<lparr>name_prefix = p, name_suffix = sfx\<rparr> := u)"
  using assms by (auto simp: index_of_def set_suffix_def fun_eq_iff split: option.splits)

lemma repr_set_suffix:
  assumes "repr pc v" "pc_index pc p \<noteq> None" "n = \<lparr>name_prefix = p, name_suffix = sfx\<rparr>"
  shows "repr (set_suffix p sfx u pc) (v\<lparr>cv_index := (cv_index v)(n := u)\<rparr>)"
proof -
  have "index_of (set_suffix p sfx u pc) = (cv_index v)(n := u)" using assms index_of_set [of pc] by (simp add: repr_def)
  then show ?thesis using assms(2) repr_index [OF assms(1), of "(pc_index pc)(p := map_option (\<lambda>t. t(sfx := u)) (pc_index pc p))"]
    by (auto simp: set_suffix_def)
qed

lemma repr_remove_suffix:
  assumes "repr pc v" "cv_index v n = Some i"
  shows "\<exists>pc'. remove_suffix (name_prefix n) (name_suffix n) pc = Some pc' \<and> repr pc' (v\<lparr>cv_index := (cv_index v)(n := None)\<rparr>)"
proof -
  obtain t where t: "pc_index pc (name_prefix n) = Some t" "t (name_suffix n) = Some i"
    using assms(2) reprD(2) [OF assms(1)] by (auto simp: index_of_def bind_eq_Some_conv)
  moreover have "repr (set_suffix (name_prefix n) (name_suffix n) None pc) (v\<lparr>cv_index := (cv_index v)(n := None)\<rparr>)"
    using t by (intro repr_set_suffix [OF assms(1)]) simp_all
  ultimately show ?thesis by (simp add: remove_suffix_def get_suffixes_def)
qed

lemma index_of_empty: "pc_index pc p = None \<Longrightarrow> index_of (pc\<lparr>pc_index := (pc_index pc)(p := Some Map.empty)\<rparr>) = index_of pc"
  by (auto simp: index_of_def fun_eq_iff)

lemma repr_get_suffixes:
  assumes "repr pc v"
  shows "\<exists>pc'. get_suffixes True p pc = (Some p, pc') \<and> repr pc' v \<and> pc_index pc' p \<noteq> None"
proof (cases "pc_index pc p")
  case None
  have "repr (pc\<lparr>pc_index := (pc_index pc)(p := Some Map.empty)\<rparr>) (v\<lparr>cv_index := cv_index v\<rparr>)"
    using assms index_of_empty [OF None] by (intro repr_index) (auto simp: repr_def)
  with None show ?thesis by (auto simp: get_suffixes_def)
qed (use assms in \<open>auto simp: get_suffixes_def\<close>)

lemma repr_add_to_suffixes:
  assumes "repr pc v" "pc_index pc (name_prefix n) \<noteq> None" "cv_index v n = None"
  shows "\<exists>pc'. add_to_suffixes (name_prefix n) (name_suffix n) i pc = Some pc' \<and> repr pc' (v\<lparr>cv_index := (cv_index v)(n \<mapsto> i)\<rparr>)"
proof -
  obtain t where t: "pc_index pc (name_prefix n) = Some t" using assms(2) by auto
  moreover have "t (name_suffix n) = None" using assms(3) reprD(2) [OF assms(1)] t by (simp add: index_of_def)
  moreover have "repr (set_suffix (name_prefix n) (name_suffix n) (Some i) pc) (v\<lparr>cv_index := (cv_index v)(n \<mapsto> i)\<rparr>)"
    using t by (intro repr_set_suffix [OF assms(1)]) simp_all
  ultimately show ?thesis by (simp add: add_to_suffixes_def)
qed

text \<open>The prefix of the last packet is the one that is saved.\<close>

definition saved_for :: "hicn_name \<Rightarrow> cache_view \<Rightarrow> bool" where
  "saved_for n v \<longleftrightarrow> cv_cached v = None \<or> cv_prefix v = name_prefix n"

lemma repr_add_to_index:
  assumes "repr pc v" "cv_entries v i = Some e" "cv_index v (pe_name e) = None" "saved_for (pe_name e) v"
  shows "\<exists>pc'. pkt_cache_add_to_index i pc = Some pc' \<and> repr pc' (v\<lparr>cv_index := (cv_index v)(pe_name e \<mapsto> i)\<rparr>)"
proof -
  obtain e' where e': "pkt_cache_entry_at pc i = Some e'" "pe_name e' = pe_name e" using repr_at [OF assms(1,2)] by auto
  show ?thesis
  proof (cases "cv_cached v")
    case None
    obtain pc1 where "get_suffixes True (name_prefix (pe_name e)) pc = (Some (name_prefix (pe_name e)), pc1)" "repr pc1 v"
      "pc_index pc1 (name_prefix (pe_name e)) \<noteq> None"
      using repr_get_suffixes [OF assms(1)] by blast
    with repr_add_to_suffixes [of pc1 v "pe_name e" i] assms None e' show ?thesis
      by (auto simp: pkt_cache_add_to_index_def add_suffix_def repr_def)
  next
    case (Some p)
    then have "p = name_prefix (pe_name e)" "pc_index pc p \<noteq> None" "pc_cached_suffixes pc = Some p"
      using assms by (auto simp: repr_def saved_for_def)
    with repr_add_to_suffixes [of pc v "pe_name e" i] assms e' show ?thesis by (auto simp: pkt_cache_add_to_index_def)
  qed
qed

lemma repr_save:
  assumes "repr pc v"
  shows "repr (pkt_cache_save_suffixes_for_prefix p pc)
    (if cv_prefix v = p then v else v\<lparr>cv_prefix := p, cv_cached := Some p\<rparr>)"
proof (cases "cv_prefix v = p")
  case False
  have "repr (pc\<lparr>pc_cached_prefix := p, pc_cached_suffixes := None\<rparr>) (v\<lparr>cv_prefix := p, cv_cached := None\<rparr>)"
    using assms by (auto simp: repr_def lru_list_def links_def [abs_def] cs_entry_at_def pkt_cache_entry_at_def index_of_def [abs_def])
  from repr_get_suffixes [OF this, of p] obtain pc' where
    "get_suffixes True p (pc\<lparr>pc_cached_prefix := p, pc_cached_suffixes := None\<rparr>) = (Some p, pc')"
    "repr pc' (v\<lparr>cv_prefix := p, cv_cached := None\<rparr>)" "pc_index pc' p \<noteq> None" by blast
  moreover have "get_suffixes True p (pc\<lparr>pc_cached_prefix := p\<rparr>) =
      map_prod id (pc_cached_suffixes_update (\<lambda>_. pc_cached_suffixes pc)) (get_suffixes True p (pc\<lparr>pc_cached_prefix := p, pc_cached_suffixes := None\<rparr>))"
    by (auto simp: get_suffixes_def split: option.splits)
  moreover have "\<not> hicn_ip_address_equals (pc_cached_prefix pc) p" using assms False by (simp add: repr_def)
  ultimately show ?thesis using False
    by (auto simp: pkt_cache_save_suffixes_for_prefix_def repr_def lru_list_def links_def [abs_def] cs_entry_at_def
        pkt_cache_entry_at_def index_of_def [abs_def])
qed (use assms in \<open>simp add: pkt_cache_save_suffixes_for_prefix_def repr_def\<close>)

lemma repr_put:
  assumes "repr pc v" "cv_entries v i \<noteq> None" "i \<notin> set (cv_lru v)"
  shows "\<exists>pc'. entries_put i pc = Some pc' \<and> repr pc' (v\<lparr>cv_entries := (cv_entries v)(i := None)\<rparr>)"
proof -
  have inv: "pool_inv (pc_entries pc)" and u: "i \<in> pool_used (pc_entries pc)"
    using assms repr_used [OF assms(1)] by (auto simp: repr_def)
  obtain ph where ph: "pool_put (pc_entries pc) i = Some ph" "pool_inv ph" "pool_used ph = pool_used (pc_entries pc) - {i}"
    "pool_elts ph = pool_elts (pc_entries pc)" "pool_alloc_size ph = pool_alloc_size (pc_entries pc)"
    using pool_put_frees [OF inv u] by blast
  have "links (pc\<lparr>pc_entries := ph\<rparr>) = links pc" using ph(4,5)
    by (intro ext) (simp add: links_def cs_entry_at_def pkt_cache_entry_at_def pool_at_def)
  moreover have "entries_of ph = (cv_entries v)(i := None)" unfolding reprD(1) [OF assms(1)] using ph by (auto simp: entries_of_def fun_eq_iff)
  ultimately show ?thesis using ph assms
    by (auto simp: entries_put_def repr_def lru_list_def index_of_def [abs_def])
qed

lemma repr_allocate:
  assumes "repr pc v"
  shows "\<exists>i pc' e. pkt_cache_allocate pc = Some (i, pc') \<and> cv_entries v i = None \<and>
    repr pc' (v\<lparr>cv_entries := (cv_entries v)(i \<mapsto> e)\<rparr>)"
proof -
  have inv: "pool_inv (pc_entries pc)" using assms by (simp add: repr_def)
  obtain i ph where ph: "pool_get (pc_entries pc) = Some (i, ph)" "pool_inv ph" "i \<notin> pool_used (pc_entries pc)"
    "pool_used ph = insert i (pool_used (pc_entries pc))" "pool_elts ph = pool_elts (pc_entries pc)"
    "pool_alloc_size (pc_entries pc) \<le> pool_alloc_size ph"
    using pool_get_fresh [OF inv] by blast
  have "links (pc\<lparr>pc_entries := ph\<rparr>) j = links pc j" if "j \<in> set (cv_lru v)" for j
  proof -
    have "j \<in> pool_used (pc_entries pc)" using that assms repr_used [OF assms] by (auto simp: repr_def)
    then show ?thesis using ph by (simp add: links_def cs_entry_at_def pkt_cache_entry_at_def)
  qed
  then have "linked (links (pc\<lparr>pc_entries := ph\<rparr>)) p (cv_lru v) n = linked (links pc) p (cv_lru v) n" for p n
    by (rule linked_cong)
  moreover have "entries_of ph = (cv_entries v)(i \<mapsto> strip_links (pool_elts (pc_entries pc) i))"
    unfolding reprD(1) [OF assms] using ph by (auto simp: entries_of_def fun_eq_iff)
  moreover have "cv_entries v i = None" using ph(3) repr_used [OF assms] by auto
  ultimately show ?thesis using ph assms
    by (intro exI [of _ i] exI [of _ "pc\<lparr>pc_entries := ph\<rparr>"] exI)
       (auto simp: pkt_cache_allocate_def repr_def lru_list_def index_of_def [abs_def])
qed

section \<open>The operations on the represented state\<close>

definition cs_msgbuf :: "(nat \<rightharpoonup> pkt_cache_entry) \<Rightarrow> nat \<Rightarrow> nat" where
  "cs_msgbuf V i = (case V i of Some e \<Rightarrow> (case pe_u e of U_cs c \<Rightarrow> ce_msgbuf_id c | U_pit _ \<Rightarrow> 0) | None \<Rightarrow> 0)"

text \<open>The references the content store holds.\<close>

definition held :: "cache_view \<Rightarrow> nat multiset" where
  "held v = image_mset (cs_msgbuf (cv_entries v)) (mset (cv_lru v))"

definition v_insert :: "nat \<Rightarrow> pkt_cache_entry \<Rightarrow> cache_view \<Rightarrow> cache_view" where
  "v_insert i e v = v\<lparr>cv_entries := (cv_entries v)(i \<mapsto> e), cv_lru := i # cv_lru v, cv_num := cv_num v + 1\<rparr>"

definition v_drop :: "nat \<Rightarrow> cache_view \<Rightarrow> cache_view" where
  "v_drop i v = (case cv_entries v i of None \<Rightarrow> v
     | Some e \<Rightarrow> v\<lparr>cv_entries := (cv_entries v)(i := None), cv_index := (cv_index v)(pe_name e := None),
         cv_lru := remove1 i (cv_lru v), cv_num := cv_num v - 1\<rparr>)"

definition v_store :: "nat \<Rightarrow> pkt_cache_entry \<Rightarrow> cache_view \<Rightarrow> cache_view" where
  "v_store i e v = (if length (cv_lru v) < cv_max v then v_insert i e v else v_drop (last (cv_lru v)) (v_insert i e v))"

definition cs_view_ok :: "cache_view \<Rightarrow> bool" where
  "cs_view_ok v \<longleftrightarrow> distinct (cv_lru v) \<and> cv_num v = int (length (cv_lru v)) \<and> length (cv_lru v) \<le> cv_max v \<and>
     0 < cv_max v \<and> cv_max v < 2 ^ 31 - 1 \<and>
     (\<forall>x \<in> set (cv_lru v). \<exists>e c. cv_entries v x = Some e \<and> pe_type e = PKT_CACHE_CS_TYPE \<and> pe_u e = U_cs c)"

text \<open>Two pools with the same buffers up to the number of references.\<close>

definition same_bufs :: "msgbuf_pool \<Rightarrow> msgbuf_pool \<Rightarrow> bool" where
  "same_bufs mp mp' \<longleftrightarrow> (\<forall>j. pool_elts mp' j\<lparr>mb_refs := 0\<rparr> = pool_elts mp j\<lparr>mb_refs := 0\<rparr>)"

lemma same_bufs_refl [simp]: "same_bufs mp mp"
  by (simp add: same_bufs_def)

lemma same_bufs_trans: "same_bufs a b \<Longrightarrow> same_bufs b c \<Longrightarrow> same_bufs a c"
  by (simp add: same_bufs_def)

lemma same_bufs_acquire: "same_bufs mp (msgbuf_pool_acquire i mp)"
  by (simp add: same_bufs_def msgbuf_pool_acquire_def)

lemma release_same:
  assumes "refs_ok mp H" "i \<in># H"
  shows "\<exists>mp'. msgbuf_pool_release mp i = Some mp' \<and> refs_ok mp' (H - {#i#}) \<and> same_bufs mp mp'"
proof -
  obtain mp' where mp': "msgbuf_pool_release mp i = Some mp'" "refs_ok mp' (H - {#i#})" "\<forall>j. j \<noteq> i \<longrightarrow> pool_elts mp' j = pool_elts mp j"
    "pool_elts mp' i = pool_elts mp i\<lparr>mb_refs := mb_refs (pool_elts mp i) - 1\<rparr>"
    using release_refs [OF assms] by auto
  have "same_bufs mp mp'" unfolding same_bufs_def
  proof
    fix j show "pool_elts mp' j\<lparr>mb_refs := 0\<rparr> = pool_elts mp j\<lparr>mb_refs := 0\<rparr>"
      using mp'(3,4) by (cases "j = i") auto
  qed
  with mp' show ?thesis by blast
qed

lemma refs_used: "refs_ok mp H \<Longrightarrow> i \<in># H \<Longrightarrow> i \<in> pool_used mp"
  by (auto simp: refs_ok_def)

lemma repr_cs_entry:
  assumes "repr pc v" "cv_entries v i = Some e" "pe_u e = U_cs c"
  shows "\<exists>e' c'. pkt_cache_entry_at pc i = Some e' \<and> pe_type e' = pe_type e \<and> pe_name e' = pe_name e \<and> pe_u e' = U_cs c' \<and>
    ce_msgbuf_id c' = ce_msgbuf_id c \<and> strip_links e' = e"
proof -
  obtain e' where "pkt_cache_entry_at pc i = Some e'" "strip_links e' = e" using repr_at [OF assms(1,2)] by blast
  with strip_links_cs [of e' c] assms(3) show ?thesis by auto
qed

lemma repr_pit_entry:
  assumes "repr pc v" "cv_entries v i = Some e" "pe_u e = U_pit p"
  shows "pkt_cache_entry_at pc i = Some e"
proof -
  obtain e' where e': "pkt_cache_entry_at pc i = Some e'" "strip_links e' = e" using repr_at [OF assms(1,2)] by blast
  then have "pe_u e' = U_pit p" using assms(3) strip_links_pit by metis
  then show ?thesis using e' by (auto simp: strip_links_def)
qed

lemma repr_lru_remove:
  assumes "repr pc v" "i \<in> set (cv_lru v)"
  shows "\<exists>pc'. cs_lru_remove_entry pc i = Some (LRU_SUCCESS, pc') \<and> repr pc' (v\<lparr>cv_lru := remove1 i (cv_lru v)\<rparr>)"
proof -
  have d: "distinct (cv_lru v)" and s: "set (cv_lru v) \<subseteq> dom (cv_entries v)" and l: "lru_list pc (cv_lru v)"
    using assms(1) by (auto simp: repr_def lru_list_def)
  obtain ys zs where xs: "cv_lru v = ys @ i # zs" using assms(2) split_list by metis
  then have r: "remove1 i (cv_lru v) = ys @ zs" using d by (simp add: remove1_append)
  obtain pc' where "cs_lru_remove_entry pc i = Some (LRU_SUCCESS, pc')" "lru_list pc' (ys @ zs)" "lru_frame pc pc'"
    using cs_lru_remove_list [of pc ys i zs] l xs by auto
  with repr_frame [OF assms(1), of pc' "ys @ zs"] s xs r show ?thesis by auto
qed

lemma repr_cs_vft [simp]: "repr pc v \<Longrightarrow> cs_vft pc x = x"
  by (simp add: repr_def cs_vft_def)

lemma cs_remove_refines:
  assumes r: "repr pc v" and e: "cv_entries v i = Some e" "pe_type e = PKT_CACHE_CS_TYPE" "pe_u e = U_cs c"
    and ix: "cv_index v (pe_name e) = Some i" and ev: "ev \<longleftrightarrow> i \<notin> set (cv_lru v)" and n: "0 < cv_num v" "cv_num v < 2 ^ 31"
    and refs: "refs_ok mp H" "ce_msgbuf_id c \<in># H"
  shows "\<exists>pc' mp'. pkt_cache_cs_remove_entry i ev pc mp = Some (pc', mp') \<and> repr pc' (v_drop i v) \<and>
    refs_ok mp' (H - {#ce_msgbuf_id c#}) \<and> same_bufs mp mp'"
proof -
  obtain e' c' where e': "pkt_cache_entry_at pc i = Some e'" "pe_type e' = PKT_CACHE_CS_TYPE" "pe_name e' = pe_name e" "pe_u e' = U_cs c'"
    "ce_msgbuf_id c' = ce_msgbuf_id c" using repr_cs_entry [OF r e(1,3)] e(2) by auto
  let ?v1 = "v\<lparr>cv_index := (cv_index v)(pe_name e := None)\<rparr>"
  obtain pc1 where pc1: "remove_suffix (name_prefix (pe_name e)) (name_suffix (pe_name e)) pc = Some pc1" "repr pc1 ?v1"
    using repr_remove_suffix [OF r ix] by blast
  let ?v2 = "?v1\<lparr>cv_lru := remove1 i (cv_lru v)\<rparr>"
  have "\<exists>pc2. (if ev then Some pc1 else cs_vft pc1 (map_option snd (cs_lru_remove_entry pc1 i))) = Some pc2 \<and> repr pc2 ?v2"
  proof (cases ev)
    case True
    then have "?v2 = ?v1" using ev by (cases v) (simp add: remove1_idem)
    then show ?thesis using True pc1(2) by (simp only: if_True) blast
  next
    case False
    then obtain pc2 where "cs_lru_remove_entry pc1 i = Some (LRU_SUCCESS, pc2)" "repr pc2 ?v2"
      using repr_lru_remove [OF pc1(2), of i] ev by auto
    then show ?thesis using False repr_cs_vft [OF pc1(2)] by auto
  qed
  then obtain pc2 where pc2: "(if ev then Some pc1 else cs_vft pc1 (map_option snd (cs_lru_remove_entry pc1 i))) = Some pc2" "repr pc2 ?v2"
    by blast
  let ?v3 = "?v2\<lparr>cv_num := cv_num v - 1\<rparr>"
  obtain pc3 where pc3: "num_entries_add (- 1) pc2 = Some pc3" "repr pc3 ?v3"
    using repr_num [OF pc2(2), of "- 1"] n by auto
  have "distinct (cv_lru v)" using r by (simp add: repr_def lru_list_def)
  then obtain pc4 where pc4: "entries_put i pc3 = Some pc4" "repr pc4 (?v3\<lparr>cv_entries := (cv_entries v)(i := None)\<rparr>)"
    using repr_put [OF pc3(2), of i] e(1) by auto
  obtain mp' where mp': "msgbuf_pool_release mp (ce_msgbuf_id c) = Some mp'" "refs_ok mp' (H - {#ce_msgbuf_id c#})" "same_bufs mp mp'"
    using release_same [OF refs] by blast
  have "msgbuf_pool_at mp (ce_msgbuf_id c) \<noteq> None" using refs_used [OF refs] by (simp add: msgbuf_pool_at_def)
  then have "pkt_cache_cs_remove_entry i ev pc mp = Some (pc4, mp')"
    using e' pc1(1) pc2(1) pc3(1) pc4(1) mp'(1) by (auto simp: pkt_cache_cs_remove_entry_def)
  moreover have "v_drop i v = ?v3\<lparr>cv_entries := (cv_entries v)(i := None)\<rparr>" using e(1) by (cases v) (simp add: v_drop_def)
  ultimately show ?thesis using pc4(2) mp'(2,3) by auto
qed

lemma pit_remove_refines:
  assumes r: "repr pc v" and e: "cv_entries v i = Some e" "pe_type e = PKT_CACHE_PIT_TYPE"
    and ix: "cv_index v (pe_name e) = Some i" and l: "i \<notin> set (cv_lru v)"
  shows "\<exists>pc'. pkt_cache_pit_remove_entry i pc = Some pc' \<and>
    repr pc' (v\<lparr>cv_entries := (cv_entries v)(i := None), cv_index := (cv_index v)(pe_name e := None)\<rparr>)"
proof -
  obtain e' where e': "pkt_cache_entry_at pc i = Some e'" "strip_links e' = e" using repr_at [OF r e(1)] by blast
  obtain pc1 where pc1: "remove_suffix (name_prefix (pe_name e)) (name_suffix (pe_name e)) pc = Some pc1"
    "repr pc1 (v\<lparr>cv_index := (cv_index v)(pe_name e := None)\<rparr>)"
    using repr_remove_suffix [OF r ix] by blast
  moreover obtain pc2 where "entries_put i pc1 = Some pc2"
    "repr pc2 (v\<lparr>cv_index := (cv_index v)(pe_name e := None), cv_entries := (cv_entries v)(i := None)\<rparr>)"
    using repr_put [OF pc1(2), of i] e(1) l by auto
  moreover have "v\<lparr>cv_index := (cv_index v)(pe_name e := None), cv_entries := (cv_entries v)(i := None)\<rparr> =
    v\<lparr>cv_entries := (cv_entries v)(i := None), cv_index := (cv_index v)(pe_name e := None)\<rparr>" by (cases v) simp
  ultimately show ?thesis using e e' by (auto simp: pkt_cache_pit_remove_entry_def)
qed

text \<open>The entry of a Data packet.\<close>

definition data_entry :: "'w cache_env \<Rightarrow> hicn_name \<Rightarrow> nat \<Rightarrow> u32 \<Rightarrow> pkt_cache_entry" where
  "data_entry env n msgbuf_id expiry = \<lparr>pe_name = n, pe_type = PKT_CACHE_CS_TYPE, pe_create_ts = env_now env,
     pe_expire_ts = env_now env + ucast expiry, pe_has_expire_ts = True,
     pe_u = U_cs \<lparr>ce_msgbuf_id = msgbuf_id, ce_prev = None, ce_next = None\<rparr>\<rparr>"

lemma data_entry_simps [simp]:
  "pe_name (data_entry env n m x) = n" "pe_type (data_entry env n m x) = PKT_CACHE_CS_TYPE"
  "pe_u (data_entry env n m x) = U_cs \<lparr>ce_msgbuf_id = m, ce_prev = None, ce_next = None\<rparr>"
  by (simp_all add: data_entry_def)

lemma cs_msgbuf_upd [simp]: "cs_msgbuf (V(i := w)) j = (if j = i then cs_msgbuf (\<lambda>_. w) j else cs_msgbuf V j)"
  by (simp add: cs_msgbuf_def)

lemma cs_msgbuf_cs: "V i = Some e \<Longrightarrow> pe_u e = U_cs c \<Longrightarrow> cs_msgbuf V i = ce_msgbuf_id c"
  by (simp add: cs_msgbuf_def)

lemma held_other: "i \<notin> set xs \<Longrightarrow> image_mset (cs_msgbuf (V(i := w))) (mset xs) = image_mset (cs_msgbuf V) (mset xs)"
  by (rule image_mset_cong) auto

lemma held_insert:
  "i \<notin> set (cv_lru v) \<Longrightarrow> pe_u e = U_cs c \<Longrightarrow> held (v_insert i e v) = add_mset (ce_msgbuf_id c) (held v)"
  by (simp add: held_def v_insert_def held_other cs_msgbuf_cs)

lemma held_drop:
  assumes "distinct (cv_lru v)" "i \<in> set (cv_lru v)" "cv_entries v i = Some e"
  shows "held (v_drop i v) = held v - {#cs_msgbuf (cv_entries v) i#}"
proof -
  have "i \<notin> set (remove1 i (cv_lru v))" using assms(1) by simp
  from held_other [OF this, of "cv_entries v" None] show ?thesis using assms
    by (simp add: held_def v_drop_def image_mset_Diff del: mset_remove1) (simp add: image_mset_Diff)
qed

lemma remove1_last: "distinct xs \<Longrightarrow> xs \<noteq> [] \<Longrightarrow> remove1 (last xs) xs = butlast xs"
  by (cases xs rule: rev_cases) (auto simp: remove1_append)

lemma repr_lru_add:
  assumes r: "repr pc v" and e: "cv_entries v i = Some e" "pe_type e = PKT_CACHE_CS_TYPE" "pe_u e = U_cs c" and i: "i \<notin> set (cv_lru v)"
    and n: "cv_num v = int (length (cv_lru v)) + 1" "length (cv_lru v) \<le> cv_max v" "0 < cv_max v" "cv_max v < 2 ^ 31"
  shows "\<exists>pc'. cs_lru_add_entry pc i =
      Some (if length (cv_lru v) < cv_max v then LRU_SUCCESS else LRU_EVICTION, pc') \<and>
    repr pc' (v\<lparr>cv_lru := i # (if length (cv_lru v) < cv_max v then cv_lru v else butlast (cv_lru v))\<rparr>) \<and>
    lru_tail (pc_cs pc) = last_of None (cv_lru v)"
proof -
  have d: "distinct (cv_lru v)" and s: "set (cv_lru v) \<subseteq> dom (cv_entries v)" and l: "lru_list pc (cv_lru v)"
    using r by (auto simp: repr_def lru_list_def)
  obtain e' c' where e': "pkt_cache_entry_at pc i = Some e'" "pe_type e' = pe_type e" "pe_u e' = U_cs c'"
    using repr_cs_entry [OF r e(1,3)] by blast
  have at: "cs_entry_at pc i = Some c'" using e' e(2) by (simp add: cs_entry_at_def)
  have "cs_num_entries (pc_cs pc) = cv_num v" "cs_max_size (pc_cs pc) = cv_max v" using r by (auto simp: repr_def)
  then have full: "cs_is_full (pc_cs pc) \<longleftrightarrow> \<not> length (cv_lru v) < cv_max v" using n by (auto simp: cs_is_full_def)
  obtain pc' where pc': "cs_lru_add pc i False = Some (if cs_is_full (pc_cs pc) then LRU_EVICTION else LRU_SUCCESS, pc')"
    "lru_list pc' (if cs_is_full (pc_cs pc) then butlast (i # cv_lru v) else i # cv_lru v)" "lru_frame pc pc'"
    using cs_lru_add_list [OF l i at] by blast
  let ?xs = "i # (if length (cv_lru v) < cv_max v then cv_lru v else butlast (cv_lru v))"
  have "lru_list pc' ?xs" using pc'(2) full n by (cases "cv_lru v") (auto split: if_splits)
  moreover have "set ?xs \<subseteq> dom (cv_entries v)" using s e(1) by (auto dest: in_set_butlastD)
  ultimately have "repr pc' (v\<lparr>cv_lru := ?xs\<rparr>)" using repr_frame [OF r pc'(3)] by blast
  then show ?thesis using pc'(1) full l by (auto simp: cs_lru_add_entry_def lru_list_def)
qed

text \<open>What follows the insertion in the list when the store is full.\<close>

lemma evict_refines:
  assumes r: "repr pc ((v_insert i d v)\<lparr>cv_lru := i # butlast (cv_lru v)\<rparr>)" and i: "i \<notin> set (cv_lru v)" and ok: "cs_view_ok v"
    and ix: "\<And>x e. x \<in> set (cv_lru v) \<Longrightarrow> cv_entries v x = Some e \<Longrightarrow> cv_index v (pe_name e) = Some x"
    and full: "\<not> length (cv_lru v) < cv_max v" and refs: "refs_ok mp (H + held v)" and d: "pe_u d = U_cs cd"
  shows "\<exists>pc' mp' k. do {
       tail \<leftarrow> last_of None (cv_lru v);
       e \<leftarrow> pkt_cache_entry_at pc tail;
       assert_that (pe_type e = PKT_CACHE_CS_TYPE);
       pkt_cache_cs_remove_entry tail True pc mp } = Some (pc', mp') \<and>
     repr pc' (v_store i d v) \<and> same_bufs mp mp' \<and> k \<in># held v \<and> refs_ok mp' (H + (held v - {#k#})) \<and>
     held (v_store i d v) = add_mset (ce_msgbuf_id cd) (held v - {#k#})"
proof -
  have num: "cv_num v = int (length (cv_lru v))" "length (cv_lru v) \<le> cv_max v" "0 < cv_max v" "cv_max v < 2 ^ 31 - 1" "distinct (cv_lru v)"
    using ok by (auto simp: cs_view_ok_def)
  then have ne: "cv_lru v \<noteq> []" using full by auto
  let ?t = "last (cv_lru v)" and ?v3 = "(v_insert i d v)\<lparr>cv_lru := i # butlast (cv_lru v)\<rparr>"
  have t: "?t \<in> set (cv_lru v)" "?t \<noteq> i" using ne i last_in_set [OF ne] by auto
  have rm: "remove1 ?t (cv_lru v) = butlast (cv_lru v)" using remove1_last [OF num(5) ne] .
  then have tb: "?t \<notin> set (butlast (cv_lru v))" using num(5) by (metis set_remove1_eq Diff_iff insertI1)
  obtain et ct where et: "cv_entries v ?t = Some et" "pe_type et = PKT_CACHE_CS_TYPE" "pe_u et = U_cs ct"
    using ok t(1) by (auto simp: cs_view_ok_def)
  have h: "ce_msgbuf_id ct \<in># held v" using t(1) cs_msgbuf_cs [of "cv_entries v", OF et(1,3)] by (force simp: held_def)
  obtain pc' mp' where pc': "pkt_cache_cs_remove_entry ?t True pc mp = Some (pc', mp')" "repr pc' (v_drop ?t ?v3)"
    "refs_ok mp' (H + held v - {#ce_msgbuf_id ct#})" "same_bufs mp mp'"
    using cs_remove_refines [OF r, of ?t et ct True mp "H + held v"] et t tb ix [OF t(1) et(1)] num refs h
    by (auto simp: v_insert_def)
  obtain e' where e': "pkt_cache_entry_at pc ?t = Some e'" "strip_links e' = et"
    using repr_at [OF r, of ?t] et(1) t(2) by (auto simp: v_insert_def)
  have "pe_type e' = PKT_CACHE_CS_TYPE" using e'(2) et(2) by auto
  moreover have "v_drop ?t ?v3 = v_store i d v" using full et(1) t tb rm
    by (simp add: v_store_def v_drop_def remove1_idem v_insert_def)
  moreover have "held (v_store i d v) = add_mset (ce_msgbuf_id cd) (held v) - {#ce_msgbuf_id ct#}"
    using full held_drop [of "v_insert i d v" ?t et] held_insert [OF i d] t et num(5) i
    by (simp add: v_store_def) (simp add: v_insert_def cs_msgbuf_cs)
  ultimately show ?thesis using pc' e'(1) ne h
    by (intro exI [of _ pc'] exI [of _ mp'] exI [of _ "ce_msgbuf_id ct"]) (simp add: last_of_def)
qed

lemma store_refines:
  assumes r: "repr pc v" and e: "cv_entries v i = Some e0" and i: "i \<notin> set (cv_lru v)" and ok: "cs_view_ok v"
    and ix: "\<And>x e. x \<in> set (cv_lru v) \<Longrightarrow> cv_entries v x = Some e \<Longrightarrow> cv_index v (pe_name e) = Some x"
    and refs: "refs_ok mp (H + held v)" "m \<in># H" "size H + length (cv_lru v) + 1 < 2 ^ 32"
    and ex: "msgbuf_get_data_expiry_time (env_junk env) (pool_elts mp m) = Some x"
  shows "\<exists>pc' mp'. pkt_cache_store env i m pc mp = Some (pc', mp') \<and>
    repr pc' (v_store i (data_entry env (pe_name e0) m x) v) \<and> same_bufs mp mp' \<and>
    refs_ok mp' (H + held (v_store i (data_entry env (pe_name e0) m x) v))"
proof -
  let ?d = "data_entry env (pe_name e0) m x" and ?room = "length (cv_lru v) < cv_max v"
  have mm: "m \<in># H + held v" using refs by simp
  have at: "msgbuf_pool_at mp m = Some (pool_elts mp m)" using refs_used [OF refs(1) mm] by (simp add: msgbuf_pool_at_def)
  let ?f = "\<lambda>e. e\<lparr>pe_u := U_cs \<lparr>ce_msgbuf_id = m, ce_prev = None, ce_next = None\<rparr>,
         pe_create_ts := env_now env, pe_expire_ts := env_now env + ucast x,
         pe_has_expire_ts := True, pe_type := PKT_CACHE_CS_TYPE\<rparr>"
  let ?v1 = "v\<lparr>cv_entries := (cv_entries v)(i \<mapsto> ?d)\<rparr>"
  have r1: "repr (entry_upd i ?f pc) ?v1"
  proof (rule repr_upd [OF r e i])
    fix e' assume "strip_links e' = e0"
    then have "pe_name e' = pe_name e0" by auto
    then show "strip_links (?f e') = ?d" by (cases e') (simp add: data_entry_def strip_links_def)
  qed
  have num: "cv_num v = int (length (cv_lru v))" "length (cv_lru v) \<le> cv_max v" "0 < cv_max v" "cv_max v < 2 ^ 31 - 1"
    using ok by (auto simp: cs_view_ok_def)
  let ?v2 = "?v1\<lparr>cv_num := cv_num v + 1\<rparr>"
  obtain pc2 where pc2: "num_entries_add 1 (entry_upd i ?f pc) = Some pc2" "repr pc2 ?v2"
    using repr_num [OF r1, of 1] num by auto
  obtain pc3 where pc3: "cs_lru_add_entry pc2 i = Some (if ?room then LRU_SUCCESS else LRU_EVICTION, pc3)"
    "repr pc3 (?v2\<lparr>cv_lru := i # (if ?room then cv_lru v else butlast (cv_lru v))\<rparr>)" "lru_tail (pc_cs pc2) = last_of None (cv_lru v)"
    using repr_lru_add [OF pc2(2), of i ?d] i num by (auto cong: if_cong)
  have new: "v_insert i ?d v = ?v2\<lparr>cv_lru := i # cv_lru v\<rparr>" by (cases v) (simp add: v_insert_def)
  have refs': "refs_ok (msgbuf_pool_acquire m mp') (add_mset m H')" "same_bufs mp (msgbuf_pool_acquire m mp')"
    if "refs_ok mp' H'" "m \<in># H'" "size H' \<le> size H + length (cv_lru v)" "same_bufs mp mp'" for mp' H'
    using acquire_refs [OF that(1) refs_used [OF that(1,2)]] that(3) refs(3) same_bufs_trans [OF that(4) same_bufs_acquire] by auto
  note st = at ex pc2 pc3(1,3)
  show ?thesis
  proof (cases ?room)
    case True
    then have "held (v_store i ?d v) = add_mset m (held v)" using held_insert [OF i, of ?d] by (simp add: v_store_def)
    moreover have "pkt_cache_store env i m pc mp = Some (pc3, msgbuf_pool_acquire m mp)"
      unfolding pkt_cache_store_def using st True by simp
    ultimately show ?thesis using pc3(2) True refs' [OF refs(1) mm] new by (auto simp: v_store_def held_def)
  next
    case False
    then have "repr pc3 ((v_insert i ?d v)\<lparr>cv_lru := i # butlast (cv_lru v)\<rparr>)" using pc3(2) new by simp
    from evict_refines [OF this i ok ix False refs(1)] obtain pc4 mp4 k where ev: "do {
       tail \<leftarrow> last_of None (cv_lru v);
       e \<leftarrow> pkt_cache_entry_at pc3 tail;
       assert_that (pe_type e = PKT_CACHE_CS_TYPE);
       pkt_cache_cs_remove_entry tail True pc3 mp } = Some (pc4, mp4)" and k:
       "repr pc4 (v_store i ?d v)" "same_bufs mp mp4" "k \<in># held v" "refs_ok mp4 (H + (held v - {#k#}))"
       "held (v_store i ?d v) = add_mset m (held v - {#k#})" by auto
    have "pkt_cache_store env i m pc mp = Some (pc4, msgbuf_pool_acquire m mp4)"
      unfolding pkt_cache_store_def using st False ev by (auto simp: bind_eq_Some_conv split: if_splits)
    moreover have m: "m \<in># H + (held v - {#k#})" using refs(2) unfolding union_iff by simp
    have "size (held v - {#k#}) \<le> length (cv_lru v)" using size_Diff1_le [of "held v" k] by (simp add: held_def)
    then have "size (H + (held v - {#k#})) \<le> size H + length (cv_lru v)" unfolding size_union by simp
    ultimately show ?thesis using k refs' [OF k(4) m _ k(2)] by simp
  qed
qed

definition single_hop :: "u32 \<Rightarrow> nexthops" where
  "single_hop conn = snd (the (nexthops_add NEXTHOPS_EMPTY conn))"

text \<open>The entry of an Interest received on a connection.\<close>

definition interest_entry :: "'w cache_env \<Rightarrow> hicn_name \<Rightarrow> u32 \<Rightarrow> u32 \<Rightarrow> pkt_cache_entry" where
  "interest_entry env n conn lifetime = \<lparr>pe_name = n, pe_type = PKT_CACHE_PIT_TYPE, pe_create_ts = env_now env,
     pe_expire_ts = env_now env + ucast lifetime, pe_has_expire_ts = True,
     pe_u = U_pit \<lparr>ingressIdSet = single_hop conn, egressIdSet = NEXTHOPS_EMPTY, pit_fib_entry = None\<rparr>\<rparr>"

lemma interest_entry_simps [simp]:
  "pe_name (interest_entry env n conn x) = n" "pe_type (interest_entry env n conn x) = PKT_CACHE_PIT_TYPE"
  "pe_u (interest_entry env n conn x) = U_pit \<lparr>ingressIdSet = single_hop conn, egressIdSet = NEXTHOPS_EMPTY, pit_fib_entry = None\<rparr>"
  by (simp_all add: interest_entry_def)

lemma single_hop_add: "\<exists>j. nexthops_add NEXTHOPS_EMPTY conn = Some (j, single_hop conn) \<and> nexthops_inv (single_hop conn) \<and> hops (single_hop conn) = [conn]"
proof -
  have "num_elts NEXTHOPS_EMPTY < 31" by (simp add: NEXTHOPS_EMPTY_def)
  with nexthops_add_hops [of NEXTHOPS_EMPTY conn] show ?thesis by (auto simp: single_hop_def)
qed

lemma fill_pit_refines:
  assumes "repr pc v" "cv_entries v i = Some e0" "i \<notin> set (cv_lru v)" "msgbuf_get_interest_lifetime (env_junk env) m = Some x"
  shows "\<exists>pc'. pkt_cache_fill_pit env i m pc = Some pc' \<and>
    repr pc' (v\<lparr>cv_entries := (cv_entries v)(i \<mapsto> interest_entry env (pe_name e0) (mb_connection_id m) x)\<rparr>)"
proof -
  let ?f = "\<lambda>e. e\<lparr>pe_u := U_pit \<lparr>ingressIdSet = single_hop (mb_connection_id m), egressIdSet = NEXTHOPS_EMPTY, pit_fib_entry = None\<rparr>,
         pe_create_ts := env_now env, pe_expire_ts := env_now env + ucast x,
         pe_has_expire_ts := True, pe_type := PKT_CACHE_PIT_TYPE\<rparr>"
  obtain j where "nexthops_add NEXTHOPS_EMPTY (mb_connection_id m) = Some (j, single_hop (mb_connection_id m))" using single_hop_add by blast
  then have "pkt_cache_fill_pit env i m pc = Some (entry_upd i ?f pc)" using assms(4) by (simp add: pkt_cache_fill_pit_def)
  moreover have "repr (entry_upd i ?f pc) (v\<lparr>cv_entries := (cv_entries v)(i \<mapsto> interest_entry env (pe_name e0) (mb_connection_id m) x)\<rparr>)"
  proof (rule repr_upd [OF assms(1-3)])
    fix e' assume "strip_links e' = e0"
    then have "pe_name e' = pe_name e0" by auto
    then show "strip_links (?f e') = interest_entry env (pe_name e0) (mb_connection_id m) x"
      by (cases e') (simp add: interest_entry_def strip_links_def)
  qed
  ultimately show ?thesis by blast
qed

definition v_to_pit :: "nat \<Rightarrow> pkt_cache_entry \<Rightarrow> cache_view \<Rightarrow> cache_view" where
  "v_to_pit i e v = v\<lparr>cv_entries := (cv_entries v)(i \<mapsto> e), cv_lru := remove1 i (cv_lru v), cv_num := cv_num v - 1\<rparr>"

lemma held_mem: "i \<in> set (cv_lru v) \<Longrightarrow> cv_entries v i = Some e \<Longrightarrow> pe_u e = U_cs c \<Longrightarrow> ce_msgbuf_id c \<in># held v"
  using cs_msgbuf_cs [of "cv_entries v" i e c] by (force simp: held_def)

lemma held_remove1:
  assumes "distinct xs" "i \<in> set xs" "V i = Some e" "pe_u e = U_cs c"
  shows "image_mset (cs_msgbuf (V(i := w))) (mset (remove1 i xs)) = image_mset (cs_msgbuf V) (mset xs) - {#ce_msgbuf_id c#}"
proof -
  have "i \<notin> set (remove1 i xs)" using assms(1) by simp
  from held_other [OF this, of V w] assms show ?thesis
    by (simp add: cs_msgbuf_cs del: mset_remove1) (simp add: image_mset_Diff cs_msgbuf_cs)
qed

lemma cs_to_pit_refines:
  assumes r: "repr pc v" and e: "cv_entries v i = Some e" "pe_type e = PKT_CACHE_CS_TYPE" "pe_u e = U_cs c" and i: "i \<in> set (cv_lru v)"
    and n: "0 < cv_num v" "cv_num v < 2 ^ 31" and refs: "refs_ok mp (H + held v)"
    and x: "msgbuf_get_interest_lifetime (env_junk env) m = Some x"
  shows "\<exists>pc' mp'. pkt_cache_cs_to_pit env i m pc mp = Some (pc', mp') \<and>
    repr pc' (v_to_pit i (interest_entry env (pe_name e) (mb_connection_id m) x) v) \<and> same_bufs mp mp' \<and>
    refs_ok mp' (H + held (v_to_pit i (interest_entry env (pe_name e) (mb_connection_id m) x) v))"
proof -
  have d: "distinct (cv_lru v)" using r by (simp add: repr_def lru_list_def)
  have h: "ce_msgbuf_id c \<in># held v" using held_mem [OF i e(1,3)] .
  obtain e' c' where e': "pkt_cache_entry_at pc i = Some e'" "pe_type e' = PKT_CACHE_CS_TYPE" "pe_u e' = U_cs c'"
    "ce_msgbuf_id c' = ce_msgbuf_id c" using repr_cs_entry [OF r e(1,3)] e(2) by auto
  obtain mp' where mp': "msgbuf_pool_release mp (ce_msgbuf_id c) = Some mp'" "refs_ok mp' (H + held v - {#ce_msgbuf_id c#})" "same_bufs mp mp'"
    using release_same [OF refs] h by auto
  let ?v1 = "v\<lparr>cv_lru := remove1 i (cv_lru v)\<rparr>" and ?e = "interest_entry env (pe_name e) (mb_connection_id m) x"
  obtain pc1 where pc1: "cs_lru_remove_entry pc i = Some (LRU_SUCCESS, pc1)" "repr pc1 ?v1" using repr_lru_remove [OF r i] by blast
  obtain pc2 where pc2: "pkt_cache_fill_pit env i m pc1 = Some pc2" "repr pc2 (?v1\<lparr>cv_entries := (cv_entries v)(i \<mapsto> ?e)\<rparr>)"
    using fill_pit_refines [OF pc1(2), of i e env m x] e(1) d x by auto
  obtain pc3 where pc3: "num_entries_add (- 1) pc2 = Some pc3"
    "repr pc3 (?v1\<lparr>cv_entries := (cv_entries v)(i \<mapsto> ?e), cv_num := cv_num v - 1\<rparr>)"
    using repr_num [OF pc2(2), of "- 1"] n by auto
  have "?v1\<lparr>cv_entries := (cv_entries v)(i \<mapsto> ?e), cv_num := cv_num v - 1\<rparr> = v_to_pit i ?e v" by (cases v) (simp add: v_to_pit_def)
  moreover have "pkt_cache_cs_to_pit env i m pc mp = Some (pc3, mp')"
    using e' mp'(1) pc1(1) pc2(1) pc3(1) r by (simp add: pkt_cache_cs_to_pit_def)
  moreover have "H + held v - {#ce_msgbuf_id c#} = H + held (v_to_pit i ?e v)"
    using h held_remove1 [where V = "cv_entries v", OF d i e(1,3), of "Some ?e"] by (simp add: held_def v_to_pit_def)
  ultimately show ?thesis using pc3(2) mp'(2,3) by simp
qed

definition v_refresh :: "nat \<Rightarrow> pkt_cache_entry \<Rightarrow> cache_view \<Rightarrow> cache_view" where
  "v_refresh i e v = v\<lparr>cv_entries := (cv_entries v)(i \<mapsto> e), cv_lru := i # remove1 i (cv_lru v)\<rparr>"

lemma same_bufs_pkbuf: "same_bufs mp mp' \<Longrightarrow> mb_pkbuf (pool_elts mp' j) = mb_pkbuf (pool_elts mp j)"
  unfolding same_bufs_def by (drule spec [of _ j], drule arg_cong [of _ _ mb_pkbuf]) simp

lemma same_bufs_expiry:
  "same_bufs mp mp' \<Longrightarrow> msgbuf_get_data_expiry_time junk (pool_elts mp' j) = msgbuf_get_data_expiry_time junk (pool_elts mp j)"
  by (simp add: msgbuf_get_data_expiry_time_def same_bufs_pkbuf)

lemma repr_lru_update:
  assumes "repr pc v" "i \<in> set (cv_lru v)" "cs_view_ok v"
  shows "\<exists>pc'. cs_lru_update_entry pc i = Some pc' \<and> repr pc' (v\<lparr>cv_lru := i # remove1 i (cv_lru v)\<rparr>)"
proof -
  have d: "distinct (cv_lru v)" and s: "set (cv_lru v) \<subseteq> dom (cv_entries v)" and l: "lru_list pc (cv_lru v)"
    and nf: "\<not> cs_is_full (pc_cs pc)"
    using assms(1,3) by (auto simp: repr_def lru_list_def cs_view_ok_def cs_is_full_def)
  obtain ys zs where xs: "cv_lru v = ys @ i # zs" using assms(2) split_list by metis
  then have r: "remove1 i (cv_lru v) = ys @ zs" using d by (simp add: remove1_append)
  obtain pc' where "cs_lru_update_entry pc i = Some pc'" "lru_list pc' (i # ys @ zs)" "lru_frame pc pc'"
    using cs_lru_update_list [of pc ys i zs] l xs nf by auto
  with repr_frame [OF assms(1), of pc' "i # ys @ zs"] s xs r show ?thesis by auto
qed

lemma update_cs_refines:
  assumes r: "repr pc v" and e: "cv_entries v i = Some e" "pe_type e = PKT_CACHE_CS_TYPE" "pe_u e = U_cs c" and i: "i \<in> set (cv_lru v)"
    and ok: "cs_view_ok v" and refs: "refs_ok mp (H + held v)" "m \<in># H" "size H + length (cv_lru v) + 1 < 2 ^ 32"
    and x: "msgbuf_get_data_expiry_time (env_junk env) (pool_elts mp m) = Some x"
  shows "\<exists>pc' mp'. pkt_cache_update_cs env i m pc mp = Some (pc', mp') \<and>
    repr pc' (v_refresh i (data_entry env (pe_name e) m x) v) \<and> same_bufs mp mp' \<and>
    refs_ok mp' (H + held (v_refresh i (data_entry env (pe_name e) m x) v))"
proof -
  let ?d = "data_entry env (pe_name e) m x"
  have d: "distinct (cv_lru v)" using r by (simp add: repr_def lru_list_def)
  have h: "ce_msgbuf_id c \<in># held v" using held_mem [OF i e(1,3)] .
  obtain e' c' where e': "pkt_cache_entry_at pc i = Some e'" "pe_type e' = PKT_CACHE_CS_TYPE" "pe_u e' = U_cs c'"
    "ce_msgbuf_id c' = ce_msgbuf_id c" "strip_links e' = e" using repr_cs_entry [OF r e(1,3)] e(2) by auto
  obtain mp1 where mp1: "msgbuf_pool_release mp (ce_msgbuf_id c) = Some mp1" "refs_ok mp1 (H + held v - {#ce_msgbuf_id c#})" "same_bufs mp mp1"
    using release_same [OF refs(1)] h by auto
  let ?mp = "msgbuf_pool_acquire m mp1"
  have m1: "m \<in># H + held v - {#ce_msgbuf_id c#}" 
  proof -
    have eq: "H + held v - {#ce_msgbuf_id c#} = H + (held v - {#ce_msgbuf_id c#})" using h by simp
    show ?thesis unfolding eq union_iff using refs(2) by simp
  qed
  have "size (H + held v - {#ce_msgbuf_id c#}) + 1 < 2 ^ 32" using refs(3) size_Diff1_le [of "H + held v" "ce_msgbuf_id c"] by (simp add: held_def)
  from acquire_refs [OF mp1(2) refs_used [OF mp1(2) m1] this]
  have mp2: "refs_ok ?mp (add_mset m (H + held v - {#ce_msgbuf_id c#}))" "same_bufs mp ?mp"
    using same_bufs_trans [OF mp1(3) same_bufs_acquire] by auto
  have at: "msgbuf_pool_at ?mp m = Some (pool_elts ?mp m)" using refs_used [OF mp2(1)] by (simp add: msgbuf_pool_at_def)
  let ?f = "\<lambda>e. e\<lparr>pe_u := U_cs (c'\<lparr>ce_msgbuf_id := m\<rparr>),
         pe_create_ts := env_now env, pe_expire_ts := env_now env + ucast x, pe_has_expire_ts := True\<rparr>"
  have r1: "repr (entry_upd i ?f pc) (v\<lparr>cv_entries := (cv_entries v)(i \<mapsto> ?d)\<rparr>)"
  proof (rule repr_upd_at [OF r e'(1)])
    have "pe_name e' = pe_name e" using e'(5) by auto
    then show "strip_links (?f e') = ?d" using e'(2) by (cases e') (simp add: data_entry_def strip_links_def)
  qed (use e e' in auto)
  let ?v1 = "v\<lparr>cv_entries := (cv_entries v)(i \<mapsto> ?d)\<rparr>"
  have "cs_view_ok ?v1" using ok by (auto simp: cs_view_ok_def)
  then obtain pc2 where pc2: "cs_lru_update_entry (entry_upd i ?f pc) i = Some pc2" "repr pc2 (?v1\<lparr>cv_lru := i # remove1 i (cv_lru v)\<rparr>)"
    using repr_lru_update [OF r1, of i] i by auto
  have "pkt_cache_update_cs env i m pc mp = Some (pc2, ?mp)"
    using e' mp1(1) at x same_bufs_expiry [OF mp2(2), of "env_junk env" m] pc2(1) r1 by (simp add: pkt_cache_update_cs_def)
  moreover have "add_mset m (H + held v - {#ce_msgbuf_id c#}) = H + held (v_refresh i ?d v)"
    using h held_remove1 [where V = "cv_entries v", OF d i e(1,3), of "Some ?d"] by (simp add: held_def v_refresh_def cs_msgbuf_cs)
  ultimately show ?thesis using pc2(2) mp2 by (simp add: v_refresh_def)
qed

lemma lookup_refines:
  assumes r: "repr pc v" and s: "saved_for n v" and ix: "\<And>i. cv_index v n = Some i \<Longrightarrow> cv_entries v i \<noteq> None"
  shows "pkt_cache_lookup now n pc = Some (case cv_index v n of None \<Rightarrow> (PKT_CACHE_LU_NONE, None)
    | Some i \<Rightarrow> (lookup_result now (the (cv_entries v i)), Some i))"
proof -
  have g: "(case pc_cached_suffixes pc of Some s \<Rightarrow> get_from_suffixes s (name_suffix n) pc
      | None \<Rightarrow> get_suffix_from_name n pc) = Some (cv_index v n)"
  proof (cases "cv_cached v")
    case None
    then show ?thesis using r reprD(2) [OF r]
      by (auto simp: repr_def get_suffix_from_name_def get_suffix_def get_suffixes_def get_from_suffixes_def index_of_def split: option.splits)
  next
    case (Some p)
    then have "p = name_prefix n" "pc_index pc p \<noteq> None" "pc_cached_suffixes pc = Some p" using r s by (auto simp: repr_def saved_for_def)
    then show ?thesis using reprD(2) [OF r] by (auto simp: get_from_suffixes_def index_of_def)
  qed
  show ?thesis
  proof (cases "cv_index v n")
    case None
    then show ?thesis using g by (simp add: pkt_cache_lookup_def)
  next
    case (Some i)
    then obtain e where e: "cv_entries v i = Some e" using ix by blast
    obtain e' where "pkt_cache_entry_at pc i = Some e'" "strip_links e' = e" using repr_at [OF r e] by blast
    then show ?thesis using g Some e by (auto simp: pkt_cache_lookup_def)
  qed
qed

end
