(* ===== verification/Packet_Cache_Spec.thy ===== *)
theory Packet_Cache_Spec
  imports Packet_Cache_View
begin

text \<open>
  The second half of the refinement: the abstract cache, a map from names to entries with the
  list of its Data packets, and the specification of the reception of Interest and Data on it.
  \<open>cache_ok\<close> is the invariant that ties a concrete cache and its message buffers to an
  abstract one.
\<close>

section \<open>The abstract cache\<close>

text \<open>What the cache means: one map from names to entries, and the names of its Data packets, the
  most recent one first.\<close>

record acache =
  ac_map :: "hicn_name \<rightharpoonup> pkt_cache_entry"
  ac_lru :: "hicn_name list"
  ac_max :: nat

definition a_pit :: "hicn_name \<Rightarrow> pkt_cache_entry \<Rightarrow> acache \<Rightarrow> acache" where
  "a_pit n e A = A\<lparr>ac_map := (ac_map A)(n \<mapsto> e), ac_lru := remove1 n (ac_lru A)\<rparr>"

definition a_del :: "hicn_name \<Rightarrow> acache \<Rightarrow> acache" where
  "a_del n A = A\<lparr>ac_map := (ac_map A)(n := None), ac_lru := remove1 n (ac_lru A)\<rparr>"

definition a_cs :: "hicn_name \<Rightarrow> pkt_cache_entry \<Rightarrow> acache \<Rightarrow> acache" where
  "a_cs n e A = (let A' = A\<lparr>ac_map := (ac_map A)(n \<mapsto> e), ac_lru := n # remove1 n (ac_lru A)\<rparr>
     in if length (ac_lru A') \<le> ac_max A then A' else a_del (last (ac_lru A')) A')"

definition aggregate_spec :: "'w cache_env \<Rightarrow> 'w \<Rightarrow> u32 \<Rightarrow> u32 \<Rightarrow> pkt_cache_entry \<Rightarrow> bool \<times> pkt_cache_entry" where
  "aggregate_spec env w conn lifetime e = (case pe_u e of U_cs _ \<Rightarrow> (False, e) | U_pit p \<Rightarrow>
     let agg = conn \<notin> set (hops (ingressIdSet p)) \<and>
           (case pit_fib_entry p of None \<Rightarrow> True | Some f \<Rightarrow>
              \<not> (the (env_is_local_remote env f w) \<and> env_is_local env conn w) \<or>
              list_ex (\<lambda>n. env_is_local env n w) (hops (ingressIdSet p)))
     in (agg, e\<lparr>pe_expire_ts := max (pe_expire_ts e) (env_now env + ucast lifetime),
           pe_u := U_pit (if agg then p\<lparr>ingressIdSet := snd (the (nexthops_add (ingressIdSet p) conn))\<rparr> else p)\<rparr>))"

definition timeout_spec :: "'w cache_env \<Rightarrow> pkt_cache_entry \<Rightarrow> 'w \<Rightarrow> 'w" where
  "timeout_spec env e w = (case pe_u e of U_cs _ \<Rightarrow> w | U_pit p \<Rightarrow>
     (case pit_fib_entry p of None \<Rightarrow> w | Some f \<Rightarrow> the (env_on_timeout env f (egressIdSet p) w)))"

definition interest_spec :: "'w cache_env \<Rightarrow> u32 \<Rightarrow> u32 \<Rightarrow> hicn_name \<Rightarrow> bool \<Rightarrow> nat option \<Rightarrow> acache \<Rightarrow> 'w \<Rightarrow>
    pkt_cache_verdict \<times> nat option \<times> acache \<times> 'w" where
  "interest_spec env conn lifetime n serve d A w = (let e' = interest_entry env n conn lifetime in
     case ac_map A n of
       None \<Rightarrow> (PKT_CACHE_VERDICT_FORWARD_INTEREST, d, a_pit n e' A, w)
     | Some e \<Rightarrow> (case pe_u e of
         U_cs c \<Rightarrow> if serve \<and> \<not> is_expired (env_now env) e
           then (PKT_CACHE_VERDICT_FORWARD_DATA, Some (ce_msgbuf_id c), A, w)
           else (PKT_CACHE_VERDICT_DATA_EXPIRED_FORWARD_INTEREST, d, a_pit n e' A, w)
       | U_pit p \<Rightarrow> if is_expired (env_now env) e
           then (PKT_CACHE_VERDICT_INTEREST_EXPIRED_FORWARD_INTEREST, d, a_pit n e' A, timeout_spec env e w)
           else let (agg, e') = aggregate_spec env w conn lifetime e
             in (if agg then PKT_CACHE_VERDICT_AGGREGATE_INTEREST else PKT_CACHE_VERDICT_RETRANSMIT_INTEREST,
                 d, a_pit n e' A, w)))"

definition data_spec :: "'w cache_env \<Rightarrow> msgbuf \<Rightarrow> nat \<Rightarrow> u32 \<Rightarrow> hicn_name \<Rightarrow> bool \<Rightarrow> bool \<Rightarrow> pkt_cache_verdict \<Rightarrow> acache \<Rightarrow> 'w \<Rightarrow>
    nexthops option \<times> bool \<times> pkt_cache_verdict \<times> acache \<times> 'w" where
  "data_spec env m m_id expiry n keep loc verdict A w = (let d = data_entry env n m_id expiry in
     case ac_map A n of
       None \<Rightarrow> if keep \<and> loc then (None, False, PKT_CACHE_VERDICT_STORE_DATA, a_cs n d A, w)
               else (None, False, PKT_CACHE_VERDICT_IGNORE_DATA, A, w)
     | Some e \<Rightarrow> (case pe_u e of
         U_cs c \<Rightarrow> if keep \<and> loc then (None, False, PKT_CACHE_VERDICT_UPDATE_DATA, a_cs n d A, w)
           else if is_expired (env_now env) e then (None, False, PKT_CACHE_VERDICT_CLEAR_DATA, a_del n A, w)
           else (None, False, PKT_CACHE_VERDICT_IGNORE_DATA, A, w)
       | U_pit p \<Rightarrow> if is_expired (env_now env) e
           then if keep \<and> loc then (None, False, PKT_CACHE_VERDICT_STORE_DATA, a_cs n d A, w)
             else (None, False, PKT_CACHE_VERDICT_CLEAR_DATA, a_del n A, w)
           else let w' = (case pit_fib_entry p of None \<Rightarrow> w
                  | Some f \<Rightarrow> the (env_on_data env f (egressIdSet p) m (pe_create_ts e) (env_now env) w))
             in if mb_connection_id m \<notin> set (hops (egressIdSet p)) then (None, True, verdict, A, w')
             else if keep then (Some (ingressIdSet p), False, PKT_CACHE_VERDICT_FORWARD_DATA, a_cs n d A, w')
             else (Some (ingressIdSet p), False, PKT_CACHE_VERDICT_CLEAR_DATA, a_del n A, w')))"

section \<open>The invariant\<close>

definition entry_ok :: "pkt_cache_entry \<Rightarrow> bool" where
  "entry_ok e \<longleftrightarrow> (case pe_u e of
       U_cs _ \<Rightarrow> pe_type e = PKT_CACHE_CS_TYPE
     | U_pit p \<Rightarrow> pe_type e = PKT_CACHE_PIT_TYPE \<and> nexthops_inv (ingressIdSet p) \<and> nexthops_inv (egressIdSet p))"

definition view_ok :: "cache_view \<Rightarrow> bool" where
  "view_ok v \<longleftrightarrow> cs_view_ok v \<and>
     (\<forall>n i. cv_index v n = Some i \<longleftrightarrow> (\<exists>e. cv_entries v i = Some e \<and> pe_name e = n)) \<and>
     (\<forall>i e. cv_entries v i = Some e \<longrightarrow> entry_ok e \<and> (pe_type e = PKT_CACHE_CS_TYPE \<longrightarrow> i \<in> set (cv_lru v)))"

definition name_at :: "cache_view \<Rightarrow> nat \<Rightarrow> hicn_name" where
  "name_at v i = pe_name (the (cv_entries v i))"

definition abs_of :: "cache_view \<Rightarrow> acache" where
  "abs_of v = \<lparr>ac_map = (\<lambda>n. Option.bind (cv_index v n) (cv_entries v)), ac_lru = map (name_at v) (cv_lru v), ac_max = cv_max v\<rparr>"

text \<open>The cache \<open>pc\<close> with the buffers \<open>mp\<close>, of which the rest of the program holds the references
  \<open>H\<close>, stands for the abstract cache \<open>A\<close>.\<close>

definition cache_ok :: "pkt_cache \<Rightarrow> msgbuf_pool \<Rightarrow> nat multiset \<Rightarrow> acache \<Rightarrow> bool" where
  "cache_ok pc mp H A \<longleftrightarrow> (\<exists>v. repr pc v \<and> view_ok v \<and> refs_ok mp (H + held v) \<and> A = abs_of v)"

lemma view_okD:
  assumes "view_ok v"
  shows "cs_view_ok v" "cv_index v n = Some i \<Longrightarrow> \<exists>e. cv_entries v i = Some e \<and> pe_name e = n"
    "cv_entries v i = Some e \<Longrightarrow> cv_index v (pe_name e) = Some i" "cv_entries v i = Some e \<Longrightarrow> entry_ok e"
    "cv_entries v i = Some e \<Longrightarrow> i \<in> set (cv_lru v) \<longleftrightarrow> pe_type e = PKT_CACHE_CS_TYPE"
    "distinct (cv_lru v)" "i \<in> set (cv_lru v) \<Longrightarrow> \<exists>e c. cv_entries v i = Some e \<and> pe_u e = U_cs c"
proof -
  show "i \<in> set (cv_lru v) \<longleftrightarrow> pe_type e = PKT_CACHE_CS_TYPE" if "cv_entries v i = Some e"
    using assms that by (auto simp: view_ok_def cs_view_ok_def)
qed (use assms in \<open>auto simp: view_ok_def cs_view_ok_def\<close>)

lemma name_at_inj: "view_ok v \<Longrightarrow> cv_entries v i = Some a \<Longrightarrow> cv_entries v j = Some b \<Longrightarrow> name_at v i = name_at v j \<Longrightarrow> i = j"
  using view_okD(3) [of v i a] view_okD(3) [of v j b] by (simp add: name_at_def)

lemma inj_name_at: "view_ok v \<Longrightarrow> inj_on (name_at v) (dom (cv_entries v))"
  by (auto simp: inj_on_def intro: name_at_inj)

lemma lru_dom: "view_ok v \<Longrightarrow> set (cv_lru v) \<subseteq> dom (cv_entries v)"
  using view_okD(7) by blast

lemma map_remove1: "inj_on f (insert i (set xs)) \<Longrightarrow> map f (remove1 i xs) = remove1 (f i) (map f xs)"
  by (induction xs) (auto simp: inj_on_def)

lemma name_at_lru:
  assumes "view_ok v" "cv_entries v i = Some e"
  shows "map (name_at v) (remove1 i (cv_lru v)) = remove1 (pe_name e) (map (name_at v) (cv_lru v))"
proof -
  have "inj_on (name_at v) (insert i (set (cv_lru v)))"
    by (rule inj_on_subset [OF inj_name_at [OF assms(1)]]) (use assms lru_dom [OF assms(1)] in auto)
  then show ?thesis using assms(2) by (simp add: map_remove1 name_at_def)
qed

lemma abs_lookup: "cv_index v n = Some i \<Longrightarrow> ac_map (abs_of v) n = cv_entries v i" "cv_index v n = None \<Longrightarrow> ac_map (abs_of v) n = None"
  by (simp_all add: abs_of_def)

lemma abs_lookup_name: "view_ok v \<Longrightarrow> cv_entries v i = Some e \<Longrightarrow> ac_map (abs_of v) (pe_name e) = Some e"
  using view_okD(3) [of v i e] by (simp add: abs_of_def)

text \<open>Replacing an entry, with its place in the list.\<close>

lemma abs_replace:
  assumes ok: "view_ok v" and e: "cv_entries v i = Some e0" "pe_name e = pe_name e0"
  shows "ac_map (abs_of (v\<lparr>cv_entries := (cv_entries v)(i \<mapsto> e), cv_lru := xs, cv_num := k\<rparr>)) = (ac_map (abs_of v))(pe_name e \<mapsto> e)"
    "name_at (v\<lparr>cv_entries := (cv_entries v)(i \<mapsto> e), cv_lru := xs, cv_num := k\<rparr>) = name_at v"
proof -
  show "ac_map (abs_of (v\<lparr>cv_entries := (cv_entries v)(i \<mapsto> e), cv_lru := xs, cv_num := k\<rparr>)) = (ac_map (abs_of v))(pe_name e \<mapsto> e)"
  proof
    fix n
    show "ac_map (abs_of (v\<lparr>cv_entries := (cv_entries v)(i \<mapsto> e), cv_lru := xs, cv_num := k\<rparr>)) n = ((ac_map (abs_of v))(pe_name e \<mapsto> e)) n"
      using view_okD(2) [OF ok, of n] view_okD(3) [OF ok e(1)] e by (cases "cv_index v n") (auto simp: abs_of_def)
  qed
qed (use e in \<open>auto simp: name_at_def fun_eq_iff\<close>)

lemma index_replace:
  assumes "view_ok v" "cv_entries v i = Some e0" "pe_name e = pe_name e0"
  shows "cv_index v n = Some j \<longleftrightarrow> (\<exists>e'. ((cv_entries v)(i \<mapsto> e)) j = Some e' \<and> pe_name e' = n)"
  using assms by (auto simp: view_ok_def)

lemma view_replace:
  assumes ok: "view_ok v" and e: "cv_entries v i = Some e0" "pe_name e = pe_name e0" "entry_ok e"
    and xs: "set xs = (if pe_type e = PKT_CACHE_CS_TYPE then insert i (set (cv_lru v)) else set (cv_lru v) - {i})" "distinct xs"
    "length xs \<le> cv_max v"
  shows "view_ok (v\<lparr>cv_entries := (cv_entries v)(i \<mapsto> e), cv_lru := xs, cv_num := int (length xs)\<rparr>)"
proof -
  have "cs_view_ok (v\<lparr>cv_entries := (cv_entries v)(i \<mapsto> e), cv_lru := xs, cv_num := int (length xs)\<rparr>)"
    using view_okD(1) [OF ok] xs e(3) by (auto simp: cs_view_ok_def entry_ok_def split: if_splits entry_u.splits)
  then show ?thesis using index_replace [OF ok e(1,2)] view_okD(4,5) [OF ok] e(3) xs
    by (auto simp: view_ok_def split: if_splits)
qed

lemma view_to_pit:
  assumes ok: "view_ok v" and e: "cv_entries v i = Some e0" "pe_name e = pe_name e0" "entry_ok e" "pe_type e = PKT_CACHE_PIT_TYPE"
  shows "view_ok (v\<lparr>cv_entries := (cv_entries v)(i \<mapsto> e), cv_lru := remove1 i (cv_lru v), cv_num := int (length (remove1 i (cv_lru v)))\<rparr>)"
    "abs_of (v\<lparr>cv_entries := (cv_entries v)(i \<mapsto> e), cv_lru := remove1 i (cv_lru v), cv_num := k\<rparr>) = a_pit (pe_name e) e (abs_of v)"
proof -
  have "length (remove1 i (cv_lru v)) \<le> length (cv_lru v)" by (simp add: length_remove1)
  also have "\<dots> \<le> cv_max v" using view_okD(1) [OF ok] by (simp add: cs_view_ok_def)
  finally show "view_ok (v\<lparr>cv_entries := (cv_entries v)(i \<mapsto> e), cv_lru := remove1 i (cv_lru v), cv_num := int (length (remove1 i (cv_lru v)))\<rparr>)"
    using view_okD(6) [OF ok] e by (intro view_replace [OF ok e(1-3)]) simp_all
  show "abs_of (v\<lparr>cv_entries := (cv_entries v)(i \<mapsto> e), cv_lru := remove1 i (cv_lru v), cv_num := k\<rparr>) = a_pit (pe_name e) e (abs_of v)"
    using abs_replace [OF ok e(1,2)] name_at_lru [OF ok e(1)] e(2) by (auto simp: a_pit_def abs_of_def)
qed

lemma view_del:
  assumes ok: "view_ok v" and e: "cv_entries v i = Some e"
  shows "view_ok (v\<lparr>cv_entries := (cv_entries v)(i := None), cv_index := (cv_index v)(pe_name e := None),
      cv_lru := remove1 i (cv_lru v), cv_num := int (length (remove1 i (cv_lru v)))\<rparr>)" (is "view_ok ?v")
    "abs_of (v\<lparr>cv_entries := (cv_entries v)(i := None), cv_index := (cv_index v)(pe_name e := None),
      cv_lru := remove1 i (cv_lru v), cv_num := k\<rparr>) = a_del (pe_name e) (abs_of v)" (is "abs_of ?w = _")
proof -
  have "length (remove1 i (cv_lru v)) \<le> cv_max v" using view_okD(1) [OF ok] by (auto simp: cs_view_ok_def length_remove1)
  then have "cs_view_ok ?v" using view_okD(1) [OF ok] by (auto simp: cs_view_ok_def)
  moreover have "cv_index ?v n = Some j \<longleftrightarrow> (\<exists>e. cv_entries ?v j = Some e \<and> pe_name e = n)" for n j
    using view_okD(2) [OF ok, of n j] view_okD(3) [OF ok, of j] view_okD(3) [OF ok e] e by (cases "j = i") auto
  ultimately show "view_ok ?v" using view_okD(4,5,6) [OF ok] by (auto simp: view_ok_def split: if_splits)
  have "ac_map (abs_of ?w) = (ac_map (abs_of v))(pe_name e := None)"
  proof
    fix n show "ac_map (abs_of ?w) n = ((ac_map (abs_of v))(pe_name e := None)) n"
      using view_okD(2) [OF ok, of n] view_okD(3) [OF ok e] e by (cases "cv_index v n") (auto simp: abs_of_def)
  qed
  moreover have "map (name_at ?w) (remove1 i (cv_lru v)) = map (name_at v) (remove1 i (cv_lru v))"
    using view_okD(6) [OF ok] by (intro map_cong) (auto simp: name_at_def)
  ultimately show "abs_of ?w = a_del (pe_name e) (abs_of v)"
    using name_at_lru [OF ok e] by (simp add: a_del_def abs_of_def)
qed

lemma length_abs [simp]: "length (ac_lru (abs_of v)) = length (cv_lru v)" "ac_max (abs_of v) = cv_max v"
  by (simp_all add: abs_of_def)

lemma abs_notin: 
  assumes "view_ok v" "cv_entries v i = Some e" "i \<notin> set (cv_lru v)"
  shows "pe_name e \<notin> set (ac_lru (abs_of v))"
proof
  assume "pe_name e \<in> set (ac_lru (abs_of v))"
  then obtain j where "j \<in> set (cv_lru v)" "name_at v j = name_at v i" using assms(2) by (auto simp: abs_of_def name_at_def)
  with name_at_inj [OF assms(1) assms(2)] lru_dom [OF assms(1)] assms(3) show False by (metis domD subsetD)
qed

lemma view_insert:
  assumes ok: "view_ok v" and e: "cv_entries v i = Some e0" "pe_name d = pe_name e0" "entry_ok d" "pe_type d = PKT_CACHE_CS_TYPE"
    and i: "i \<notin> set (cv_lru v)" and room: "length (cv_lru v) < cv_max v"
  shows "view_ok (v_insert i d v)" "abs_of (v_insert i d v) = a_cs (pe_name d) d (abs_of v)"
proof -
  have num: "cv_num v + 1 = int (length (i # cv_lru v))" using view_okD(1) [OF ok] by (simp add: cs_view_ok_def)
  show "view_ok (v_insert i d v)" unfolding v_insert_def num
    using view_okD(6) [OF ok] e i room by (intro view_replace [OF ok e(1-3)]) simp_all
  have "remove1 (pe_name d) (ac_lru (abs_of v)) = ac_lru (abs_of v)" using abs_notin [OF ok e(1) i] e(2) by (simp add: remove1_idem)
  then show "abs_of (v_insert i d v) = a_cs (pe_name d) d (abs_of v)"
    using abs_replace [OF ok e(1,2)] e room by (auto simp: v_insert_def a_cs_def Let_def abs_of_def name_at_def)
qed

lemma view_store:
  assumes ok: "view_ok v" and e: "cv_entries v i = Some e0" "pe_name d = pe_name e0" "entry_ok d" "pe_type d = PKT_CACHE_CS_TYPE"
    and i: "i \<notin> set (cv_lru v)"
  shows "view_ok (v_store i d v) \<and> abs_of (v_store i d v) = a_cs (pe_name d) d (abs_of v)"
proof (cases "length (cv_lru v) < cv_max v")
  case True
  then show ?thesis using view_insert [OF ok e i] by (simp add: v_store_def)
next
  case False
  let ?t = "last (cv_lru v)"
  have num: "cv_num v = int (length (cv_lru v))" "length (cv_lru v) = cv_max v" "0 < cv_max v"
    using view_okD(1) [OF ok] False by (auto simp: cs_view_ok_def)
  then have ne: "cv_lru v \<noteq> []" by auto
  then have t: "?t \<in> set (cv_lru v)" "?t \<noteq> i" using i last_in_set [OF ne] by auto
  obtain et where et: "cv_entries v ?t = Some et" using view_okD(7) [OF ok t(1)] by blast
  have ne': "pe_name et \<noteq> pe_name e0" using name_at_inj [OF ok et e(1)] t(2) et e(1) by (auto simp: name_at_def)
  have n1: "cv_num v - 1 = int (length (remove1 ?t (cv_lru v)))" using num t(1) by (simp add: length_remove1)
  have dr: "view_ok (v_drop ?t v)" "abs_of (v_drop ?t v) = a_del (pe_name et) (abs_of v)"
    unfolding v_drop_def using view_del [OF ok et] et n1 by simp_all
  have comm: "v_store i d v = v_insert i d (v_drop ?t v)" using False et t
    by (auto simp: v_store_def v_drop_def v_insert_def fun_upd_twist)
  have vi: "view_ok (v_insert i d (v_drop ?t v))" "abs_of (v_insert i d (v_drop ?t v)) = a_cs (pe_name d) d (a_del (pe_name et) (abs_of v))"
    using view_insert [OF dr(1), of i e0 d] dr(2) e i t et num by (auto simp: v_drop_def length_remove1 dest: notin_set_remove1)
  have "last (ac_lru (abs_of v)) = pe_name et" "ac_lru (abs_of v) \<noteq> []" using ne et by (auto simp: abs_of_def last_map name_at_def)
  moreover have "remove1 (pe_name d) (ac_lru (abs_of v)) = ac_lru (abs_of v)" using abs_notin [OF ok e(1) i] e(2) by (simp add: remove1_idem)
  moreover have "pe_name et \<in> set (ac_lru (abs_of v))" using t(1) et by (force simp: abs_of_def name_at_def)
  moreover have "remove1 (pe_name d) (remove1 (pe_name et) (ac_lru (abs_of v))) = remove1 (pe_name et) (ac_lru (abs_of v))"
    using abs_notin [OF ok e(1) i] e(2) by (intro remove1_idem) (auto dest: notin_set_remove1)
  ultimately have "a_cs (pe_name d) d (a_del (pe_name et) (abs_of v)) = a_cs (pe_name d) d (abs_of v)"
    using ne' e(2) num by (auto simp: a_cs_def a_del_def Let_def length_remove1 fun_upd_twist)
  then show ?thesis using comm vi by simp
qed

lemma view_refresh:
  assumes ok: "view_ok v" and e: "cv_entries v i = Some e0" "pe_name d = pe_name e0" "entry_ok d" "pe_type d = PKT_CACHE_CS_TYPE"
    and i: "i \<in> set (cv_lru v)"
  shows "view_ok (v_refresh i d v) \<and> abs_of (v_refresh i d v) = a_cs (pe_name d) d (abs_of v)"
proof -
  let ?xs = "i # remove1 i (cv_lru v)"
  have num: "cv_num v = int (length (cv_lru v))" "length (cv_lru v) \<le> cv_max v" "length ?xs = length (cv_lru v)"
    using view_okD(1) [OF ok] i length_pos_if_in_set [OF i] by (simp_all add: cs_view_ok_def length_remove1)
  have r: "v_refresh i d v = v\<lparr>cv_entries := (cv_entries v)(i \<mapsto> d), cv_lru := ?xs, cv_num := int (length ?xs)\<rparr>"
    using num(1) unfolding num(3) by (cases v) (simp add: v_refresh_def)
  have "view_ok (v_refresh i d v)" unfolding r
    using view_okD(6) [OF ok] e i num by (intro view_replace [OF ok e(1-3)]) (auto simp: insert_absorb)
  moreover have "length (remove1 (pe_name d) (ac_lru (abs_of v))) = length (remove1 i (cv_lru v))"
    using name_at_lru [OF ok e(1)] e(2) by (metis abs_of_def acache.select_convs(2) length_map)
  then have "abs_of (v_refresh i d v) = a_cs (pe_name d) d (abs_of v)"
    unfolding r using abs_replace [OF ok e(1,2)] name_at_lru [OF ok e(1)] e num
    by (auto simp: a_cs_def Let_def abs_of_def name_at_def)
  ultimately show ?thesis by blast
qed

lemma view_add:
  assumes ok: "view_ok v" and i: "cv_entries v i = None" "cv_index v (pe_name e) = None" and e: "entry_ok e" "pe_type e = PKT_CACHE_PIT_TYPE"
  shows "view_ok (v\<lparr>cv_entries := (cv_entries v)(i \<mapsto> e), cv_index := (cv_index v)(pe_name e \<mapsto> i)\<rparr>)" (is "view_ok ?v")
    "abs_of (v\<lparr>cv_entries := (cv_entries v)(i \<mapsto> e), cv_index := (cv_index v)(pe_name e \<mapsto> i)\<rparr>) = a_pit (pe_name e) e (abs_of v)"
proof -
  have il: "i \<notin> set (cv_lru v)" using lru_dom [OF ok] i(1) by auto
  have ix: "cv_index v n \<noteq> Some i" for n using view_okD(2) [OF ok] i(1) by fastforce
  have "cs_view_ok ?v" using view_okD(1) [OF ok] il by (auto simp: cs_view_ok_def)
  moreover have "cv_index ?v n = Some j \<longleftrightarrow> (\<exists>e. cv_entries ?v j = Some e \<and> pe_name e = n)" for n j
    using view_okD(2) [OF ok, of n j] view_okD(3) [OF ok, of j] i ix [of n] by (cases "j = i") auto
  ultimately show "view_ok ?v" using view_okD(4,5) [OF ok] e by (auto simp: view_ok_def)
  have "ac_map (abs_of ?v) n = ((ac_map (abs_of v))(pe_name e \<mapsto> e)) n" for n
    using ix [of n] by (cases "cv_index v n") (auto simp: abs_of_def)
  moreover have "map (name_at ?v) (cv_lru v) = map (name_at v) (cv_lru v)" using il by (intro map_cong) (auto simp: name_at_def)
  moreover have "pe_name e \<notin> set (ac_lru (abs_of v))"
  proof
    assume "pe_name e \<in> set (ac_lru (abs_of v))"
    then obtain j where "j \<in> set (cv_lru v)" "pe_name e = name_at v j" by (auto simp: abs_of_def)
    moreover from this obtain b where "cv_entries v j = Some b" using lru_dom [OF ok] by blast
    ultimately show False using view_okD(3) [OF ok, of j b] i(2) by (simp add: name_at_def)
  qed
  ultimately show "abs_of ?v = a_pit (pe_name e) e (abs_of v)" by (auto simp: a_pit_def abs_of_def remove1_idem fun_eq_iff)
qed

section \<open>Adding and updating entries\<close>

lemma entry_ok_interest [simp]: "entry_ok (interest_entry env n conn x)"
  using single_hop_add [of conn] by (auto simp: entry_ok_def)

lemma entry_ok_data [simp]: "entry_ok (data_entry env n m x)"
  by (simp add: entry_ok_def)

lemma add_to_pit_refines:
  assumes r: "repr pc v" and ok: "view_ok v" and s: "saved_for n v" "cv_index v n = None"
    and x: "msgbuf_get_interest_lifetime (env_junk env) m = Some x"
  shows "\<exists>i pc' v'. pkt_cache_add_to_pit env m n pc = Some (i, pc') \<and> repr pc' v' \<and> view_ok v' \<and> held v' = held v \<and>
    cv_index v' n = Some i \<and> abs_of v' = a_pit n (interest_entry env n (mb_connection_id m) x) (abs_of v)"
proof -
  let ?e = "interest_entry env n (mb_connection_id m) x"
  obtain i pc1 e where a: "pkt_cache_allocate pc = Some (i, pc1)" "cv_entries v i = None" "repr pc1 (v\<lparr>cv_entries := (cv_entries v)(i \<mapsto> e)\<rparr>)"
    using repr_allocate [OF r] by blast
  have il: "i \<notin> set (cv_lru v)" using lru_dom [OF ok] a(2) by auto
  let ?pc2 = "entry_upd i (pe_name_update (\<lambda>_. n)) pc1" and ?v2 = "v\<lparr>cv_entries := (cv_entries v)(i \<mapsto> e\<lparr>pe_name := n\<rparr>)\<rparr>"
  have "repr ?pc2 (v\<lparr>cv_entries := (cv_entries v)(i \<mapsto> e), cv_entries := (cv_entries (v\<lparr>cv_entries := (cv_entries v)(i \<mapsto> e)\<rparr>))(i \<mapsto> e\<lparr>pe_name := n\<rparr>)\<rparr>)"
    using il by (intro repr_upd [OF a(3), of i e]) (auto simp: strip_links_def)
  then have r2: "repr ?pc2 ?v2" by simp
  obtain pc3 where pc3: "pkt_cache_fill_pit env i m ?pc2 = Some pc3" "repr pc3 (v\<lparr>cv_entries := (cv_entries v)(i \<mapsto> ?e)\<rparr>)"
    using fill_pit_refines [OF r2, of i "e\<lparr>pe_name := n\<rparr>" env m x] il x by auto
  obtain pc4 where pc4: "pkt_cache_add_to_index i pc3 = Some pc4"
    "repr pc4 (v\<lparr>cv_entries := (cv_entries v)(i \<mapsto> ?e), cv_index := (cv_index v)(n \<mapsto> i)\<rparr>)"
    using repr_add_to_index [OF pc3(2), of i ?e] s by (auto simp: saved_for_def)
  have "held (v\<lparr>cv_entries := (cv_entries v)(i \<mapsto> ?e), cv_index := (cv_index v)(n \<mapsto> i)\<rparr>) = held v"
    using held_other [OF il] by (simp add: held_def)
  then show ?thesis using a(1) pc3(1) pc4 view_add [OF ok a(2), of ?e] s(2)
    by (intro exI [of _ i] exI [of _ pc4] exI [of _ "v\<lparr>cv_entries := (cv_entries v)(i \<mapsto> ?e), cv_index := (cv_index v)(n \<mapsto> i)\<rparr>"])
       (simp add: pkt_cache_add_to_pit_def)
qed

lemma v_store_fresh:
  assumes "i \<notin> set (cv_lru v)" "\<And>e. cv_entries v (last (cv_lru v)) = Some e \<Longrightarrow> pe_name e \<noteq> n" "0 < cv_max v"
  shows "v_store i d (v\<lparr>cv_entries := (cv_entries v)(i \<mapsto> a), cv_index := (cv_index v)(n \<mapsto> i)\<rparr>) =
    (v_store i d (v\<lparr>cv_entries := (cv_entries v)(i \<mapsto> b)\<rparr>))\<lparr>cv_index := (cv_index (v_store i d (v\<lparr>cv_entries := (cv_entries v)(i \<mapsto> b)\<rparr>)))(n \<mapsto> i)\<rparr>"
proof (cases "length (cv_lru v) < cv_max v")
  case False
  then have "last (cv_lru v) \<noteq> i" using assms(1,3) last_in_set [of "cv_lru v"] by fastforce
  then show ?thesis using False assms(2)
    by (cases "cv_entries v (last (cv_lru v))"; cases v) (auto simp: v_store_def v_insert_def v_drop_def fun_upd_twist)
qed (cases v; simp add: v_store_def v_insert_def)

lemma v_store_simps: "i \<notin> set (cv_lru v) \<Longrightarrow> 0 < cv_max v \<Longrightarrow> cv_entries (v_store i d v) i = Some d"
  "cv_cached (v_store i d v) = cv_cached v" "cv_prefix (v_store i d v) = cv_prefix v"
  "cv_index v n = None \<Longrightarrow> cv_index (v_store i d v) n = None"
proof -
  assume "i \<notin> set (cv_lru v)" "0 < cv_max v"
  moreover from this have "last (cv_lru v) \<noteq> i" if "\<not> length (cv_lru v) < cv_max v" using that last_in_set [of "cv_lru v"] by fastforce
  ultimately show "cv_entries (v_store i d v) i = Some d" by (auto simp: v_store_def v_insert_def v_drop_def split: option.split)
qed (auto simp: v_store_def v_insert_def v_drop_def split: option.split)

lemma add_to_cs_refines:
  assumes r: "repr pc v" and ok: "view_ok v" and s: "saved_for n v" "cv_index v n = None" "msgbuf_get_name (pool_elts mp m) = Some n"
    and refs: "refs_ok mp (H + held v)" "m \<in># H" "size H + length (cv_lru v) + 1 < 2 ^ 32"
    and x: "msgbuf_get_data_expiry_time (env_junk env) (pool_elts mp m) = Some x"
  shows "\<exists>i pc' mp' v'. pkt_cache_add_to_cs env m pc mp = Some (i, pc', mp') \<and> repr pc' v' \<and> view_ok v' \<and>
    refs_ok mp' (H + held v') \<and> same_bufs mp mp' \<and> abs_of v' = a_cs n (data_entry env n m x) (abs_of v)"
proof -
  let ?d = "data_entry env n m x" and ?p = "interest_entry env n 0 0"
  have at: "msgbuf_pool_at mp m = Some (pool_elts mp m)" using refs_used [OF refs(1), of m] refs(2) by (simp add: msgbuf_pool_at_def)
  obtain i pc1 e where a: "pkt_cache_allocate pc = Some (i, pc1)" "cv_entries v i = None" "repr pc1 (v\<lparr>cv_entries := (cv_entries v)(i \<mapsto> e)\<rparr>)"
    using repr_allocate [OF r] by blast
  have il: "i \<notin> set (cv_lru v)" using lru_dom [OF ok] a(2) by auto
  let ?pc2 = "entry_upd i (pe_name_update (\<lambda>_. n)) pc1" and ?v2 = "v\<lparr>cv_entries := (cv_entries v)(i \<mapsto> e\<lparr>pe_name := n\<rparr>)\<rparr>"
  have "repr ?pc2 (v\<lparr>cv_entries := (cv_entries v)(i \<mapsto> e), cv_entries := (cv_entries (v\<lparr>cv_entries := (cv_entries v)(i \<mapsto> e)\<rparr>))(i \<mapsto> e\<lparr>pe_name := n\<rparr>)\<rparr>)"
    using il by (intro repr_upd [OF a(3), of i e]) (auto simp: strip_links_def)
  then have r2: "repr ?pc2 ?v2" by simp
  have h2: "held ?v2 = held v" using held_other [OF il] by (simp add: held_def)
  have cs2: "cs_view_ok ?v2" "0 < cv_max v" using view_okD(1) [OF ok] il by (auto simp: cs_view_ok_def)
  have ix2: "cv_index ?v2 (pe_name e') = Some y" if "y \<in> set (cv_lru ?v2)" "cv_entries ?v2 y = Some e'" for y e'
    using that view_okD(3) [OF ok, of y e'] il by (auto split: if_splits)
  obtain pc3 mp3 where pc3: "pkt_cache_store env i m ?pc2 mp = Some (pc3, mp3)" "repr pc3 (v_store i ?d ?v2)" "same_bufs mp mp3"
    "refs_ok mp3 (H + held (v_store i ?d ?v2))"
    using store_refines [OF r2 _ _ cs2(1) ix2 _ refs(2) _ x, of i "e\<lparr>pe_name := n\<rparr>"] il refs(1,3) h2 by auto
  let ?v4 = "(v_store i ?d ?v2)\<lparr>cv_index := (cv_index (v_store i ?d ?v2))(n \<mapsto> i)\<rparr>"
  obtain pc4 where pc4: "pkt_cache_add_to_index i pc3 = Some pc4" "repr pc4 ?v4"
    using repr_add_to_index [OF pc3(2), of i ?d] s(1,2) il cs2(2) by (auto simp: saved_for_def v_store_simps)
  have p: "view_ok (v\<lparr>cv_entries := (cv_entries v)(i \<mapsto> ?p), cv_index := (cv_index v)(n \<mapsto> i)\<rparr>)"
    "abs_of (v\<lparr>cv_entries := (cv_entries v)(i \<mapsto> ?p), cv_index := (cv_index v)(n \<mapsto> i)\<rparr>) = a_pit n ?p (abs_of v)"
    using view_add [OF ok a(2), of ?p] s(2) by simp_all
  have "pe_name e' \<noteq> n" if "cv_entries v (last (cv_lru v)) = Some e'" for e' using view_okD(3) [OF ok that] s(2) by auto
  from v_store_fresh [OF il this cs2(2), of ?d ?p "e\<lparr>pe_name := n\<rparr>"] view_store [OF p(1), of i ?p ?d] il p(2)
  have "view_ok ?v4" "abs_of ?v4 = a_cs n ?d (a_pit n ?p (abs_of v))" by simp_all
  moreover have "a_cs n ?d (a_pit n ?p (abs_of v)) = a_cs n ?d (abs_of v)"
  proof -
    have "n \<notin> set (ac_lru (abs_of v))"
    proof
      assume "n \<in> set (ac_lru (abs_of v))"
      then obtain j where "j \<in> set (cv_lru v)" "n = name_at v j" by (auto simp: abs_of_def)
      moreover from this obtain b where "cv_entries v j = Some b" using lru_dom [OF ok] by blast
      ultimately show False using view_okD(3) [OF ok, of j b] s(2) by (simp add: name_at_def)
    qed
    then show ?thesis by (simp add: a_cs_def a_pit_def remove1_idem Let_def a_del_def)
  qed
  moreover have "held ?v4 = held (v_store i ?d ?v2)" by (simp add: held_def)
  moreover have "pkt_cache_add_to_cs env m pc mp = Some (i, pc4, mp3)"
    using a(1) at s(3) pc3(1) pc4(1) by (simp add: pkt_cache_add_to_cs_def)
  ultimately show ?thesis using pc4(2) pc3(3,4) by (intro exI [of _ i] exI [of _ pc4] exI [of _ mp3] exI [of _ ?v4]) simp
qed

definition env_total :: "'w cache_env \<Rightarrow> bool" where
  "env_total env \<longleftrightarrow> (\<forall>f nh w. env_on_timeout env f nh w \<noteq> None) \<and> (\<forall>f w. env_is_local_remote env f w \<noteq> None) \<and>
     (\<forall>f nh m t t' w. env_on_data env f nh m t t' w \<noteq> None)"

lemma in_local_hops:
  assumes "nexthops_inv nh"
  shows "in_local_connection_exists env w nh = Some (list_ex (\<lambda>n. env_is_local env n w) (hops nh))"
proof -
  have f: "find (\<lambda>p. P (snd p)) (enumerate k xs) = None \<longleftrightarrow> \<not> list_ex P xs" for P and xs :: "u32 list" and k
    by (induction xs arbitrary: k) auto
  show ?thesis using assms f [of "\<lambda>n. env_is_local env n w" 0 "hops nh"]
    by (auto simp: in_local_connection_exists_def nexthops_enumerate_const nexthops_inv_def enabled_reset
        loopM_return [where g = "\<lambda>_. True"] split: option.split)
qed

lemma aggregate_refines:
  assumes r: "repr pc v" and e: "cv_entries v i = Some e" "pe_type e = PKT_CACHE_PIT_TYPE" "pe_u e = U_pit p" "entry_ok e" and il: "i \<notin> set (cv_lru v)"
    and x: "msgbuf_get_interest_lifetime (env_junk env) m = Some x" and env: "env_total env" and room: "length (hops (ingressIdSet p)) < 31"
  shows "\<exists>pc'. pkt_cache_try_aggregate_in_pit env i m pc w = Some (fst (aggregate_spec env w (mb_connection_id m) x e), pc') \<and>
    repr pc' (v\<lparr>cv_entries := (cv_entries v)(i \<mapsto> snd (aggregate_spec env w (mb_connection_id m) x e))\<rparr>)"
proof -
  let ?c = "mb_connection_id m" and ?t = "env_now env + ucast x"
  have inv: "nexthops_inv (ingressIdSet p)" using e(3,4) by (simp add: entry_ok_def)
  have at: "pkt_cache_entry_at pc i = Some e" using repr_pit_entry [OF r e(1,3)] .
  let ?pc1 = "if pe_expire_ts e < ?t then entry_upd i (pe_expire_ts_update (\<lambda>_. ?t)) pc else pc"
  let ?e1 = "e\<lparr>pe_expire_ts := max (pe_expire_ts e) ?t\<rparr>" and ?v1 = "v\<lparr>cv_entries := (cv_entries v)(i \<mapsto> e\<lparr>pe_expire_ts := max (pe_expire_ts e) ?t\<rparr>)\<rparr>"
  have r1: "repr ?pc1 ?v1"
  proof (cases "pe_expire_ts e < ?t")
    case True
    then have "repr (entry_upd i (pe_expire_ts_update (\<lambda>_. ?t)) pc) ?v1"
      using e il by (intro repr_upd_at [OF r at]) (cases e, simp_all add: strip_links_def)
    then show ?thesis using True by simp
  next
    case False
    then have "?v1 = v" using e(1) by (cases v) (auto simp: max_def fun_upd_idem)
    then show ?thesis using False r by simp
  qed
  have agg: "(if ?c \<in> set (hops (ingressIdSet p)) then Some False else aggregate_unless_local env w ?c p) =
      Some (fst (aggregate_spec env w ?c x e))"
  proof (cases "pit_fib_entry p")
    case (Some f)
    obtain b where "env_is_local_remote env f w = Some b" using env by (force simp: env_total_def)
    with Some e(3) show ?thesis by (auto simp: aggregate_spec_def aggregate_unless_local_def in_local_hops [OF inv] Let_def)
  qed (simp add: aggregate_spec_def aggregate_unless_local_def e(3) Let_def)
  show ?thesis
  proof (cases "fst (aggregate_spec env w ?c x e)")
    case False
    then have "snd (aggregate_spec env w ?c x e) = ?e1" using e(3) by (cases e) (auto simp: aggregate_spec_def Let_def)
    then show ?thesis using False r1 at e(2,3) x agg nexthops_contains_hops [OF inv, of ?c]
      by (simp add: pkt_cache_try_aggregate_in_pit_def Let_def)
  next
    case True
    have "num_elts (ingressIdSet p) < 31" using room inv length_hops by (simp add: nexthops_inv_def)
    then obtain j nh where nh: "nexthops_add (ingressIdSet p) ?c = Some (j, nh)" using nexthops_add_hops [OF inv, of ?c] by blast
    let ?e2 = "?e1\<lparr>pe_u := U_pit (p\<lparr>ingressIdSet := nh\<rparr>)\<rparr>"
    have s: "snd (aggregate_spec env w ?c x e) = ?e2" using e(3) True nh by (cases e) (auto simp: aggregate_spec_def Let_def)
    have at1: "pkt_cache_entry_at ?pc1 i = Some ?e1" using repr_pit_entry [OF r1, of i ?e1] e(3) by simp
    have "repr (entry_upd i (pe_u_update (\<lambda>_. U_pit (p\<lparr>ingressIdSet := nh\<rparr>))) ?pc1) (?v1\<lparr>cv_entries := (cv_entries ?v1)(i \<mapsto> ?e2)\<rparr>)"
      using il by (intro repr_upd_at [OF r1 at1]) (simp_all add: strip_links_def)
    then show ?thesis using True at at1 e(2,3) x agg nexthops_contains_hops [OF inv, of ?c] nh s
      by (simp add: pkt_cache_try_aggregate_in_pit_def pit_entry_ingress_add_def Let_def)
  qed
qed


section \<open>Refinement\<close>

lemma update_pit_refines:
  assumes r: "repr pc v" and e: "cv_entries v i = Some e" "pe_type e = PKT_CACHE_PIT_TYPE" "pe_u e = U_pit p" and il: "i \<notin> set (cv_lru v)"
    and x: "msgbuf_get_interest_lifetime (env_junk env) m = Some x" and env: "env_total env"
  shows "\<exists>pc'. pkt_cache_update_pit env i m pc w = Some (pc', timeout_spec env e w) \<and>
    repr pc' (v\<lparr>cv_entries := (cv_entries v)(i \<mapsto> interest_entry env (pe_name e) (mb_connection_id m) x)\<rparr>)"
proof -
  have at: "pkt_cache_entry_at pc i = Some e" using repr_pit_entry [OF r e(1,3)] .
  obtain pc' where "pkt_cache_fill_pit env i m pc = Some pc'"
    "repr pc' (v\<lparr>cv_entries := (cv_entries v)(i \<mapsto> interest_entry env (pe_name e) (mb_connection_id m) x)\<rparr>)"
    using fill_pit_refines [OF r e(1) il x] by blast
  moreover have "(case pit_fib_entry p of None \<Rightarrow> Some w | Some f \<Rightarrow> env_on_timeout env f (egressIdSet p) w) = Some (timeout_spec env e w)"
    using env e(3) by (auto simp: timeout_spec_def env_total_def split: option.split)
  ultimately show ?thesis using at e(2,3) by (simp add: pkt_cache_update_pit_def)
qed

text \<open>A pending Interest stays one.\<close>

lemma view_pit:
  assumes ok: "view_ok v" and e: "cv_entries v i = Some e0" "pe_name e = pe_name e0" "entry_ok e" "pe_type e = PKT_CACHE_PIT_TYPE"
    and il: "i \<notin> set (cv_lru v)"
  shows "view_ok (v\<lparr>cv_entries := (cv_entries v)(i \<mapsto> e)\<rparr>)"
    "abs_of (v\<lparr>cv_entries := (cv_entries v)(i \<mapsto> e)\<rparr>) = a_pit (pe_name e) e (abs_of v)"
    "held (v\<lparr>cv_entries := (cv_entries v)(i \<mapsto> e)\<rparr>) = held v"
proof -
  have "cv_num v = int (length (cv_lru v))" using view_okD(1) [OF ok] by (simp add: cs_view_ok_def)
  then have eq: "v\<lparr>cv_entries := (cv_entries v)(i \<mapsto> e)\<rparr> = v\<lparr>cv_entries := (cv_entries v)(i \<mapsto> e), cv_lru := remove1 i (cv_lru v),
      cv_num := int (length (remove1 i (cv_lru v)))\<rparr>" using il by (cases v) (simp add: remove1_idem)
  show "view_ok (v\<lparr>cv_entries := (cv_entries v)(i \<mapsto> e)\<rparr>)" by (subst eq) (rule view_to_pit(1) [OF ok e])
  show "abs_of (v\<lparr>cv_entries := (cv_entries v)(i \<mapsto> e)\<rparr>) = a_pit (pe_name e) e (abs_of v)" by (subst eq) (rule view_to_pit(2) [OF ok e])
qed (use held_other [OF il] in \<open>simp add: held_def\<close>)

lemma aggregate_spec_ok:
  assumes "entry_ok e" "pe_u e = U_pit p" "length (hops (ingressIdSet p)) < 31"
  shows "entry_ok (snd (aggregate_spec env w c x e))" "pe_type (snd (aggregate_spec env w c x e)) = PKT_CACHE_PIT_TYPE"
    "pe_name (snd (aggregate_spec env w c x e)) = pe_name e"
proof -
  have inv: "nexthops_inv (ingressIdSet p)" and t: "pe_type e = PKT_CACHE_PIT_TYPE" using assms(1,2) by (auto simp: entry_ok_def)
  have "num_elts (ingressIdSet p) < 31" using assms(3) inv length_hops by (simp add: nexthops_inv_def)
  then have "nexthops_inv (snd (the (nexthops_add (ingressIdSet p) c)))" using nexthops_add_hops [OF inv, of c] by auto
  then show "entry_ok (snd (aggregate_spec env w c x e))" using assms(1,2) by (auto simp: aggregate_spec_def entry_ok_def Let_def)
qed (use assms in \<open>simp_all add: aggregate_spec_def Let_def entry_ok_def\<close>)

lemma entry_cases:
  assumes "entry_ok e"
  obtains c where "pe_u e = U_cs c" "pe_type e = PKT_CACHE_CS_TYPE"
    | p where "pe_u e = U_pit p" "pe_type e = PKT_CACHE_PIT_TYPE"
  using assms by (auto simp: entry_ok_def split: entry_u.splits)

lemma num_pos:
  assumes "view_ok v" "i \<in> set (cv_lru v)"
  shows "0 < cv_num v" "cv_num v < 2 ^ 31"
  using view_okD(1) [OF assms(1)] length_pos_if_in_set [OF assms(2)] by (auto simp: cs_view_ok_def)

lemma int_length_remove1: "i \<in> set xs \<Longrightarrow> int (length (remove1 i xs)) = int (length xs) - 1"
  by (cases "length xs") (auto simp: length_remove1)

lemma cs_to_pit_view:
  assumes ok: "view_ok v" and e: "cv_entries v i = Some e0" "pe_name e = pe_name e0" "entry_ok e" "pe_type e = PKT_CACHE_PIT_TYPE"
    and i: "i \<in> set (cv_lru v)"
  shows "view_ok (v_to_pit i e v)" "abs_of (v_to_pit i e v) = a_pit (pe_name e) e (abs_of v)"
proof -
  have n: "cv_num v - 1 = int (length (remove1 i (cv_lru v)))" using view_okD(1) [OF ok] int_length_remove1 [OF i]
    by (simp add: cs_view_ok_def)
  show "view_ok (v_to_pit i e v)" "abs_of (v_to_pit i e v) = a_pit (pe_name e) e (abs_of v)"
    unfolding v_to_pit_def n using view_to_pit [OF ok e] by simp_all
qed

lemma cs_drop_view:
  assumes ok: "view_ok v" and e: "cv_entries v i = Some e" and i: "i \<in> set (cv_lru v)"
  shows "view_ok (v_drop i v)" "abs_of (v_drop i v) = a_del (pe_name e) (abs_of v)"
proof -
  have n: "cv_num v - 1 = int (length (remove1 i (cv_lru v)))" using view_okD(1) [OF ok] int_length_remove1 [OF i]
    by (simp add: cs_view_ok_def)
  show "view_ok (v_drop i v)" "abs_of (v_drop i v) = a_del (pe_name e) (abs_of v)"
    unfolding v_drop_def n using view_del [OF ok e] e by simp_all
qed

lemma pit_drop_view:
  assumes ok: "view_ok v" and e: "cv_entries v i = Some e" and il: "i \<notin> set (cv_lru v)"
  shows "view_ok (v\<lparr>cv_entries := (cv_entries v)(i := None), cv_index := (cv_index v)(pe_name e := None)\<rparr>)" (is "view_ok ?v")
    "abs_of (v\<lparr>cv_entries := (cv_entries v)(i := None), cv_index := (cv_index v)(pe_name e := None)\<rparr>) = a_del (pe_name e) (abs_of v)"
    "held (v\<lparr>cv_entries := (cv_entries v)(i := None), cv_index := (cv_index v)(pe_name e := None)\<rparr>) = held v"
proof -
  have "cv_num v = int (length (cv_lru v))" using view_okD(1) [OF ok] by (simp add: cs_view_ok_def)
  then have eq: "?v = v\<lparr>cv_entries := (cv_entries v)(i := None), cv_index := (cv_index v)(pe_name e := None), cv_lru := remove1 i (cv_lru v),
      cv_num := int (length (remove1 i (cv_lru v)))\<rparr>" using il by (cases v) (simp add: remove1_idem)
  show "view_ok ?v" by (subst eq) (rule view_del(1) [OF ok e])
  show "abs_of ?v = a_del (pe_name e) (abs_of v)" by (subst eq) (rule view_del(2) [OF ok e])
qed (use held_other [OF il] in \<open>simp add: held_def\<close>)


definition saved_prefix :: "hicn_name \<Rightarrow> pkt_cache \<Rightarrow> bool" where
  "saved_prefix n pc \<longleftrightarrow> pc_cached_suffixes pc = None \<or> pc_cached_prefix pc = name_prefix n"

lemma saved_repr: "repr pc v \<Longrightarrow> saved_prefix n pc \<longleftrightarrow> saved_for n v"
  by (simp add: saved_prefix_def saved_for_def repr_def)

text \<open>The ingress sets have room for one more connection.\<close>

definition ingress_room :: "hicn_name \<Rightarrow> acache \<Rightarrow> bool" where
  "ingress_room n A \<longleftrightarrow> (case ac_map A n of Some e \<Rightarrow> (case pe_u e of U_pit p \<Rightarrow> length (hops (ingressIdSet p)) < 31 | U_cs _ \<Rightarrow> True) | None \<Rightarrow> True)"

lemma cache_okI: "repr pc v \<Longrightarrow> view_ok v \<Longrightarrow> refs_ok mp (H + held v) \<Longrightarrow> A = abs_of v \<Longrightarrow> cache_ok pc mp H A"
  by (auto simp: cache_ok_def)

lemma index_of_stats [simp]: "index_of (stats_upd f pc) = index_of pc"
  by (simp add: index_of_def [abs_def] stats_upd_def)

lemma repr_index_of: "repr pc v \<Longrightarrow> index_of pc = cv_index v"
  by (simp add: repr_def)

lemma on_interest_cs:
  assumes r: "repr pc v" and v: "view_ok v" and refs: "refs_ok mp (H + held v)" and at: "msgbuf_pool_at mp m_id = Some m"
    and m: "msgbuf_get_type m = HICN_PACKET_TYPE_INTEREST" and x: "msgbuf_get_interest_lifetime (env_junk env) m = Some x"
    and lu: "pkt_cache_lookup (env_now env) n pc = Some (lookup_result (env_now env) e, Some i)"
    and e: "cv_entries v i = Some e" "pe_name e = n" "pe_type e = PKT_CACHE_CS_TYPE" "pe_u e = U_cs c"
    and spec: "interest_spec env (mb_connection_id m) x n serve d (abs_of v) w = (verdict, d', A', w')"
  shows "\<exists>pc' mp'. pkt_cache_on_interest env m_id n serve d pc mp w = Some (verdict, Some i, d', pc', mp', w') \<and>
    cache_ok pc' mp' H A' \<and> same_bufs mp mp' \<and> index_of pc' n = Some i"
proof -
  have A: "ac_map (abs_of v) n = Some e" using abs_lookup_name [OF v e(1)] e(2) by simp
  have i: "i \<in> set (cv_lru v)" using view_okD(5) [OF v e(1)] e(3) by simp
  have ix: "cv_index v n = Some i" using view_okD(3) [OF v e(1)] e(2) by simp
  show ?thesis
  proof (cases "serve \<and> \<not> is_expired (env_now env) e")
    case True
    obtain e' c' where "pkt_cache_entry_at pc i = Some e'" "pe_u e' = U_cs c'" "ce_msgbuf_id c' = ce_msgbuf_id c"
      using repr_cs_entry [OF r e(1,4)] by blast
    moreover have "cache_ok (cs_hit pc) mp H (abs_of v)" using r v refs by (intro cache_okI [of _ v]) (simp_all add: cs_hit_def)
    moreover have "index_of (cs_hit pc) n = Some i" using ix r by (simp add: cs_hit_def repr_index_of)
    ultimately show ?thesis using True at m lu e A spec
      by (simp add: pkt_cache_on_interest_def interest_spec_def lookup_result_def cs_entry_of_def)
  next
    case False
    let ?e = "interest_entry env n (mb_connection_id m) x"
    obtain pc' mp' where pc': "pkt_cache_cs_to_pit env i m pc mp = Some (pc', mp')" "repr pc' (v_to_pit i ?e v)" "same_bufs mp mp'"
      "refs_ok mp' (H + held (v_to_pit i ?e v))"
      using cs_to_pit_refines [OF r e(1,3,4) i num_pos [OF v i] refs x] e(2) by auto
    moreover have "cache_ok (cs_miss pc') mp' H (a_pit n ?e (abs_of v))"
      using pc' cs_to_pit_view [OF v e(1), of ?e] i e(2) by (intro cache_okI [of _ "v_to_pit i ?e v"]) (simp_all add: cs_miss_def)
    moreover have "index_of (cs_miss pc') n = Some i" using ix pc'(2) by (simp add: cs_miss_def repr_index_of v_to_pit_def)
    ultimately show ?thesis using False at m lu e A spec
      by (auto simp: pkt_cache_on_interest_def interest_spec_def lookup_result_def)
  qed
qed

lemma on_interest_pit:
  assumes r: "repr pc v" and v: "view_ok v" and refs: "refs_ok mp (H + held v)" and at: "msgbuf_pool_at mp m_id = Some m"
    and m: "msgbuf_get_type m = HICN_PACKET_TYPE_INTEREST" and x: "msgbuf_get_interest_lifetime (env_junk env) m = Some x"
    and lu: "pkt_cache_lookup (env_now env) n pc = Some (lookup_result (env_now env) e, Some i)"
    and e: "cv_entries v i = Some e" "pe_name e = n" "pe_type e = PKT_CACHE_PIT_TYPE" "pe_u e = U_pit p"
    and env: "env_total env" and room: "length (hops (ingressIdSet p)) < 31"
    and spec: "interest_spec env (mb_connection_id m) x n serve d (abs_of v) w = (verdict, d', A', w')"
  shows "\<exists>pc' mp'. pkt_cache_on_interest env m_id n serve d pc mp w = Some (verdict, Some i, d', pc', mp', w') \<and>
    cache_ok pc' mp' H A' \<and> same_bufs mp mp' \<and> index_of pc' n = Some i"
proof -
  have A: "ac_map (abs_of v) n = Some e" using abs_lookup_name [OF v e(1)] e(2) by simp
  have il: "i \<notin> set (cv_lru v)" using view_okD(5) [OF v e(1)] e(3) by simp
  have ix: "cv_index v n = Some i" using view_okD(3) [OF v e(1)] e(2) by simp
  show ?thesis
  proof (cases "is_expired (env_now env) e")
    case True
    let ?e = "interest_entry env n (mb_connection_id m) x" and ?v = "v\<lparr>cv_entries := (cv_entries v)(i \<mapsto> interest_entry env n (mb_connection_id m) x)\<rparr>"
    obtain pc' where pc': "pkt_cache_update_pit env i m pc w = Some (pc', timeout_spec env e w)" "repr pc' ?v"
      using update_pit_refines [OF r e(1,3,4) il x env] e(2) by auto
    moreover have "cache_ok (cs_miss pc') mp H (a_pit n ?e (abs_of v))"
      using pc' refs view_pit [OF v e(1), of ?e] il e(2) by (intro cache_okI [of _ ?v]) (simp_all add: cs_miss_def)
    moreover have "index_of (cs_miss pc') n = Some i" using ix pc'(2) by (simp add: cs_miss_def repr_index_of)
    ultimately show ?thesis using True at m lu e A spec
      by (auto simp: pkt_cache_on_interest_def interest_spec_def lookup_result_def)
  next
    case False
    let ?s = "aggregate_spec env w (mb_connection_id m) x e" and ?v = "v\<lparr>cv_entries := (cv_entries v)(i \<mapsto> snd (aggregate_spec env w (mb_connection_id m) x e))\<rparr>"
    have eo: "entry_ok e" using view_okD(4) [OF v e(1)] .
    obtain pc' where pc': "pkt_cache_try_aggregate_in_pit env i m pc w = Some (fst ?s, pc')" "repr pc' ?v"
      using aggregate_refines [OF r e(1,3,4) eo il x env room] by blast
    moreover have "cache_ok (cs_miss pc') mp H (a_pit n (snd ?s) (abs_of v))"
      using pc' refs view_pit [OF v e(1), of "snd ?s"] aggregate_spec_ok [OF eo e(4) room, of env w "mb_connection_id m" x] il e(2)
      by (intro cache_okI [of _ ?v]) (simp_all add: cs_miss_def)
    moreover have "index_of (cs_miss pc') n = Some i" using ix pc'(2) by (simp add: cs_miss_def repr_index_of)
    ultimately show ?thesis using False at m lu e A spec
      by (auto simp: pkt_cache_on_interest_def interest_spec_def lookup_result_def split_beta)
  qed
qed

lemma on_interest_refines:
  assumes ok: "cache_ok pc mp H A" and m: "m_id \<in># H" "msgbuf_get_type (pool_elts mp m_id) = HICN_PACKET_TYPE_INTEREST"
    and x: "msgbuf_get_interest_lifetime (env_junk env) (pool_elts mp m_id) = Some x"
    and s: "saved_prefix n pc" and env: "env_total env" and room: "ingress_room n A"
    and spec: "interest_spec env (mb_connection_id (pool_elts mp m_id)) x n serve d A w = (verdict, d', A', w')"
  shows "\<exists>i pc' mp'. pkt_cache_on_interest env m_id n serve d pc mp w = Some (verdict, Some i, d', pc', mp', w') \<and>
    cache_ok pc' mp' H A' \<and> same_bufs mp mp' \<and> index_of pc' n = Some i"
proof -
  obtain v where r: "repr pc v" and v: "view_ok v" and refs: "refs_ok mp (H + held v)" and A: "A = abs_of v"
    using ok by (auto simp: cache_ok_def)
  let ?m = "pool_elts mp m_id"
  have sv: "saved_for n v" using s saved_repr [OF r] by blast
  have at: "msgbuf_pool_at mp m_id = Some ?m" using refs_used [OF refs, of m_id] m(1) by (simp add: msgbuf_pool_at_def)
  have lu: "pkt_cache_lookup (env_now env) n pc = Some (case cv_index v n of None \<Rightarrow> (PKT_CACHE_LU_NONE, None)
    | Some i \<Rightarrow> (lookup_result (env_now env) (the (cv_entries v i)), Some i))"
    using lookup_refines [OF r sv] view_okD(2) [OF v] by blast
  show ?thesis
  proof (cases "cv_index v n")
    case None
    obtain i pc' v' where "pkt_cache_add_to_pit env ?m n pc = Some (i, pc')" "repr pc' v'" "view_ok v'" "held v' = held v"
      "cv_index v' n = Some i" "abs_of v' = a_pit n (interest_entry env n (mb_connection_id ?m) x) (abs_of v)"
      using add_to_pit_refines [OF r v sv None x] by blast
    then show ?thesis using at m(2) lu None spec refs A abs_lookup(2) [OF None] cache_okI [of "cs_miss pc'" v' mp H A']
      by (auto simp: pkt_cache_on_interest_def interest_spec_def cs_miss_def repr_index_of)
  next
    case (Some i)
    then obtain e where e: "cv_entries v i = Some e" "pe_name e = n" using view_okD(2) [OF v] by blast
    have lu': "pkt_cache_lookup (env_now env) n pc = Some (lookup_result (env_now env) e, Some i)" using lu Some e by simp
    from view_okD(4) [OF v e(1)] show ?thesis
    proof (cases rule: entry_cases)
      case (1 c)
      then show ?thesis using on_interest_cs [OF r v refs at m(2) x lu' e] spec A by blast
    next
      case (2 p)
      moreover have "length (hops (ingressIdSet p)) < 31" using room A abs_lookup_name [OF v e(1)] e(2) 2(1) by (simp add: ingress_room_def)
      ultimately show ?thesis using on_interest_pit [OF r v refs at m(2) x lu' e] spec A env by blast
    qed
  qed
qed

lemma on_data_cs:
  assumes r: "repr pc v" and v: "view_ok v" and refs: "refs_ok mp (H + held v)" "m_id \<in># H" "size H + length (cv_lru v) + 1 < 2 ^ 32"
    and at: "msgbuf_pool_at mp m_id = Some m" "m = pool_elts mp m_id"
    and m: "msgbuf_get_type m = HICN_PACKET_TYPE_DATA" "msgbuf_get_name m = Some n" and x: "msgbuf_get_data_expiry_time (env_junk env) m = Some x"
    and lu: "pkt_cache_lookup (env_now env) n pc = Some (lookup_result (env_now env) e, Some i)"
    and e: "cv_entries v i = Some e" "pe_name e = n" "pe_type e = PKT_CACHE_CS_TYPE" "pe_u e = U_cs c"
    and spec: "data_spec env m m_id x n keep loc verdict0 (abs_of v) w = (nh, wrong, verdict, A', w')"
  shows "\<exists>pc' mp'. pkt_cache_on_data env m_id keep loc verdict0 pc mp w = Some (nh, wrong, verdict, pc', mp', w') \<and>
    cache_ok pc' mp' H A' \<and> same_bufs mp mp'"
proof -
  let ?d = "data_entry env n m_id x"
  have A: "ac_map (abs_of v) n = Some e" using abs_lookup_name [OF v e(1)] e(2) by simp
  have i: "i \<in> set (cv_lru v)" using view_okD(5) [OF v e(1)] e(3) by simp
  note st = at(1) m lu e A spec
  consider "keep \<and> loc" | "\<not> (keep \<and> loc)" "is_expired (env_now env) e" | "\<not> (keep \<and> loc)" "\<not> is_expired (env_now env) e" by blast
  then show ?thesis
  proof cases
    case 1
    obtain pc' mp' where pc': "pkt_cache_update_cs env i m_id pc mp = Some (pc', mp')" "repr pc' (v_refresh i ?d v)" "same_bufs mp mp'"
      "refs_ok mp' (H + held (v_refresh i ?d v))"
      using update_cs_refines [OF r e(1,3,4) i view_okD(1) [OF v] refs] x at(2) e(2) by blast
    moreover have "cache_ok pc' mp' H (a_cs n ?d (abs_of v))"
      using pc' view_refresh [OF v e(1), of ?d] i e(2) by (intro cache_okI [of _ "v_refresh i ?d v"]) simp_all
    ultimately show ?thesis using 1 st by (auto simp: pkt_cache_on_data_def data_spec_def lookup_result_def)
  next
    case 2
    have h: "ce_msgbuf_id c \<in># H + held v" using held_mem [OF i e(1,4)] by simp
    obtain pc' mp' where pc': "pkt_cache_cs_remove_entry i False pc mp = Some (pc', mp')" "repr pc' (v_drop i v)" "same_bufs mp mp'"
      "refs_ok mp' (H + held v - {#ce_msgbuf_id c#})"
      using cs_remove_refines [OF r e(1,3,4) view_okD(3) [OF v e(1)], of False mp "H + held v"] i num_pos [OF v i] refs(1) h by auto
    moreover have "H + held v - {#ce_msgbuf_id c#} = H + held (v_drop i v)"
      using held_drop [OF view_okD(6) [OF v] i e(1)] held_mem [OF i e(1,4)] cs_msgbuf_cs [of "cv_entries v", OF e(1,4)] by simp
    ultimately have "cache_ok pc' mp' H (a_del n (abs_of v))"
      using pc' cs_drop_view [OF v e(1) i] e(2) by (intro cache_okI [of _ "v_drop i v"]) simp_all
    then show ?thesis using 2 st pc'(1,3) by (auto simp: pkt_cache_on_data_def data_spec_def lookup_result_def)
  next
    case 3
    moreover have "cache_ok pc mp H (abs_of v)" using r v refs by (intro cache_okI [of _ v]) simp_all
    ultimately show ?thesis using st by (auto simp: pkt_cache_on_data_def data_spec_def lookup_result_def)
  qed
qed

text \<open>A Data packet takes the place of the pending Interest, or removes it.\<close>

lemma pit_to_cs_ok:
  assumes r: "repr pc v" and v: "view_ok v" and refs: "refs_ok mp (H + held v)" "m_id \<in># H" "size H + length (cv_lru v) + 1 < 2 ^ 32"
    and x: "msgbuf_get_data_expiry_time (env_junk env) (pool_elts mp m_id) = Some x"
    and e: "cv_entries v i = Some e" "pe_name e = n" "pe_type e = PKT_CACHE_PIT_TYPE" "pe_u e = U_pit p"
  shows "\<exists>pc' mp'. pkt_cache_pit_to_cs env i m_id pc mp = Some (pc', mp') \<and> same_bufs mp mp' \<and>
    cache_ok pc' mp' H (a_cs n (data_entry env n m_id x) (abs_of v))"
proof -
  let ?d = "data_entry env n m_id x"
  have il: "i \<notin> set (cv_lru v)" using view_okD(5) [OF v e(1)] e(3) by simp
  obtain pc' mp' where pc': "pkt_cache_store env i m_id pc mp = Some (pc', mp')" "repr pc' (v_store i ?d v)" "same_bufs mp mp'"
    "refs_ok mp' (H + held (v_store i ?d v))"
    using store_refines [OF r e(1) il view_okD(1) [OF v] view_okD(3) [OF v] refs x] e(2) by auto
  then have "cache_ok pc' mp' H (a_cs n ?d (abs_of v))"
    using view_store [OF v e(1), of ?d] il e(2) by (intro cache_okI [of _ "v_store i ?d v"]) simp_all
  then show ?thesis using pc' repr_pit_entry [OF r e(1,4)] e(3) by (simp add: pkt_cache_pit_to_cs_def)
qed

lemma pit_remove_ok:
  assumes r: "repr pc v" and v: "view_ok v" and refs: "refs_ok mp (H + held v)"
    and e: "cv_entries v i = Some e" "pe_name e = n" "pe_type e = PKT_CACHE_PIT_TYPE"
  shows "\<exists>pc'. pkt_cache_pit_remove_entry i pc = Some pc' \<and> cache_ok pc' mp H (a_del n (abs_of v))"
proof -
  have il: "i \<notin> set (cv_lru v)" using view_okD(5) [OF v e(1)] e(3) by simp
  let ?v = "v\<lparr>cv_entries := (cv_entries v)(i := None), cv_index := (cv_index v)(pe_name e := None)\<rparr>"
  obtain pc' where pc': "pkt_cache_pit_remove_entry i pc = Some pc'" "repr pc' ?v"
    using pit_remove_refines [OF r e(1,3) view_okD(3) [OF v e(1)] il] by blast
  then have "cache_ok pc' mp H (a_del n (abs_of v))"
    using pit_drop_view [OF v e(1) il] refs e(2) by (intro cache_okI [of _ ?v]) simp_all
  then show ?thesis using pc' by blast
qed

lemma on_data_pit:
  assumes r: "repr pc v" and v: "view_ok v" and refs: "refs_ok mp (H + held v)" "m_id \<in># H" "size H + length (cv_lru v) + 1 < 2 ^ 32"
    and at: "msgbuf_pool_at mp m_id = Some m" "m = pool_elts mp m_id"
    and m: "msgbuf_get_type m = HICN_PACKET_TYPE_DATA" "msgbuf_get_name m = Some n" and x: "msgbuf_get_data_expiry_time (env_junk env) m = Some x"
    and lu: "pkt_cache_lookup (env_now env) n pc = Some (lookup_result (env_now env) e, Some i)"
    and e: "cv_entries v i = Some e" "pe_name e = n" "pe_type e = PKT_CACHE_PIT_TYPE" "pe_u e = U_pit p" and env: "env_total env"
    and spec: "data_spec env m m_id x n keep loc verdict0 (abs_of v) w = (nh, wrong, verdict, A', w')"
  shows "\<exists>pc' mp'. pkt_cache_on_data env m_id keep loc verdict0 pc mp w = Some (nh, wrong, verdict, pc', mp', w') \<and>
    cache_ok pc' mp' H A' \<and> same_bufs mp mp'"
proof -
  have A: "ac_map (abs_of v) n = Some e" using abs_lookup_name [OF v e(1)] e(2) by simp
  obtain pc1 mp1 where st1: "pkt_cache_pit_to_cs env i m_id pc mp = Some (pc1, mp1)" "same_bufs mp mp1"
    "cache_ok pc1 mp1 H (a_cs n (data_entry env n m_id x) (abs_of v))"
    using pit_to_cs_ok [OF r v refs] x at(2) e by blast
  obtain pc2 where st2: "pkt_cache_pit_remove_entry i pc = Some pc2" "cache_ok pc2 mp H (a_del n (abs_of v))"
    using pit_remove_ok [OF r v refs(1) e(1-3)] by blast
  have st3: "cache_ok pc mp H (abs_of v)" using r v refs by (intro cache_okI [of _ v]) simp_all
  have eo: "nexthops_inv (egressIdSet p)" using view_okD(4) [OF v e(1)] e(4) by (simp add: entry_ok_def)
  note st = at(1) m lu e A spec repr_pit_entry [OF r e(1,4)] st1 st2 st3
  show ?thesis
  proof (cases "is_expired (env_now env) e")
    case True
    then show ?thesis using st
      by (cases "keep \<and> loc") (auto simp: pkt_cache_on_data_def data_spec_def lookup_result_def)
  next
    case False
    have "(case pit_fib_entry p of None \<Rightarrow> Some w | Some f \<Rightarrow> env_on_data env f (egressIdSet p) m (pe_create_ts e) (env_now env) w) =
      Some (case pit_fib_entry p of None \<Rightarrow> w | Some f \<Rightarrow> the (env_on_data env f (egressIdSet p) m (pe_create_ts e) (env_now env) w))"
      using env by (auto simp: env_total_def split: option.split)
    with False st nexthops_contains_hops [OF eo, of "mb_connection_id m"] show ?thesis
      by (cases "mb_connection_id m \<in> set (hops (egressIdSet p))"; cases keep)
         (auto simp: pkt_cache_on_data_def data_spec_def lookup_result_def)
  qed
qed

lemma on_data_refines:
  assumes ok: "cache_ok pc mp H A" and m: "m_id \<in># H" "msgbuf_get_type (pool_elts mp m_id) = HICN_PACKET_TYPE_DATA"
    "n = mb_name (pool_elts mp m_id)" and x: "msgbuf_get_data_expiry_time (env_junk env) (pool_elts mp m_id) = Some x"
    and s: "saved_prefix n pc" and env: "env_total env" and size: "size H + length (ac_lru A) + 1 < 2 ^ 32"
    and spec: "data_spec env (pool_elts mp m_id) m_id x n keep loc verdict0 A w = (nh, wrong, verdict, A', w')"
  shows "\<exists>pc' mp'. pkt_cache_on_data env m_id keep loc verdict0 pc mp w = Some (nh, wrong, verdict, pc', mp', w') \<and>
    cache_ok pc' mp' H A' \<and> same_bufs mp mp'"
proof -
  obtain v where r: "repr pc v" and v: "view_ok v" and refs: "refs_ok mp (H + held v)" and A: "A = abs_of v"
    using ok by (auto simp: cache_ok_def)
  let ?m = "pool_elts mp m_id"
  have sv: "saved_for n v" using s saved_repr [OF r] by blast
  have at: "msgbuf_pool_at mp m_id = Some ?m" using refs_used [OF refs, of m_id] m(1) by (simp add: msgbuf_pool_at_def)
  have nm: "msgbuf_get_name ?m = Some n" using m by (simp add: msgbuf_get_name_def is_interest_or_data_def)
  have sz: "size H + length (cv_lru v) + 1 < 2 ^ 32" using size A by simp
  have lu: "pkt_cache_lookup (env_now env) n pc = Some (case cv_index v n of None \<Rightarrow> (PKT_CACHE_LU_NONE, None)
    | Some i \<Rightarrow> (lookup_result (env_now env) (the (cv_entries v i)), Some i))"
    using lookup_refines [OF r sv] view_okD(2) [OF v] by blast
  show ?thesis
  proof (cases "cv_index v n")
    case None
    obtain i pc' mp' v' where add: "pkt_cache_add_to_cs env m_id pc mp = Some (i, pc', mp')" "repr pc' v'" "view_ok v'"
      "refs_ok mp' (H + held v')" "same_bufs mp mp'" "abs_of v' = a_cs n (data_entry env n m_id x) (abs_of v)"
      using add_to_cs_refines [OF r v sv None nm refs m(1) sz x] by blast
    show ?thesis
    proof (cases "keep \<and> loc")
      case True
      then show ?thesis using add at m(2) lu None spec nm A abs_lookup(2) [OF None] cache_okI [OF add(2-4), of A']
        by (auto simp: pkt_cache_on_data_def data_spec_def)
    next
      case False
      then show ?thesis using ok at m(2) lu None spec nm A abs_lookup(2) [OF None]
        by (auto simp: pkt_cache_on_data_def data_spec_def)
    qed
  next
    case (Some i)
    then obtain e where e: "cv_entries v i = Some e" "pe_name e = n" using view_okD(2) [OF v] by blast
    have lu': "pkt_cache_lookup (env_now env) n pc = Some (lookup_result (env_now env) e, Some i)" using lu Some e by simp
    from view_okD(4) [OF v e(1)] show ?thesis
    proof (cases rule: entry_cases)
      case (1 c)
      then show ?thesis using on_data_cs [OF r v refs m(1) sz at refl m(2) nm x lu' e] spec A by blast
    next
      case (2 p)
      then show ?thesis using on_data_pit [OF r v refs m(1) sz at refl m(2) nm x lu' e] spec A env by blast
    qed
  qed
qed

section \<open>Reachable caches\<close>

lemma cache_okE:
  assumes "cache_ok pc mp H A"
  obtains v where "repr pc v" "view_ok v" "refs_ok mp (H + held v)" "A = abs_of v"
  using assms by (auto simp: cache_ok_def)

lemma cache_ok_save: "cache_ok pc mp H A \<Longrightarrow> cache_ok (pkt_cache_save_suffixes_for_prefix p pc) mp H A"
proof (elim cache_okE)
  fix v assume v: "repr pc v" "view_ok v" "refs_ok mp (H + held v)" "A = abs_of v"
  let ?v = "if cv_prefix v = p then v else v\<lparr>cv_prefix := p, cv_cached := Some p\<rparr>"
  have "view_ok ?v" "held ?v = held v" "abs_of ?v = abs_of v"
    using v(2) by (auto simp: view_ok_def cs_view_ok_def held_def abs_of_def name_at_def [abs_def])
  then show "cache_ok (pkt_cache_save_suffixes_for_prefix p pc) mp H A" using repr_save [OF v(1), of p] v(3,4) by (intro cache_okI [of _ ?v]) auto
qed

lemma saved_prefix_save: "saved_prefix n (pkt_cache_save_suffixes_for_prefix (name_prefix n) pc)"
  by (auto simp: saved_prefix_def pkt_cache_save_suffixes_for_prefix_def get_suffixes_def split: option.split)

lemma create_ok:
  assumes "pkt_cache_create jcs zero junk size' = Some (Some pc)" "size' < 2 ^ 31 - 1" "refs_ok mp H"
  shows "cache_ok pc mp H \<lparr>ac_map = Map.empty, ac_lru = [], ac_max = (if size' = 0 then DEFAULT_CS_SIZE else size')\<rparr>"
proof -
  let ?c = "(cs_lru_initialize (jcs\<lparr>cs_kind := CS_TYPE_LRU, cs_num_entries := 0,
          cs_max_size := (if size' = 0 then DEFAULT_CS_SIZE else size')\<rparr>))\<lparr>cs_stats := zero_stats\<rparr>"
  obtain ents where "pool_init zero junk DEFAULT_PKT_CACHE_SIZE 0 = Some (Some ents)"
    and pc: "pc = \<lparr>pc_pit_max_size = 0, pc_cs = ?c, pc_entries = ents, pc_index = Map.empty,
            pc_cached_prefix = IP_ADDRESS_EMPTY, pc_cached_suffixes = None\<rparr>"
    using assms(1) by (auto simp: pkt_cache_create_def cs_create_def bind_eq_Some_conv)
  then have ents: "pool_inv ents" "pool_used ents = {}" using pool_init_inv' [of DEFAULT_PKT_CACHE_SIZE zero junk ents]
    by (simp_all add: DEFAULT_PKT_CACHE_SIZE_def)
  let ?v = "\<lparr>cv_entries = Map.empty, cv_index = Map.empty, cv_lru = [], cv_num = 0,
    cv_max = (if size' = 0 then DEFAULT_CS_SIZE else size'), cv_prefix = IP_ADDRESS_EMPTY, cv_cached = None\<rparr>"
  have "repr pc ?v" using ents pc
    by (auto simp: repr_def entries_of_def index_of_def lru_list_def cs_lru_initialize_def fun_eq_iff)
  moreover have "view_ok ?v" using assms(2) by (auto simp: view_ok_def cs_view_ok_def DEFAULT_CS_SIZE_def)
  ultimately show ?thesis using assms(3) by (intro cache_okI [of _ ?v]) (auto simp: held_def abs_of_def)
qed

lemma refs_fill:
  assumes "refs_ok mp H" "mb_refs m = mb_refs (pool_elts mp i)"
  shows "refs_ok (pool_upd mp i (\<lambda>_. m)) H"
  using assms by (auto simp: refs_ok_def)

text \<open>The egress set and the FIB entry of a pending Interest are set by the forwarder.\<close>

definition pit_entry_set_route :: "nat \<Rightarrow> nexthops \<Rightarrow> nat option \<Rightarrow> pkt_cache \<Rightarrow> pkt_cache" where
  "pit_entry_set_route i nh f = entry_upd i (pe_u_update (\<lambda>u. case u of
     U_pit p \<Rightarrow> U_pit (p\<lparr>egressIdSet := nh, pit_fib_entry := f\<rparr>) | U_cs c \<Rightarrow> U_cs c))"

lemma set_route_ok:
  assumes ok: "cache_ok pc mp H A" and e: "pkt_cache_entry_at pc i = Some e" "i \<in> pool_used (pc_entries pc)" "pe_u e = U_pit p" and nh: "nexthops_inv nh"
  shows "cache_ok (pit_entry_set_route i nh f pc) mp H
    (a_pit (pe_name e) (e\<lparr>pe_u := U_pit (p\<lparr>egressIdSet := nh, pit_fib_entry := f\<rparr>)\<rparr>) A)"
proof -
  obtain v where v: "repr pc v" "view_ok v" "refs_ok mp (H + held v)" "A = abs_of v" using ok by (rule cache_okE)
  obtain e0 where e0: "cv_entries v i = Some e0" using repr_used [OF v(1)] e(2) by blast
  have "e0 = e" using repr_at [OF v(1) e0] e(1,3) by (auto simp: strip_links_def)
  then have ve: "cv_entries v i = Some e" using e0 by simp
  have eo: "entry_ok e" using view_okD(4) [OF v(2) ve] .
  let ?e = "e\<lparr>pe_u := U_pit (p\<lparr>egressIdSet := nh, pit_fib_entry := f\<rparr>)\<rparr>" and ?v = "v\<lparr>cv_entries := (cv_entries v)(i \<mapsto> e\<lparr>pe_u := U_pit (p\<lparr>egressIdSet := nh, pit_fib_entry := f\<rparr>)\<rparr>)\<rparr>"
  have t: "pe_type e = PKT_CACHE_PIT_TYPE" "entry_ok ?e" using eo e(3) nh by (auto simp: entry_ok_def)
  have il: "i \<notin> set (cv_lru v)" using view_okD(5) [OF v(2) ve] t by simp
  have "repr (pit_entry_set_route i nh f pc) ?v" unfolding pit_entry_set_route_def
    using ve il e(3) by (intro repr_upd_at [OF v(1) e(1)]) (simp_all add: strip_links_def)
  then show ?thesis using view_pit [OF v(2) ve, of ?e] t il v(3,4) by (intro cache_okI [of _ ?v]) simp_all
qed

definition cache_room :: "pkt_cache \<Rightarrow> bool" where
  "cache_room pc \<longleftrightarrow> (\<forall>i \<in> pool_used (pc_entries pc). case pe_u (pool_elts (pc_entries pc) i) of
     U_pit p \<Rightarrow> length (hops (ingressIdSet p)) < 31 | U_cs _ \<Rightarrow> True)"

lemma cache_room_ingress:
  assumes "cache_ok pc mp H A" "cache_room pc"
  shows "ingress_room n A"
proof -
  obtain v where v: "repr pc v" "view_ok v" "A = abs_of v" using assms(1) by (rule cache_okE)
  have "length (hops (ingressIdSet p)) < 31" if n: "ac_map A n = Some e" "pe_u e = U_pit p" for e p
  proof -
    obtain i where e: "cv_entries v i = Some e" using n v(3) by (auto simp: abs_of_def bind_eq_Some_conv)
    then have "pkt_cache_entry_at pc i = Some e" "i \<in> pool_used (pc_entries pc)"
      using repr_pit_entry [OF v(1) e n(2)] repr_used [OF v(1)] by auto
    then show ?thesis using assms(2) n(2) by (force simp: cache_room_def pkt_cache_entry_at_def)
  qed
  then show ?thesis by (auto simp: ingress_room_def split: option.split entry_u.split)
qed

text \<open>The caches that packets lead to. Between the packets the forwarder may resize the content store
  to a positive size, and take, fill, acquire and release buffers of its own; it does not clear the
  store.\<close>

inductive cache_reach :: "pkt_cache \<Rightarrow> msgbuf_pool \<Rightarrow> nat multiset \<Rightarrow> 'w \<Rightarrow> bool" where
  create: "pkt_cache_create jcs zero junk size' = Some (Some pc) \<Longrightarrow> size' < 2 ^ 31 - 1 \<Longrightarrow> refs_ok mp H \<Longrightarrow> cache_reach pc mp H w"
| interest: "cache_reach pc mp H w \<Longrightarrow> m_id \<in># H \<Longrightarrow> msgbuf_get_interest_lifetime (env_junk env) (pool_elts mp m_id) \<noteq> None \<Longrightarrow>
    env_total env \<Longrightarrow> cache_room pc \<Longrightarrow>
    pkt_cache_on_interest env m_id n serve d (pkt_cache_save_suffixes_for_prefix (name_prefix n) pc) mp w =
      Some (verdict, entry, d', pc', mp', w') \<Longrightarrow> cache_reach pc' mp' H w'"
| data: "cache_reach pc mp H w \<Longrightarrow> m_id \<in># H \<Longrightarrow> msgbuf_get_data_expiry_time (env_junk env) (pool_elts mp m_id) \<noteq> None \<Longrightarrow>
    env_total env \<Longrightarrow> size H + cs_max_size (pc_cs pc) + 1 < 2 ^ 32 \<Longrightarrow>
    pkt_cache_on_data env m_id keep loc verdict0
      (pkt_cache_save_suffixes_for_prefix (name_prefix (mb_name (pool_elts mp m_id))) pc) mp w =
      Some (nh, wrong, verdict, pc', mp', w') \<Longrightarrow> cache_reach pc' mp' H w'"
| route: "cache_reach pc mp H w \<Longrightarrow> pkt_cache_entry_at pc i = Some e \<Longrightarrow> i \<in> pool_used (pc_entries pc) \<Longrightarrow> pe_u e = U_pit p \<Longrightarrow>
    nexthops_inv nh \<Longrightarrow> cache_reach (pit_entry_set_route i nh f pc) mp H w'"
| resize: "cache_reach pc mp H w \<Longrightarrow> 0 < size' \<Longrightarrow> size' < 2 ^ 31 - 1 \<Longrightarrow>
    cache_reach (snd (pkt_cache_set_cs_size size' pc)) mp H w"
| get: "cache_reach pc mp H w \<Longrightarrow> msgbuf_pool_get mp = Some (i, mp') \<Longrightarrow> cache_reach pc mp' H w"
| fill: "cache_reach pc mp H w \<Longrightarrow> mb_refs m = mb_refs (pool_elts mp i) \<Longrightarrow> cache_reach pc (pool_upd mp i (\<lambda>_. m)) H w"
| acquire: "cache_reach pc mp H w \<Longrightarrow> i \<in> pool_used mp \<Longrightarrow> size H + cs_max_size (pc_cs pc) + 1 < 2 ^ 32 \<Longrightarrow>
    cache_reach pc (msgbuf_pool_acquire i mp) (add_mset i H) w"
| release: "cache_reach pc mp H w \<Longrightarrow> i \<in># H \<Longrightarrow> msgbuf_pool_release mp i = Some mp' \<Longrightarrow> cache_reach pc mp' (H - {#i#}) w"

lemma cache_ok_max:
  assumes "cache_ok pc mp H A"
  shows "length (ac_lru A) \<le> cs_max_size (pc_cs pc)"
proof -
  obtain v where "repr pc v" "view_ok v" "A = abs_of v" using assms by (rule cache_okE)
  then show ?thesis using view_okD(1) by (auto simp: repr_def cs_view_ok_def)
qed

lemma save_max [simp]: "cs_max_size (pc_cs (pkt_cache_save_suffixes_for_prefix p pc)) = cs_max_size (pc_cs pc)"
  by (auto simp: pkt_cache_save_suffixes_for_prefix_def get_suffixes_def split: option.split)

lemma save_entries [simp]: "pc_entries (pkt_cache_save_suffixes_for_prefix p pc) = pc_entries pc"
  by (auto simp: pkt_cache_save_suffixes_for_prefix_def get_suffixes_def split: option.split)

lemma cache_room_save [simp]: "cache_room (pkt_cache_save_suffixes_for_prefix p pc) = cache_room pc"
  by (simp add: cache_room_def)

lemma refs_step:
  assumes "cache_ok pc mp H A" "\<And>G. refs_ok mp (H + G) \<Longrightarrow> size G \<le> cs_max_size (pc_cs pc) \<Longrightarrow> refs_ok mp' (H' + G)"
  shows "cache_ok pc mp' H' A"
proof -
  obtain v where v: "repr pc v" "view_ok v" "refs_ok mp (H + held v)" "A = abs_of v" using assms(1) by (rule cache_okE)
  then have "size (held v) \<le> cs_max_size (pc_cs pc)" using cache_ok_max [OF assms(1)] by (simp add: held_def)
  then show ?thesis using v assms(2) by (intro cache_okI [of _ v]) auto
qed

lemma links_cs [simp]: "links (pc\<lparr>pc_cs := c\<rparr>) = links pc"
  by (simp add: links_def [abs_def] cs_entry_at_def pkt_cache_entry_at_def)

lemma resize_ok:
  assumes "cache_ok pc mp H A" "0 < size'" "size' < 2 ^ 31 - 1"
  shows "\<exists>A'. cache_ok (snd (pkt_cache_set_cs_size size' pc)) mp H A'"
proof (cases "cs_num_entries (pc_cs pc) mod 2 ^ 64 > int size'")
  case True
  then show ?thesis using assms(1) by (auto simp: pkt_cache_set_cs_size_def)
next
  case False
  obtain v where v: "repr pc v" "view_ok v" "refs_ok mp (H + held v)" using assms(1) by (rule cache_okE)
  have "cs_num_entries (pc_cs pc) mod 2 ^ 64 = int (length (cv_lru v))"
    using v(1) view_okD(1) [OF v(2)] by (auto simp: repr_def cs_view_ok_def)
  then have "length (cv_lru v) \<le> size'" using False by simp
  then have "view_ok (v\<lparr>cv_max := size'\<rparr>)" using v(2) assms(2,3) by (simp add: view_ok_def cs_view_ok_def)
  moreover have "repr (snd (pkt_cache_set_cs_size size' pc)) (v\<lparr>cv_max := size'\<rparr>)"
    using v(1) False by (simp add: pkt_cache_set_cs_size_def repr_def lru_list_def index_of_def [abs_def])
  moreover have "held (v\<lparr>cv_max := size'\<rparr>) = held v" by (simp add: held_def)
  ultimately show ?thesis using v(3) cache_okI [of _ "v\<lparr>cv_max := size'\<rparr>" mp H] by auto
qed

lemma cache_reach_ok: "cache_reach pc mp H w \<Longrightarrow> \<exists>A. cache_ok pc mp H A"
proof (induction rule: cache_reach.induct)
  case (create jcs zero junk size' pc mp H w)
  then show ?case using create_ok by blast
next
  case (interest pc mp H w m_id env n serve d verdict entry d' pc' mp' w')
  then obtain A x where A: "cache_ok pc mp H A" "msgbuf_get_interest_lifetime (env_junk env) (pool_elts mp m_id) = Some x" by blast
  let ?pc = "pkt_cache_save_suffixes_for_prefix (name_prefix n) pc"
  have ok: "cache_ok ?pc mp H A" using cache_ok_save [OF A(1)] .
  have at: "msgbuf_pool_at mp m_id = Some (pool_elts mp m_id)"
    using A(1) interest(2) by (auto elim!: cache_okE simp: msgbuf_pool_at_def dest!: refs_used [of _ _ m_id])
  have "msgbuf_get_type (pool_elts mp m_id) = HICN_PACKET_TYPE_INTEREST"
    using interest.hyps(6) at by (auto simp: pkt_cache_on_interest_def split: if_splits)
  moreover obtain verdict1 d1 A1 w1 where
    "interest_spec env (mb_connection_id (pool_elts mp m_id)) x n serve d A w = (verdict1, d1, A1, w1)" by (metis prod_cases4)
  moreover have "ingress_room n A" using cache_room_ingress [OF ok] interest(5) by simp
  ultimately show ?case using on_interest_refines [OF ok interest(2) _ A(2) saved_prefix_save interest(4)] interest(6) by fastforce
next
  case (data pc mp H w m_id env keep loc verdict0 nh wrong verdict pc' mp' w')
  then obtain A x where A: "cache_ok pc mp H A" "msgbuf_get_data_expiry_time (env_junk env) (pool_elts mp m_id) = Some x" by blast
  let ?n = "mb_name (pool_elts mp m_id)"
  let ?pc = "pkt_cache_save_suffixes_for_prefix (name_prefix ?n) pc"
  have ok: "cache_ok ?pc mp H A" using cache_ok_save [OF A(1)] .
  have at: "msgbuf_pool_at mp m_id = Some (pool_elts mp m_id)"
    using A(1) data(2) by (auto elim!: cache_okE simp: msgbuf_pool_at_def dest!: refs_used [of _ _ m_id])
  have "msgbuf_get_type (pool_elts mp m_id) = HICN_PACKET_TYPE_DATA"
    using data.hyps(6) at by (auto simp: pkt_cache_on_data_def split: if_splits)
  moreover obtain nh1 wrong1 verdict1 A1 w1 where
    "data_spec env (pool_elts mp m_id) m_id x ?n keep loc verdict0 A w = (nh1, wrong1, verdict1, A1, w1)" by (metis prod_cases5)
  moreover have "size H + length (ac_lru A) + 1 < 2 ^ 32" using cache_ok_max [OF ok] data(5) by simp
  ultimately show ?case using on_data_refines [OF ok data(2) _ refl A(2) saved_prefix_save data(4)] data(6) by fastforce
next
  case (route pc mp H w i e p nh f w')
  then show ?case using set_route_ok by blast
next
  case (resize pc mp H w size')
  then show ?case using resize_ok by blast
next
  case (get pc mp H w i mp')
  then obtain A where "cache_ok pc mp H A" by blast
  then have "cache_ok pc mp' H A" by (rule refs_step) (use get_refs [of mp] get(2) in fastforce)
  then show ?case by blast
next
  case (fill pc mp H w m i)
  then obtain A where "cache_ok pc mp H A" by blast
  then have "cache_ok pc (pool_upd mp i (\<lambda>_. m)) H A" by (rule refs_step) (use refs_fill fill(2) in blast)
  then show ?case by blast
next
  case (acquire pc mp H w i)
  then obtain A where "cache_ok pc mp H A" by blast
  then have "cache_ok pc (msgbuf_pool_acquire i mp) (add_mset i H) A"
    using acquire(2,3) acquire_refs [of mp _ i] by (elim refs_step) simp
  then show ?case by blast
next
  case (release pc mp H w i mp')
  then obtain A where "cache_ok pc mp H A" by blast
  then have "cache_ok pc mp' (H - {#i#}) A"
    by (rule refs_step) (use release_refs release(2,3) in fastforce)
  then show ?case by blast
qed

section \<open>Properties\<close>

lemma cache_ok_distinct:
  assumes "cache_ok pc mp H A"
  shows "distinct (ac_lru A)" "0 < ac_max A"
proof -
  obtain v where v: "repr pc v" "view_ok v" "A = abs_of v" using assms by (rule cache_okE)
  show "0 < ac_max A" using view_okD(1) [OF v(2)] v(3) by (simp add: cs_view_ok_def)
  show "distinct (ac_lru A)" using view_okD(6) [OF v(2)] inj_on_subset [OF inj_name_at [OF v(2)] lru_dom [OF v(2)]] v(3)
    by (simp add: abs_of_def distinct_map)
qed

lemma a_cs_lookup:
  assumes "distinct (ac_lru A)" "0 < ac_max A"
  shows "ac_map (a_cs n d A) n = Some d"
proof (cases "remove1 n (ac_lru A) = []")
  case True
  then show ?thesis using assms(2) by (simp add: a_cs_def Let_def)
next
  case False
  then have "last (n # remove1 n (ac_lru A)) \<noteq> n" using assms(1) last_in_set [OF False] by (auto simp del: last_in_set)
  then show ?thesis using False by (auto simp: a_cs_def Let_def a_del_def)
qed

lemma same_bufs_lifetime:
  "same_bufs mp mp' \<Longrightarrow> msgbuf_get_interest_lifetime junk (pool_elts mp' j) = msgbuf_get_interest_lifetime junk (pool_elts mp j)"
  by (simp add: msgbuf_get_interest_lifetime_def same_bufs_pkbuf)

lemma same_bufs_type: "same_bufs mp mp' \<Longrightarrow> msgbuf_get_type (pool_elts mp' j) = msgbuf_get_type (pool_elts mp j)"
  by (simp add: msgbuf_get_type_def same_bufs_pkbuf)

lemma same_bufs_fields:
  assumes "same_bufs mp mp'"
  shows "mb_name (pool_elts mp' j) = mb_name (pool_elts mp j)" "mb_connection_id (pool_elts mp' j) = mb_connection_id (pool_elts mp j)"
proof -
  have "pool_elts mp' j\<lparr>mb_refs := 0\<rparr> = pool_elts mp j\<lparr>mb_refs := 0\<rparr>" using assms by (simp add: same_bufs_def)
  from arg_cong [OF this, of mb_name] arg_cong [OF this, of mb_connection_id]
  show "mb_name (pool_elts mp' j) = mb_name (pool_elts mp j)" "mb_connection_id (pool_elts mp' j) = mb_connection_id (pool_elts mp j)" by simp_all
qed

text \<open>C1: the reception of an Interest refines \<open>interest_spec\<close> on the map from names to
  entries: a new name becomes pending, a pending Interest is aggregated or retransmitted and its
  lifetime extended, an expired one is renewed after the timeout has been reported, Data that is
  fresh is served when that is enabled and is otherwise replaced by a pending Interest. The call
  never fails, and it keeps the index, the list of the content store and the counts of references.\<close>

theorem packet_cache_interest:
  assumes "cache_ok pc mp H A" "m_id \<in># H" "msgbuf_get_type (pool_elts mp m_id) = HICN_PACKET_TYPE_INTEREST"
    "msgbuf_get_interest_lifetime (env_junk env) (pool_elts mp m_id) = Some x" "env_total env" "cache_room pc"
  shows "\<exists>verdict i d' pc' mp' A' w'.
    interest_spec env (mb_connection_id (pool_elts mp m_id)) x n serve d A w = (verdict, d', A', w') \<and>
    pkt_cache_on_interest env m_id n serve d (pkt_cache_save_suffixes_for_prefix (name_prefix n) pc) mp w =
      Some (verdict, Some i, d', pc', mp', w') \<and>
    cache_ok pc' mp' H A' \<and> same_bufs mp mp' \<and> index_of pc' n = Some i"
proof -
  obtain verdict d' A' w' where
    spec: "interest_spec env (mb_connection_id (pool_elts mp m_id)) x n serve d A w = (verdict, d', A', w')" by (metis prod_cases4)
  have "ingress_room n A" using cache_room_ingress [OF assms(1,6)] .
  with on_interest_refines [OF cache_ok_save [OF assms(1)] assms(2-4) saved_prefix_save assms(5) _ spec] spec
  show ?thesis by blast
qed

text \<open>C2: the reception of a Data packet refines \<open>data_spec\<close>: it satisfies a pending Interest
  when it comes from a connection of the egress set, takes its place in the content store when
  that is enabled, evicts the least recently stored packet when the store is full, and is otherwise
  stored, updated, cleared or ignored as the entry under its name says. The call never fails, and
  it keeps the index, the list and the counts of references.\<close>

theorem packet_cache_data:
  assumes "cache_ok pc mp H A" "m_id \<in># H" "msgbuf_get_type (pool_elts mp m_id) = HICN_PACKET_TYPE_DATA"
    "n = mb_name (pool_elts mp m_id)" "msgbuf_get_data_expiry_time (env_junk env) (pool_elts mp m_id) = Some x"
    "env_total env" "size H + length (ac_lru A) + 1 < 2 ^ 32"
  shows "\<exists>nh wrong verdict pc' mp' A' w'.
    data_spec env (pool_elts mp m_id) m_id x n keep loc verdict0 A w = (nh, wrong, verdict, A', w') \<and>
    pkt_cache_on_data env m_id keep loc verdict0 (pkt_cache_save_suffixes_for_prefix (name_prefix n) pc) mp w =
      Some (nh, wrong, verdict, pc', mp', w') \<and>
    cache_ok pc' mp' H A' \<and> same_bufs mp mp'"
proof -
  obtain nh wrong verdict A' w' where
    spec: "data_spec env (pool_elts mp m_id) m_id x n keep loc verdict0 A w = (nh, wrong, verdict, A', w')" by (metis prod_cases5)
  with on_data_refines [OF cache_ok_save [OF assms(1)] assms(2-5) saved_prefix_save assms(6,7) spec]
  show ?thesis by blast
qed

lemma count_image_distinct: "distinct xs \<Longrightarrow> count (image_mset f (mset xs)) i = card {x \<in> set xs. f x = i}"
proof (induction xs)
  case (Cons a xs)
  then have "{x \<in> set (a # xs). f x = i} = (if f a = i then insert a {x \<in> set xs. f x = i} else {x \<in> set xs. f x = i})" by auto
  then show ?case using Cons by (auto simp: card_insert_if)
qed simp

definition is_cs :: "pkt_cache \<Rightarrow> nat \<Rightarrow> bool" where
  "is_cs pc i \<longleftrightarrow> i \<in> pool_used (pc_entries pc) \<and> pe_type (pool_elts (pc_entries pc) i) = PKT_CACHE_CS_TYPE"

lemma repr_is_cs:
  assumes "repr pc v" "view_ok v"
  shows "is_cs pc i \<longleftrightarrow> i \<in> set (cv_lru v)" "i \<in> set (cv_lru v) \<Longrightarrow> as_cs_entry (pe_u (pool_elts (pc_entries pc) i)) = Some c \<Longrightarrow> cs_msgbuf (cv_entries v) i = ce_msgbuf_id c"
proof -
  have e: "cv_entries v i = (if i \<in> pool_used (pc_entries pc) then Some (strip_links (pool_elts (pc_entries pc) i)) else None)"
    using reprD(1) [OF assms(1)] by (simp add: entries_of_def)
  then show "is_cs pc i \<longleftrightarrow> i \<in> set (cv_lru v)"
    using view_okD(5) [OF assms(2), of i] lru_dom [OF assms(2)] by (auto simp: is_cs_def split: if_splits)
  show "cs_msgbuf (cv_entries v) i = ce_msgbuf_id c" if "i \<in> set (cv_lru v)" "as_cs_entry (pe_u (pool_elts (pc_entries pc) i)) = Some c"
    using that e lru_dom [OF assms(2)]
    by (cases "pe_u (pool_elts (pc_entries pc) i)") (auto simp: cs_msgbuf_def strip_links_def split: if_splits)
qed

definition name_of :: "hicn_ip_address \<times> u32 \<Rightarrow> hicn_name" where
  "name_of = (\<lambda>(p, sfx). \<lparr>name_prefix = p, name_suffix = sfx\<rparr>)"

text \<open>The entries that a traversal of \<open>names\<close> clears.\<close>

definition cleared :: "pkt_cache \<Rightarrow> hicn_name set \<Rightarrow> nat set" where
  "cleared pc names = {i. is_cs pc i \<and> (\<exists>n \<in> names. index_of pc n = Some i)}"

definition index_inj :: "pkt_cache \<Rightarrow> bool" where
  "index_inj pc \<longleftrightarrow> (\<forall>x y i. index_of pc x = Some i \<longrightarrow> index_of pc y = Some i \<longrightarrow> x = y)"

lemma name_of_inj [simp]: "name_of x = name_of y \<longleftrightarrow> x = y"
  by (auto simp: name_of_def split: prod.splits)

lemma clear_entry:
  assumes "pool_inv (pc_entries pc)" "i \<in> pool_used (pc_entries pc)" "index_of pc (name_of x) = Some i"
  obtains pc1 where "cs_clear_entry pc x = Some pc1" "pool_inv (pc_entries pc1)" "pc_cs pc1 = pc_cs pc"
    "pool_elts (pc_entries pc1) = pool_elts (pc_entries pc)"
    "index_of pc1 = (if is_cs pc i then (index_of pc)(name_of x := None) else index_of pc)"
    "pool_used (pc_entries pc1) = pool_used (pc_entries pc) - (if is_cs pc i then {i} else {})"
proof -
  obtain p sfx where x: "x = (p, sfx)" by force
  have g: "get_from_suffixes p sfx pc = Some (Some i)" "pc_index pc p \<noteq> None"
    using assms(3) by (auto simp: get_from_suffixes_def index_of_def name_of_def x bind_eq_Some_conv)
  have at: "pkt_cache_entry_at pc i = Some (pool_elts (pc_entries pc) i)"
    using assms(2) by (simp add: pkt_cache_entry_at_def pool_used_def)
  show ?thesis
  proof (cases "is_cs pc i")
    case False
    then show ?thesis using that [of pc] assms g(1) at by (simp add: cs_clear_entry_def x is_cs_def)
  next
    case True
    obtain ph where ph: "pool_put (pc_entries pc) i = Some ph" "pool_inv ph" "pool_used ph = pool_used (pc_entries pc) - {i}"
        "pool_elts ph = pool_elts (pc_entries pc)"
      using pool_put_frees [OF assms(1,2)] by blast
    let ?pc = "(set_suffix p sfx None pc)\<lparr>pc_entries := ph\<rparr>"
    have "index_of ?pc = index_of (set_suffix p sfx None pc)" by (simp add: index_of_def [abs_def])
    then have "index_of ?pc = (index_of pc)(name_of x := None)" using index_of_set [OF g(2)] by (simp add: name_of_def x)
    then show ?thesis using that [of ?pc] ph True g(1) at
      by (simp add: cs_clear_entry_def x is_cs_def entries_put_def set_suffix_def)
  qed
qed

lemma clear_loop:
  assumes "pool_inv (pc_entries pc)" "distinct order" "index_inj pc"
    and "\<forall>x \<in> set order. \<exists>i \<in> pool_used (pc_entries pc). index_of pc (name_of x) = Some i"
  shows "\<exists>pc'. foldM cs_clear_entry pc order = Some pc' \<and> pool_elts (pc_entries pc') = pool_elts (pc_entries pc) \<and>
    pc_cs pc' = pc_cs pc \<and> pool_used (pc_entries pc') = pool_used (pc_entries pc) - cleared pc (name_of ` set order)"
  using assms
proof (induction order arbitrary: pc)
  case (Cons x order)
  obtain i where i: "i \<in> pool_used (pc_entries pc)" "index_of pc (name_of x) = Some i" using Cons.prems(4) by auto
  obtain pc1 where 1: "cs_clear_entry pc x = Some pc1" "pool_inv (pc_entries pc1)" "pc_cs pc1 = pc_cs pc"
    "pool_elts (pc_entries pc1) = pool_elts (pc_entries pc)"
    "index_of pc1 = (if is_cs pc i then (index_of pc)(name_of x := None) else index_of pc)"
    "pool_used (pc_entries pc1) = pool_used (pc_entries pc) - (if is_cs pc i then {i} else {})"
    by (rule clear_entry [OF Cons.prems(1) i])
  have "index_inj pc1" using Cons.prems(3) 1(5) by (auto simp: index_inj_def split: if_splits)
  moreover have "\<exists>j \<in> pool_used (pc_entries pc1). index_of pc1 (name_of y) = Some j" if y: "y \<in> set order" for y
  proof -
    obtain j where j: "j \<in> pool_used (pc_entries pc)" "index_of pc (name_of y) = Some j" using Cons.prems(4) y by auto
    have "name_of y \<noteq> name_of x" using y Cons.prems(2) by auto
    then have "j \<noteq> i" using Cons.prems(3) i(2) j(2) unfolding index_inj_def by blast
    then show ?thesis using j \<open>name_of y \<noteq> name_of x\<close> by (auto simp: 1(5,6))
  qed
  ultimately obtain pc' where pc': "foldM cs_clear_entry pc1 order = Some pc'"
      "pool_elts (pc_entries pc') = pool_elts (pc_entries pc1)" "pc_cs pc' = pc_cs pc1"
      "pool_used (pc_entries pc') = pool_used (pc_entries pc1) - cleared pc1 (name_of ` set order)"
    using Cons.IH [OF 1(2)] Cons.prems(2) by auto
  have "cleared pc (name_of ` set (x # order)) = (if is_cs pc i then {i} else {}) \<union> cleared pc1 (name_of ` set order)"
    using i Cons.prems(2) 1(4-6) by (auto simp: cleared_def is_cs_def)
  then have "pool_used (pc_entries pc') = pool_used (pc_entries pc) - cleared pc (name_of ` set (x # order))"
    unfolding pc'(4) 1(6) by auto
  then show ?case using pc'(1-3) 1(1,3,4) by simp
qed (auto simp: cleared_def)

lemma refs_exact:
  assumes "cache_ok pc mp H A" "b \<in> pool_used mp"
  shows "unat (mb_refs (pool_elts mp b)) =
    count H b + card {i. is_cs pc i \<and> map_option ce_msgbuf_id (as_cs_entry (pe_u (pool_elts (pc_entries pc) i))) = Some b}"
proof -
  obtain v where v: "repr pc v" "view_ok v" "refs_ok mp (H + held v)" using assms(1) by (rule cache_okE)
  have "as_cs_entry (pe_u (pool_elts (pc_entries pc) i)) \<noteq> None" if i: "i \<in> set (cv_lru v)" for i
  proof -
    obtain e c where e: "cv_entries v i = Some e" "pe_u e = U_cs c" using view_okD(7) [OF v(2) i] by blast
    then show ?thesis using repr_at [OF v(1) e(1)] strip_links_cs [of "pool_elts (pc_entries pc) i" c] by auto
  qed
  then have "{x \<in> set (cv_lru v). cs_msgbuf (cv_entries v) x = b} =
      {i. is_cs pc i \<and> map_option ce_msgbuf_id (as_cs_entry (pe_u (pool_elts (pc_entries pc) i))) = Some b}"
    using repr_is_cs [OF v(1,2)] by fastforce
  then show ?thesis
    using assms(2) v(3) count_image_distinct [OF view_okD(6) [OF v(2)], of "cs_msgbuf (cv_entries v)"] by (simp add: refs_ok_def held_def)
qed

text \<open>C3: in every cache that is created and then handles Interests and Data, with routes set, the
  store resized to a positive size and buffers taken and released in between, but never cleared, the
  counter of the content store is the number of its entries and at most its size, the index maps a
  name to an entry exactly when that entry is in use and bears that name, and every buffer in use has
  as many references as its holders outside the cache and the content-store entries that point to it.\<close>

theorem reachable_cache_consistent:
  assumes "cache_reach pc mp H w"
  shows "cs_num_entries (pc_cs pc) = int (card {i. is_cs pc i}) \<and> card {i. is_cs pc i} \<le> cs_max_size (pc_cs pc) \<and>
    (\<forall>n i. index_of pc n = Some i \<longleftrightarrow> i \<in> pool_used (pc_entries pc) \<and> pe_name (pool_elts (pc_entries pc) i) = n) \<and>
    (\<forall>b \<in> pool_used mp. unat (mb_refs (pool_elts mp b)) =
       count H b + card {i. is_cs pc i \<and> map_option ce_msgbuf_id (as_cs_entry (pe_u (pool_elts (pc_entries pc) i))) = Some b})"
proof -
  obtain A where A: "cache_ok pc mp H A" using cache_reach_ok [OF assms] by blast
  then obtain v where v: "repr pc v" "view_ok v" "refs_ok mp (H + held v)" by (rule cache_okE)
  have cs: "{i. is_cs pc i} = set (cv_lru v)" using repr_is_cs(1) [OF v(1,2)] by blast
  have "card (set (cv_lru v)) = length (cv_lru v)" using view_okD(6) [OF v(2)] by (simp add: distinct_card)
  then have 1: "cs_num_entries (pc_cs pc) = int (card {i. is_cs pc i})" "card {i. is_cs pc i} \<le> cs_max_size (pc_cs pc)"
    using view_okD(1) [OF v(2)] v(1) unfolding cs by (auto simp: cs_view_ok_def repr_def)
  have 2: "index_of pc n = Some i \<longleftrightarrow> i \<in> pool_used (pc_entries pc) \<and> pe_name (pool_elts (pc_entries pc) i) = n" for n i
    using view_okD(2) [OF v(2), of n i] view_okD(3) [OF v(2), of i] reprD [OF v(1)] by (auto simp: entries_of_def split: if_splits)
  show ?thesis using 1 2 refs_exact [OF A] by blast
qed

text \<open>C5: an Interest for an unknown name is forwarded, and Data for it that arrives on a
  connection of its egress set before it expires is returned the connection of the Interest to
  forward to.\<close>

theorem pending_interest_satisfied:
  assumes ok: "cache_ok pc mp H A" "ac_map A n = None" "cache_room pc" "env_total env" "env_total env'"
    and i: "i_id \<in># H" "msgbuf_get_type (pool_elts mp i_id) = HICN_PACKET_TYPE_INTEREST"
      "msgbuf_get_interest_lifetime (env_junk env) (pool_elts mp i_id) = Some x"
    and d: "d_id \<in># H" "msgbuf_get_type (pool_elts mp d_id) = HICN_PACKET_TYPE_DATA" "mb_name (pool_elts mp d_id) = n"
      "msgbuf_get_data_expiry_time (env_junk env') (pool_elts mp d_id) = Some y"
    and nh: "nexthops_inv nh" "mb_connection_id (pool_elts mp d_id) \<in> set (hops nh)"
    and t: "env_now env' < env_now env + ucast x" "size H + length (ac_lru A) + 1 < 2 ^ 32"
  shows "\<exists>i pc1 mp1 w1 nh' verdict pc2 mp2 w2.
    pkt_cache_on_interest env i_id n serve d0 (pkt_cache_save_suffixes_for_prefix (name_prefix n) pc) mp w =
      Some (PKT_CACHE_VERDICT_FORWARD_INTEREST, Some i, d0, pc1, mp1, w1) \<and>
    pkt_cache_on_data env' d_id keep loc verdict0
      (pkt_cache_save_suffixes_for_prefix (name_prefix n) (pit_entry_set_route i nh f pc1)) mp1 w1 =
      Some (Some nh', False, verdict, pc2, mp2, w2) \<and>
    hops nh' = [mb_connection_id (pool_elts mp i_id)] \<and>
    verdict = (if keep then PKT_CACHE_VERDICT_FORWARD_DATA else PKT_CACHE_VERDICT_CLEAR_DATA)"
proof -
  let ?c = "mb_connection_id (pool_elts mp i_id)"
  let ?e = "interest_entry env n ?c x"
  have "ingress_room n A" using ok(2) by (simp add: ingress_room_def)
  moreover have "interest_spec env ?c x n serve d0 A w = (PKT_CACHE_VERDICT_FORWARD_INTEREST, d0, a_pit n ?e A, w)"
    using ok(2) by (simp add: interest_spec_def Let_def)
  ultimately obtain j pc1 mp1 where 1: "pkt_cache_on_interest env i_id n serve d0 (pkt_cache_save_suffixes_for_prefix (name_prefix n) pc) mp w =
      Some (PKT_CACHE_VERDICT_FORWARD_INTEREST, Some j, d0, pc1, mp1, w)" "cache_ok pc1 mp1 H (a_pit n ?e A)" "same_bufs mp mp1"
      "index_of pc1 n = Some j"
    using on_interest_refines [OF cache_ok_save [OF ok(1)] i saved_prefix_save ok(4)] by blast
  obtain v where v: "repr pc1 v" "view_ok v" "a_pit n ?e A = abs_of v" using 1(2) by (rule cache_okE)
  have "ac_map (abs_of v) n = Some ?e" unfolding v(3) [symmetric] by (simp add: a_pit_def)
  then have ve: "cv_entries v j = Some ?e" using 1(4) v(1) by (simp add: abs_of_def repr_def)
  let ?e2 = "?e\<lparr>pe_u := U_pit \<lparr>ingressIdSet = single_hop ?c, egressIdSet = nh, pit_fib_entry = f\<rparr>\<rparr>"
  have "cache_ok (pit_entry_set_route j nh f pc1) mp1 H (a_pit n ?e2 (a_pit n ?e A))"
    using set_route_ok [OF 1(2) repr_pit_entry [OF v(1) ve] _ _ nh(1), where f = f] repr_used [OF v(1), of j] ve by auto
  moreover have "a_pit n ?e2 (a_pit n ?e A) = a_pit n ?e2 A" using cache_ok_distinct [OF ok(1)] by (simp add: a_pit_def remove1_idem)
  ultimately have ok2: "cache_ok (pit_entry_set_route j nh f pc1) mp1 H (a_pit n ?e2 A)" by simp
  have d1: "msgbuf_get_type (pool_elts mp1 d_id) = HICN_PACKET_TYPE_DATA" "n = mb_name (pool_elts mp1 d_id)"
    "msgbuf_get_data_expiry_time (env_junk env') (pool_elts mp1 d_id) = Some y" "mb_connection_id (pool_elts mp1 d_id) \<in> set (hops nh)"
    using same_bufs_type [OF 1(3)] same_bufs_fields [OF 1(3)] same_bufs_expiry [OF 1(3)] d(2-4) nh(2) by auto
  have sz: "size H + length (ac_lru (a_pit n ?e2 A)) + 1 < 2 ^ 32" using t(2) by (auto simp: a_pit_def length_remove1)
  have "\<not> is_expired (env_now env') ?e2" using t(1) by (simp add: is_expired_def interest_entry_def not_le)
  moreover have "ac_map (a_pit n ?e2 A) n = Some ?e2" by (simp add: a_pit_def)
  ultimately have "\<exists>A' w2. data_spec env' (pool_elts mp1 d_id) d_id y n keep loc verdict0 (a_pit n ?e2 A) w = (Some (single_hop ?c), False,
      if keep then PKT_CACHE_VERDICT_FORWARD_DATA else PKT_CACHE_VERDICT_CLEAR_DATA, A', w2)"
    using d1(4) by (simp add: data_spec_def Let_def)
  then obtain A' w2 where "data_spec env' (pool_elts mp1 d_id) d_id y n keep loc verdict0 (a_pit n ?e2 A) w = (Some (single_hop ?c), False,
      if keep then PKT_CACHE_VERDICT_FORWARD_DATA else PKT_CACHE_VERDICT_CLEAR_DATA, A', w2)" by blast
  from on_data_refines [OF cache_ok_save [OF ok2] d(1) d1(1-3) saved_prefix_save ok(5) sz this] 1(1) single_hop_add [of ?c]
  show ?thesis by blast
qed

text \<open>C8: a Data packet pushed by a local application for a name without an unexpired pending Interest
  is stored, or replaces the stored packet of that name, and if the next packet handled is an Interest
  for that name and arrives before the Data expires, it is answered with the buffer of the Data.\<close>

theorem stored_data_served:
  assumes ok: "cache_ok pc mp H A" "env_total env" "env_total env'"
    and A: "case ac_map A n of None \<Rightarrow> True | Some e \<Rightarrow> pe_type e = PKT_CACHE_CS_TYPE \<or> is_expired (env_now env) e"
    and i: "i_id \<in># H" "msgbuf_get_type (pool_elts mp i_id) = HICN_PACKET_TYPE_INTEREST"
      "msgbuf_get_interest_lifetime (env_junk env') (pool_elts mp i_id) = Some x"
    and d: "d_id \<in># H" "msgbuf_get_type (pool_elts mp d_id) = HICN_PACKET_TYPE_DATA" "mb_name (pool_elts mp d_id) = n"
      "msgbuf_get_data_expiry_time (env_junk env) (pool_elts mp d_id) = Some y"
    and t: "env_now env' < env_now env + ucast y" "size H + length (ac_lru A) + 1 < 2 ^ 32"
  shows "\<exists>verdict pc1 mp1 w1 i pc2 mp2 w2.
    pkt_cache_on_data env d_id True True verdict0 (pkt_cache_save_suffixes_for_prefix (name_prefix n) pc) mp w =
      Some (None, False, verdict, pc1, mp1, w1) \<and> verdict \<in> {PKT_CACHE_VERDICT_STORE_DATA, PKT_CACHE_VERDICT_UPDATE_DATA} \<and>
    pkt_cache_on_interest env' i_id n True None (pkt_cache_save_suffixes_for_prefix (name_prefix n) pc1) mp1 w1 =
      Some (PKT_CACHE_VERDICT_FORWARD_DATA, Some i, Some d_id, pc2, mp2, w2)"
proof -
  let ?d = "data_entry env n d_id y"
  obtain va where va: "repr pc va" "view_ok va" "A = abs_of va" using ok(1) by (auto elim: cache_okE)
  have "\<exists>verdict. data_spec env (pool_elts mp d_id) d_id y n True True verdict0 A w = (None, False, verdict, a_cs n ?d A, w) \<and>
      verdict \<in> {PKT_CACHE_VERDICT_STORE_DATA, PKT_CACHE_VERDICT_UPDATE_DATA}"
  proof (cases "ac_map A n")
    case (Some e)
    then have "entry_ok e" using va view_okD(4) [OF va(2)] by (auto simp: abs_of_def bind_eq_Some_conv)
    then show ?thesis using A Some by (cases rule: entry_cases) (auto simp: data_spec_def Let_def)
  qed (simp add: data_spec_def)
  then obtain verdict where ds: "data_spec env (pool_elts mp d_id) d_id y n True True verdict0 A w = (None, False, verdict, a_cs n ?d A, w)"
    and vd: "verdict \<in> {PKT_CACHE_VERDICT_STORE_DATA, PKT_CACHE_VERDICT_UPDATE_DATA}" by blast
  obtain pc1 mp1 where 1: "pkt_cache_on_data env d_id True True verdict0 (pkt_cache_save_suffixes_for_prefix (name_prefix n) pc) mp w =
      Some (None, False, verdict, pc1, mp1, w)" "cache_ok pc1 mp1 H (a_cs n ?d A)" "same_bufs mp mp1"
    using on_data_refines [OF cache_ok_save [OF ok(1)] d(1,2) d(3) [symmetric] d(4) saved_prefix_save ok(2) t(2) ds] by blast
  have An: "ac_map (a_cs n ?d A) n = Some ?d" using a_cs_lookup [OF cache_ok_distinct [OF ok(1)]] .
  moreover have "\<not> is_expired (env_now env') ?d" using t(1) by (simp add: is_expired_def data_entry_def not_le)
  ultimately have sp: "interest_spec env' (mb_connection_id (pool_elts mp1 i_id)) x n True None (a_cs n ?d A) w =
      (PKT_CACHE_VERDICT_FORWARD_DATA, Some d_id, a_cs n ?d A, w)" by (simp add: interest_spec_def Let_def)
  have "ingress_room n (a_cs n ?d A)" using An by (simp add: ingress_room_def)
  from on_interest_refines [OF cache_ok_save [OF 1(2)] i(1) _ _ saved_prefix_save ok(3) this sp] i(2,3)
    same_bufs_type [OF 1(3)] same_bufs_lifetime [OF 1(3)] 1(1) vd
  show ?thesis by metis
qed

text \<open>Examples: packets that live for a second, and a forwarder without routes.\<close>

definition example_msgbuf :: "u16 \<Rightarrow> u32 \<Rightarrow> hicn_name \<Rightarrow> msgbuf" where
  "example_msgbuf type conn n = zero_msgbuf\<lparr>mb_pkbuf := zero_packet 60 HICN_PACKET_FORMAT_IPV6_TCP type\<lparr>pk_bytes := replicate 58 0 @ [3, 232]\<rparr>,
     mb_connection_id := conn, mb_name := n\<rparr>"

lemma example_urgent: "bswap 2 (59395 :: u16) = 1000"
  by code_simp

lemma example_lifetime: "tcp_get_lifetime old (zero_packet 60 f t\<lparr>pk_bytes := replicate 58 0 @ [3, 232]\<rparr>) = Some (0, 1000)"
proof -
  have "pk_load 2 58 (zero_packet 60 f t\<lparr>pk_bytes := replicate 58 0 @ [3, 232]\<rparr>) = Some (le_word [3, 232] :: u16)"
    by (simp add: pk_load_def load_def)
  moreover have "pk_load 1 52 (zero_packet 60 f t\<lparr>pk_bytes := replicate 58 0 @ [3, 232]\<rparr>) = Some (0 :: u8)"
    by (simp add: pk_load_def load_def)
  ultimately show ?thesis by (simp add: tcp_get_lifetime_def ntoh_def example_urgent)
qed

lemma example_msgbuf_simps:
  "msgbuf_get_interest_lifetime junk (example_msgbuf t c n\<lparr>mb_refs := r\<rparr>) = Some 1000"
  "msgbuf_get_data_expiry_time junk (example_msgbuf t c n\<lparr>mb_refs := r\<rparr>) = Some 1000"
  "msgbuf_get_type (example_msgbuf t c n\<lparr>mb_refs := r\<rparr>) = ucast t" "mb_name (example_msgbuf t c n) = n" "mb_connection_id (example_msgbuf t c n) = c"
  by (simp_all add: example_msgbuf_def msgbuf_get_interest_lifetime_def msgbuf_get_data_expiry_time_def hicn_interest_get_lifetime_def
      hicn_data_get_expiry_time_def lifetime_defs example_formats example_lifetime
      msgbuf_get_type_def hicn_packet_get_type_def)

definition example_env :: "u64 \<Rightarrow> unit cache_env" where
  "example_env t = \<lparr>env_now = t, env_junk = 0, env_on_data = (\<lambda>_ _ _ _ _ w. Some w), env_on_timeout = (\<lambda>_ _ w. Some w),
     env_is_local_remote = (\<lambda>_ _. Some False), env_is_local = (\<lambda>_ _. True)\<rparr>"

lemma example_env_simps [simp]: "env_total (example_env t)" "env_now (example_env t) = t" "env_junk (example_env t) = 0"
  by (simp_all add: example_env_def env_total_def)

lemma pool_with_buffer:
  assumes "refs_ok mp H" "size H + 1 < 2 ^ 32"
  shows "\<exists>mp' a. refs_ok mp' (add_mset a H) \<and> a \<notin> pool_used mp \<and> pool_elts mp' a = m\<lparr>mb_refs := 1\<rparr> \<and>
    (\<forall>j \<in> pool_used mp. pool_elts mp' j = pool_elts mp j) \<and> pool_used mp' = insert a (pool_used mp)"
proof -
  obtain a mp1 where 1: "refs_ok mp1 H" "a \<notin> pool_used mp" "pool_used mp1 = insert a (pool_used mp)" "\<forall>j. j \<noteq> a \<longrightarrow> pool_elts mp1 j = pool_elts mp j"
    using get_refs [OF assms(1)] by blast
  have "count H a = 0" using 1(2) assms(1) by (auto simp: refs_ok_def count_eq_zero_iff)
  then have "mb_refs (pool_elts mp1 a) = 0" using 1(1,3) by (auto simp: refs_ok_def unat_eq_zero)
  then have "refs_ok (pool_upd mp1 a (\<lambda>_. m\<lparr>mb_refs := 0\<rparr>)) H" using refs_fill [OF 1(1), of "m\<lparr>mb_refs := 0\<rparr>" a] by simp
  from acquire_refs [OF this _ assms(2), of a] 1 show ?thesis
    by (intro exI [of _ "msgbuf_pool_acquire a (pool_upd mp1 a (\<lambda>_. m\<lparr>mb_refs := 0\<rparr>))"] exI [of _ a]) (auto simp: msgbuf_pool_acquire_def)
qed

lemma example_buffers:
  "\<exists>mp a b. refs_ok mp {#a, b#} \<and> pool_elts mp a = m\<lparr>mb_refs := 1\<rparr> \<and> pool_elts mp b = m'\<lparr>mb_refs := 1\<rparr>"
proof -
  obtain mp0 where 0: "refs_ok mp0 {#}" using example_pool by blast
  obtain mp1 b where 1: "refs_ok mp1 {#b#}" "pool_elts mp1 b = m'\<lparr>mb_refs := 1\<rparr>" "b \<in> pool_used mp1" using pool_with_buffer [OF 0, of m'] by auto
  obtain mp2 a where "refs_ok mp2 {#a, b#}" "pool_elts mp2 a = m\<lparr>mb_refs := 1\<rparr>" "\<forall>j \<in> pool_used mp1. pool_elts mp2 j = pool_elts mp1 j"
    using pool_with_buffer [OF 1(1), of m] by auto
  then show ?thesis using 1 by metis
qed

definition zero_entry :: pkt_cache_entry where
  "zero_entry = \<lparr>pe_name = \<lparr>name_prefix = \<lparr>u64_0 = 0, u64_1 = 0\<rparr>, name_suffix = 0\<rparr>, pe_type = PKT_CACHE_PIT_TYPE,
     pe_create_ts = 0, pe_expire_ts = 0, pe_has_expire_ts = False, pe_u = U_cs \<lparr>ce_msgbuf_id = 0, ce_prev = None, ce_next = None\<rparr>\<rparr>"

lemma example_cache:
  assumes "refs_ok mp H"
  shows "\<exists>pc. pkt_cache_create (pc_cs example_store) zero_entry (\<lambda>_. zero_entry) 2 = Some (Some pc) \<and>
    cache_ok pc mp H \<lparr>ac_map = Map.empty, ac_lru = [], ac_max = 2\<rparr> \<and> cache_room pc"
proof -
  obtain ents where ents: "pool_init zero_entry (\<lambda>_. zero_entry) DEFAULT_PKT_CACHE_SIZE 0 = Some (Some ents)" "pool_used ents = {}"
    using pool_init_inv [of DEFAULT_PKT_CACHE_SIZE zero_entry "\<lambda>_. zero_entry"] by (auto simp: DEFAULT_PKT_CACHE_SIZE_def)
  then obtain pc where pc: "pkt_cache_create (pc_cs example_store) zero_entry (\<lambda>_. zero_entry) 2 = Some (Some pc)" "pc_entries pc = ents"
    by (simp add: pkt_cache_create_def cs_create_def)
  then show ?thesis using create_ok [OF pc(1) _ assms] ents(2) by (auto simp: cache_room_def)
qed

abbreviation example_name :: hicn_name where
  "example_name \<equiv> \<lparr>name_prefix = \<lparr>u64_0 = 7, u64_1 = 8\<rparr>, name_suffix = 9\<rparr>"

theorem packet_cache_interest_witness:
  "\<exists>mp m_id H pc i pc' mp'. refs_ok mp H \<and> m_id \<in># H \<and>
     pkt_cache_create (pc_cs example_store) zero_entry (\<lambda>_. zero_entry) 2 = Some (Some pc) \<and>
     pkt_cache_on_interest (example_env 5) m_id example_name True None
       (pkt_cache_save_suffixes_for_prefix (name_prefix example_name) pc) mp () =
       Some (PKT_CACHE_VERDICT_FORWARD_INTEREST, Some i, None, pc', mp', ())"
proof -
  obtain mp a b where mp: "refs_ok mp {#a, b#}" "pool_elts mp a = example_msgbuf 1 3 example_name\<lparr>mb_refs := 1\<rparr>"
    using example_buffers by blast
  obtain pc where pc: "pkt_cache_create (pc_cs example_store) zero_entry (\<lambda>_. zero_entry) 2 = Some (Some pc)"
    "cache_ok pc mp {#a, b#} \<lparr>ac_map = Map.empty, ac_lru = [], ac_max = 2\<rparr>" "cache_room pc" using example_cache [OF mp(1)] by blast
  have "interest_spec (example_env 5) 3 1000 example_name True None \<lparr>ac_map = Map.empty, ac_lru = [], ac_max = 2\<rparr> () =
    (verdict, d', A', w') \<Longrightarrow> verdict = PKT_CACHE_VERDICT_FORWARD_INTEREST \<and> d' = None" for verdict d' A' w'
    by (simp add: interest_spec_def Let_def)
  with packet_cache_interest [OF pc(2), of a "example_env 5" 1000 example_name True None "()"] mp(2) pc(3)
  have "\<exists>i pc' mp'. pkt_cache_on_interest (example_env 5) a example_name True None
       (pkt_cache_save_suffixes_for_prefix (name_prefix example_name) pc) mp () =
       Some (PKT_CACHE_VERDICT_FORWARD_INTEREST, Some i, None, pc', mp', ())" by (auto simp: example_msgbuf_simps)
  moreover have "a \<in># {#a, b#}" by simp
  ultimately show ?thesis using mp(1) pc(1) by blast
qed

theorem packet_cache_data_witness:
  "\<exists>mp m_id H pc pc' mp'. refs_ok mp H \<and> m_id \<in># H \<and>
     pkt_cache_create (pc_cs example_store) zero_entry (\<lambda>_. zero_entry) 2 = Some (Some pc) \<and>
     pkt_cache_on_data (example_env 5) m_id True True PKT_CACHE_VERDICT_ERROR
       (pkt_cache_save_suffixes_for_prefix (name_prefix example_name) pc) mp () =
       Some (None, False, PKT_CACHE_VERDICT_STORE_DATA, pc', mp', ())"
proof -
  obtain mp a b where mp: "refs_ok mp {#a, b#}" "pool_elts mp a = example_msgbuf 2 3 example_name\<lparr>mb_refs := 1\<rparr>"
    using example_buffers by blast
  obtain pc where pc: "pkt_cache_create (pc_cs example_store) zero_entry (\<lambda>_. zero_entry) 2 = Some (Some pc)"
    "cache_ok pc mp {#a, b#} \<lparr>ac_map = Map.empty, ac_lru = [], ac_max = 2\<rparr>" using example_cache [OF mp(1)] by blast
  let ?A = "\<lparr>ac_map = Map.empty, ac_lru = [], ac_max = 2\<rparr>"
  have "\<exists>A'. data_spec (example_env 5) (pool_elts mp a) a 1000 example_name True True PKT_CACHE_VERDICT_ERROR ?A () =
    (None, False, PKT_CACHE_VERDICT_STORE_DATA, A', ())" by (simp add: data_spec_def Let_def)
  moreover have "msgbuf_get_type (pool_elts mp a) = HICN_PACKET_TYPE_DATA" "example_name = mb_name (pool_elts mp a)"
    "msgbuf_get_data_expiry_time (env_junk (example_env 5)) (pool_elts mp a) = Some 1000" and a: "a \<in># {#a, b#}"
    using mp(2) by (simp_all add: example_msgbuf_simps)
  ultimately obtain pc' mp' where "pkt_cache_on_data (example_env 5) a True True PKT_CACHE_VERDICT_ERROR
       (pkt_cache_save_suffixes_for_prefix (name_prefix example_name) pc) mp () =
       Some (None, False, PKT_CACHE_VERDICT_STORE_DATA, pc', mp', ())"
    using packet_cache_data [OF pc(2) a, of example_name "example_env 5" 1000 True True PKT_CACHE_VERDICT_ERROR "()"] by fastforce
  then show ?thesis using mp(1) pc(1) a by blast
qed

theorem pending_interest_satisfied_witness:
  "\<exists>mp pc i_id d_id i pc1 mp1 nh' pc2 mp2.
    pkt_cache_create (pc_cs example_store) zero_entry (\<lambda>_. zero_entry) 2 = Some (Some pc) \<and>
    pkt_cache_on_interest (example_env 5) i_id example_name True None (pkt_cache_save_suffixes_for_prefix (name_prefix example_name) pc) mp () =
      Some (PKT_CACHE_VERDICT_FORWARD_INTEREST, Some i, None, pc1, mp1, ()) \<and>
    pkt_cache_on_data (example_env 900) d_id True False PKT_CACHE_VERDICT_ERROR
      (pkt_cache_save_suffixes_for_prefix (name_prefix example_name) (pit_entry_set_route i example_hops None pc1)) mp1 () =
      Some (Some nh', False, PKT_CACHE_VERDICT_FORWARD_DATA, pc2, mp2, ()) \<and> hops nh' = [3]"
proof -
  obtain mp a b where mp: "refs_ok mp {#a, b#}" "pool_elts mp a = example_msgbuf 1 3 example_name\<lparr>mb_refs := 1\<rparr>"
    "pool_elts mp b = example_msgbuf 2 7 example_name\<lparr>mb_refs := 1\<rparr>" using example_buffers by blast
  obtain pc where pc: "pkt_cache_create (pc_cs example_store) zero_entry (\<lambda>_. zero_entry) 2 = Some (Some pc)"
    "cache_ok pc mp {#a, b#} \<lparr>ac_map = Map.empty, ac_lru = [], ac_max = 2\<rparr>" "cache_room pc" using example_cache [OF mp(1)] by blast
  from pending_interest_satisfied [OF pc(2) _ pc(3), of example_name "example_env 5" "example_env 900" a 1000 b 1000 example_hops
      True None "()" True False PKT_CACHE_VERDICT_ERROR None]
    mp pc(1) example_hops_inv show ?thesis by (auto simp: example_msgbuf_simps word_less_nat_alt) blast
qed

theorem stored_data_served_witness:
  "\<exists>mp pc i_id d_id verdict pc1 mp1 i pc2 mp2.
    pkt_cache_create (pc_cs example_store) zero_entry (\<lambda>_. zero_entry) 2 = Some (Some pc) \<and>
    pkt_cache_on_data (example_env 5) d_id True True PKT_CACHE_VERDICT_ERROR (pkt_cache_save_suffixes_for_prefix (name_prefix example_name) pc) mp () =
      Some (None, False, verdict, pc1, mp1, ()) \<and>
    pkt_cache_on_interest (example_env 900) i_id example_name True None (pkt_cache_save_suffixes_for_prefix (name_prefix example_name) pc1) mp1 () =
      Some (PKT_CACHE_VERDICT_FORWARD_DATA, Some i, Some d_id, pc2, mp2, ())"
proof -
  obtain mp a b where mp: "refs_ok mp {#a, b#}" "pool_elts mp a = example_msgbuf 1 3 example_name\<lparr>mb_refs := 1\<rparr>"
    "pool_elts mp b = example_msgbuf 2 7 example_name\<lparr>mb_refs := 1\<rparr>" using example_buffers by blast
  obtain pc where pc: "pkt_cache_create (pc_cs example_store) zero_entry (\<lambda>_. zero_entry) 2 = Some (Some pc)"
    "cache_ok pc mp {#a, b#} \<lparr>ac_map = Map.empty, ac_lru = [], ac_max = 2\<rparr>" using example_cache [OF mp(1)] by blast
  from stored_data_served [OF pc(2), of "example_env 5" "example_env 900" example_name a 1000 b 1000 PKT_CACHE_VERDICT_ERROR "()"]
    mp pc(1) show ?thesis by (auto simp: example_msgbuf_simps word_less_nat_alt) (blast+)
qed

text \<open>C30: clearing the content store, whatever the order in which the hash tables are visited,
  removes every stored packet from the cache and empties the list, but leaves the buffers as they
  are: their counters still count the entries that are gone, so that as soon as one packet was
  stored, some buffer has more references than holders and is never freed.\<close>

theorem cs_clear_leaks_buffers:
  assumes "cache_ok pc mp H A" "ac_lru A \<noteq> []" "distinct order" "name_of ` set order = dom (index_of pc)"
  shows "\<exists>pc'. pkt_cache_cs_clear junk order pc = Some pc' \<and> lru_head (pc_cs pc') = None \<and> (\<forall>i. \<not> is_cs pc' i) \<and>
    (\<exists>b \<in> pool_used mp. count H b < unat (mb_refs (pool_elts mp b)))"
proof -
  obtain v where v: "repr pc v" "view_ok v" "refs_ok mp (H + held v)" "A = abs_of v" using assms(1) by (rule cache_okE)
  have ix: "index_of pc n = Some i \<longleftrightarrow> i \<in> pool_used (pc_entries pc) \<and> pe_name (pool_elts (pc_entries pc) i) = n" for n i
    using view_okD(2) [OF v(2), of n i] view_okD(3) [OF v(2), of i] reprD [OF v(1)] by (auto simp: entries_of_def split: if_splits)
  have "index_inj pc" by (auto simp: index_inj_def ix)
  moreover have "\<exists>i \<in> pool_used (pc_entries pc). index_of pc (name_of x) = Some i" if "x \<in> set order" for x
  proof -
    have "name_of x \<in> dom (index_of pc)" using that assms(4) by blast
    then show ?thesis using ix by fastforce
  qed
  ultimately obtain pc1 where 1: "foldM cs_clear_entry pc order = Some pc1" "pool_elts (pc_entries pc1) = pool_elts (pc_entries pc)"
      "pc_cs pc1 = pc_cs pc" "pool_used (pc_entries pc1) = pool_used (pc_entries pc) - cleared pc (dom (index_of pc))"
    using clear_loop [OF reprD(3) [OF v(1)] assms(3)] assms(4) by auto
  have "\<not> is_cs pc1 i" for i using ix 1(2,4) by (auto simp: is_cs_def cleared_def)
  moreover have "cs_kind (pc_cs pc) = CS_TYPE_LRU" using v(1) by (simp add: repr_def)
  ultimately have "\<exists>pc'. pkt_cache_cs_clear junk order pc = Some pc' \<and> lru_head (pc_cs pc') = None \<and> (\<forall>i. \<not> is_cs pc' i)"
    by (simp add: pkt_cache_cs_clear_def 1(1,3) cs_clear_def cs_create_def cs_lru_initialize_def is_cs_def)
  moreover obtain b where b: "b \<in># held v" using assms(2) v(4) by (cases "cv_lru v") (auto simp: held_def abs_of_def)
  then have "b \<in> pool_used mp" "0 < count (held v) b" using refs_used [OF v(3), of b] by simp_all
  then have "\<exists>b \<in> pool_used mp. count H b < unat (mb_refs (pool_elts mp b))" using v(3) by (auto simp: refs_ok_def)
  ultimately show ?thesis by blast
qed

lemma index_dom: "repr pc v \<Longrightarrow> view_ok v \<Longrightarrow> dom (index_of pc) = dom (ac_map (abs_of v))"
  using view_okD(2) by (fastforce simp: repr_index_of abs_of_def bind_eq_Some_conv)

lemma example_stored:
  obtains mp a b pc pc1 mp1 where "refs_ok mp {#a, b#}"
    "pkt_cache_create (pc_cs example_store) zero_entry (\<lambda>_. zero_entry) 2 = Some (Some pc)"
    "msgbuf_get_data_expiry_time (env_junk (example_env 5)) (pool_elts mp a) \<noteq> None" "mb_name (pool_elts mp a) = example_name"
    "pkt_cache_on_data (example_env 5) a True True PKT_CACHE_VERDICT_ERROR (pkt_cache_save_suffixes_for_prefix (name_prefix example_name) pc) mp () =
       Some (None, False, PKT_CACHE_VERDICT_STORE_DATA, pc1, mp1, ())"
    "cs_max_size (pc_cs pc) = 2"
    "cache_ok pc1 mp1 {#a, b#} (a_cs example_name (data_entry (example_env 5) example_name a 1000) \<lparr>ac_map = Map.empty, ac_lru = [], ac_max = 2\<rparr>)"
proof -
  obtain mp a b where mp: "refs_ok mp {#a, b#}" "pool_elts mp a = example_msgbuf 2 3 example_name\<lparr>mb_refs := 1\<rparr>"
    using example_buffers by blast
  let ?A = "\<lparr>ac_map = Map.empty, ac_lru = [], ac_max = 2\<rparr>" and ?d = "data_entry (example_env 5) example_name a 1000"
  obtain pc where pc: "pkt_cache_create (pc_cs example_store) zero_entry (\<lambda>_. zero_entry) 2 = Some (Some pc)"
    "cache_ok pc mp {#a, b#} ?A" using example_cache [OF mp(1)] by blast
  have spec: "data_spec (example_env 5) (pool_elts mp a) a 1000 example_name True True PKT_CACHE_VERDICT_ERROR ?A () =
    (None, False, PKT_CACHE_VERDICT_STORE_DATA, a_cs example_name ?d ?A, ())" by (simp add: data_spec_def Let_def)
  have m: "a \<in># {#a, b#}" "msgbuf_get_type (pool_elts mp a) = HICN_PACKET_TYPE_DATA" "example_name = mb_name (pool_elts mp a)"
    "msgbuf_get_data_expiry_time (env_junk (example_env 5)) (pool_elts mp a) = Some 1000" "size {#a, b#} + length (ac_lru ?A) + 1 < 2 ^ 32"
    using mp(2) by (simp_all add: example_msgbuf_simps)
  obtain pc1 mp1 where 1: "pkt_cache_on_data (example_env 5) a True True PKT_CACHE_VERDICT_ERROR (pkt_cache_save_suffixes_for_prefix (name_prefix example_name) pc) mp () =
       Some (None, False, PKT_CACHE_VERDICT_STORE_DATA, pc1, mp1, ())" "cache_ok pc1 mp1 {#a, b#} (a_cs example_name ?d ?A)"
    using on_data_refines [OF cache_ok_save [OF pc(2)] m(1-4) saved_prefix_save example_env_simps(1) m(5) spec] by blast
  have "cs_max_size (pc_cs pc) = 2" using pc(2) by (auto elim!: cache_okE simp: repr_def abs_of_def)
  then show ?thesis using that mp(1) pc(1) m(3,4) 1 by (metis option.distinct(1))
qed

theorem cs_clear_leaks_buffers_witness:
  "\<exists>mp pc pc1 mp1 a b pc'. pkt_cache_create (pc_cs example_store) zero_entry (\<lambda>_. zero_entry) 2 = Some (Some pc) \<and>
     pkt_cache_on_data (example_env 5) a True True PKT_CACHE_VERDICT_ERROR (pkt_cache_save_suffixes_for_prefix (name_prefix example_name) pc) mp () =
       Some (None, False, PKT_CACHE_VERDICT_STORE_DATA, pc1, mp1, ()) \<and>
     pkt_cache_cs_clear (pc_cs example_store) [(name_prefix example_name, name_suffix example_name)] pc1 = Some pc' \<and>
     (\<forall>i. \<not> is_cs pc' i) \<and> (\<exists>c \<in> pool_used mp1. count {#a, b#} c < unat (mb_refs (pool_elts mp1 c)))"
proof -
  obtain mp a b pc pc1 mp1 where e: "pkt_cache_create (pc_cs example_store) zero_entry (\<lambda>_. zero_entry) 2 = Some (Some pc)"
    "pkt_cache_on_data (example_env 5) a True True PKT_CACHE_VERDICT_ERROR (pkt_cache_save_suffixes_for_prefix (name_prefix example_name) pc) mp () =
       Some (None, False, PKT_CACHE_VERDICT_STORE_DATA, pc1, mp1, ())"
    "cache_ok pc1 mp1 {#a, b#} (a_cs example_name (data_entry (example_env 5) example_name a 1000) \<lparr>ac_map = Map.empty, ac_lru = [], ac_max = 2\<rparr>)"
    by (rule example_stored)
  let ?A = "a_cs example_name (data_entry (example_env 5) example_name a 1000) \<lparr>ac_map = Map.empty, ac_lru = [], ac_max = 2\<rparr>"
  let ?o = "[(name_prefix example_name, name_suffix example_name)]"
  obtain v where v: "repr pc1 v" "view_ok v" "?A = abs_of v" using e(3) by (rule cache_okE)
  have "ac_lru ?A \<noteq> []" "dom (ac_map ?A) = {example_name}" by (simp_all add: a_cs_def)
  then have "name_of ` set ?o = dom (index_of pc1)" using index_dom [OF v(1,2)] v(3) by (simp add: name_of_def)
  moreover have "distinct ?o" by simp
  ultimately obtain pc' where "pkt_cache_cs_clear (pc_cs example_store) ?o pc1 = Some pc'" "\<forall>i. \<not> is_cs pc' i"
      "\<exists>c \<in> pool_used mp1. count {#a, b#} c < unat (mb_refs (pool_elts mp1 c))"
    using cs_clear_leaks_buffers [OF e(3) \<open>ac_lru ?A \<noteq> []\<close>, of ?o "pc_cs example_store"] by blast
  with e(1,2) show ?thesis by blast
qed

theorem reachable_cache_consistent_witness:
  "\<exists>mp pc pc1 mp1 a b. pkt_cache_create (pc_cs example_store) zero_entry (\<lambda>_. zero_entry) 2 = Some (Some pc) \<and>
     pkt_cache_on_data (example_env 5) a True True PKT_CACHE_VERDICT_ERROR (pkt_cache_save_suffixes_for_prefix (name_prefix example_name) pc) mp () =
       Some (None, False, PKT_CACHE_VERDICT_STORE_DATA, pc1, mp1, ()) \<and> cache_reach pc1 mp1 {#a, b#} () \<and>
     cs_num_entries (pc_cs pc1) = 1 \<and> card {i. is_cs pc1 i} = 1"
proof -
  obtain mp a b pc pc1 mp1 where e: "refs_ok mp {#a, b#}" "pkt_cache_create (pc_cs example_store) zero_entry (\<lambda>_. zero_entry) 2 = Some (Some pc)"
    "msgbuf_get_data_expiry_time (env_junk (example_env 5)) (pool_elts mp a) \<noteq> None" "mb_name (pool_elts mp a) = example_name"
    "pkt_cache_on_data (example_env 5) a True True PKT_CACHE_VERDICT_ERROR (pkt_cache_save_suffixes_for_prefix (name_prefix example_name) pc) mp () =
       Some (None, False, PKT_CACHE_VERDICT_STORE_DATA, pc1, mp1, ())" "cs_max_size (pc_cs pc) = 2"
    "cache_ok pc1 mp1 {#a, b#} (a_cs example_name (data_entry (example_env 5) example_name a 1000) \<lparr>ac_map = Map.empty, ac_lru = [], ac_max = 2\<rparr>)"
    by (rule example_stored)
  have "cache_reach pc mp {#a, b#} ()" by (rule cache_reach.create [OF e(2) _ e(1)]) simp
  then have r: "cache_reach pc1 mp1 {#a, b#} ()"
    by (rule cache_reach.data [where m_id = a and env = "example_env 5"]) (use e in simp_all)
  obtain v where v: "repr pc1 v" "view_ok v"
    "a_cs example_name (data_entry (example_env 5) example_name a 1000) \<lparr>ac_map = Map.empty, ac_lru = [], ac_max = 2\<rparr> = abs_of v"
    using e(7) by (rule cache_okE)
  have "length (cv_lru v) = 1" using arg_cong [OF v(3), of "length \<circ> ac_lru"] by (simp add: a_cs_def abs_of_def)
  then have "cs_num_entries (pc_cs pc1) = 1" using v(1) view_okD(1) [OF v(2)] by (simp add: repr_def cs_view_ok_def)
  with reachable_cache_consistent [OF r] r e(2,5) show ?thesis by force
qed

lemma store_zero:
  assumes r: "repr pc v" and e: "cv_entries v i = Some e0" and l: "cv_max v = 0" "cv_lru v = []" "cv_num v = 0"
  shows "pkt_cache_store env i m pc mp = None"
proof (cases "do { b \<leftarrow> msgbuf_pool_at mp m; msgbuf_get_data_expiry_time (env_junk env) b }")
  case None
  then show ?thesis by (auto simp: pkt_cache_store_def bind_eq_None_conv)
next
  case (Some x)
  let ?d = "data_entry env (pe_name e0) m x"
  let ?f = "\<lambda>e. e\<lparr>pe_u := U_cs \<lparr>ce_msgbuf_id = m, ce_prev = None, ce_next = None\<rparr>,
         pe_create_ts := env_now env, pe_expire_ts := env_now env + ucast x,
         pe_has_expire_ts := True, pe_type := PKT_CACHE_CS_TYPE\<rparr>"
  have i: "i \<notin> set (cv_lru v)" using l by simp
  have r1: "repr (entry_upd i ?f pc) (v\<lparr>cv_entries := (cv_entries v)(i \<mapsto> ?d)\<rparr>)"
  proof (rule repr_upd [OF r e i])
    fix e' assume "strip_links e' = e0"
    then have "pe_name e' = pe_name e0" by auto
    then show "strip_links (?f e') = ?d" by (cases e') (simp add: data_entry_def strip_links_def)
  qed
  obtain pc2 where pc2: "num_entries_add 1 (entry_upd i ?f pc) = Some pc2" "repr pc2 (v\<lparr>cv_entries := (cv_entries v)(i \<mapsto> ?d), cv_num := 1\<rparr>)"
    using repr_num [OF r1, of 1] l by auto
  then have t: "lru_tail (pc_cs pc2) = None" "lru_list pc2 []" "cs_is_full (pc_cs pc2)" using l by (auto simp: repr_def lru_list_def cs_is_full_def)
  obtain e' c' where "pkt_cache_entry_at pc2 i = Some e'" "pe_type e' = PKT_CACHE_CS_TYPE" "pe_u e' = U_cs c'"
    using repr_cs_entry [OF pc2(2), of i ?d] by auto
  then have "cs_entry_at pc2 i = Some c'" by (simp add: cs_entry_at_def)
  from cs_lru_add_list [OF t(2) _ this, of False] t(3)
  obtain pc3 where "cs_lru_add_entry pc2 i = Some (LRU_EVICTION, pc3)" by (auto simp: cs_lru_add_entry_def)
  with pc2 t(1) Some show ?thesis by (auto simp: pkt_cache_store_def bind_eq_Some_conv)
qed

lemma add_to_cs_zero:
  assumes r: "repr pc v" and l: "cv_max v = 0" "cv_lru v = []" "cv_num v = 0"
  shows "pkt_cache_add_to_cs env m pc mp = None"
proof -
  obtain i pc1 e where a: "pkt_cache_allocate pc = Some (i, pc1)" "repr pc1 (v\<lparr>cv_entries := (cv_entries v)(i \<mapsto> e)\<rparr>)"
    using repr_allocate [OF r] by blast
  have "pkt_cache_store env i m (entry_upd i (pe_name_update (\<lambda>_. n)) pc1) mp = None" for n
  proof (rule store_zero)
    show "repr (entry_upd i (pe_name_update (\<lambda>_. n)) pc1)
      (v\<lparr>cv_entries := (cv_entries v)(i \<mapsto> e), cv_entries := (cv_entries (v\<lparr>cv_entries := (cv_entries v)(i \<mapsto> e)\<rparr>))(i \<mapsto> e\<lparr>pe_name := n\<rparr>)\<rparr>)"
      using l by (intro repr_upd [OF a(2), of i e]) (auto simp: strip_links_def)
  qed (use l in simp_all)
  then show ?thesis using a(1) by (cases "msgbuf_pool_at mp m") (auto simp: pkt_cache_add_to_cs_def bind_eq_None_conv)
qed

text \<open>C31: the size of an empty content store can be set to 0, and the next local Data packet then
  makes the cache evict an entry that does not exist.\<close>

theorem store_of_size_zero_fails:
  assumes "cache_ok pc mp H A" "ac_lru A = []" "pkt_cache_set_cs_size 0 pc = (rc, pc0)"
    "m_id \<in># H" "msgbuf_get_type (pool_elts mp m_id) = HICN_PACKET_TYPE_DATA" "ac_map A (mb_name (pool_elts mp m_id)) = None"
  shows "rc = 0 \<and> pkt_cache_on_data env m_id True True verdict0
    (pkt_cache_save_suffixes_for_prefix (name_prefix (mb_name (pool_elts mp m_id))) pc0) mp w = None"
proof -
  let ?n = "mb_name (pool_elts mp m_id)"
  obtain v where v: "repr pc v" "view_ok v" "refs_ok mp (H + held v)" "A = abs_of v" using assms(1) by (rule cache_okE)
  have l: "cv_lru v = []" "cv_num v = 0" using assms(2) v(4) view_okD(1) [OF v(2)] by (auto simp: abs_of_def cs_view_ok_def)
  have "cv_index v ?n = None"
    using assms(6) v(4) view_okD(2) [OF v(2), of ?n] by (cases "cv_index v ?n") (auto simp: abs_of_def)
  have rc: "rc = 0" and pc0: "pc0 = pc\<lparr>pc_cs := (pc_cs pc)\<lparr>cs_max_size := 0\<rparr>\<rparr>"
    using assms(3) l v(1) by (auto simp: pkt_cache_set_cs_size_def repr_def)
  have "repr pc0 (v\<lparr>cv_max := 0\<rparr>)" using v(1) unfolding pc0
    by (auto simp: repr_def lru_list_def links_def [abs_def] cs_entry_at_def pkt_cache_entry_at_def index_of_def [abs_def])
  from repr_save [OF this, of "name_prefix ?n"]
  obtain v1 where v1: "repr (pkt_cache_save_suffixes_for_prefix (name_prefix ?n) pc0) v1" "cv_max v1 = 0" "cv_lru v1 = []" "cv_num v1 = 0"
    "cv_index v1 = cv_index v" "cv_entries v1 = cv_entries v" "saved_for ?n v1"
    using l by (cases "cv_prefix v = name_prefix ?n") (auto simp: saved_for_def)
  let ?pc = "pkt_cache_save_suffixes_for_prefix (name_prefix ?n) pc0"
  have lu: "pkt_cache_lookup (env_now env) ?n ?pc = Some (PKT_CACHE_LU_NONE, None)"
    using lookup_refines [OF v1(1,7)] v1(5) \<open>cv_index v ?n = None\<close> by simp
  have "pkt_cache_add_to_cs env m_id ?pc mp = None"
    by (rule add_to_cs_zero [OF v1(1-4)])
  moreover have "msgbuf_pool_at mp m_id = Some (pool_elts mp m_id)" using refs_used [OF v(3), of m_id] assms(4) by (simp add: msgbuf_pool_at_def)
  moreover have "msgbuf_get_name (pool_elts mp m_id) = Some ?n" using assms(5) by (simp add: msgbuf_get_name_def is_interest_or_data_def)
  ultimately show ?thesis using rc lu assms(5) by (simp add: pkt_cache_on_data_def)
qed

theorem store_of_size_zero_fails_witness:
  "\<exists>mp pc m_id. pkt_cache_create (pc_cs example_store) zero_entry (\<lambda>_. zero_entry) 2 = Some (Some pc) \<and>
     fst (pkt_cache_set_cs_size 0 pc) = 0 \<and>
     pkt_cache_on_data (example_env 5) m_id True True PKT_CACHE_VERDICT_ERROR
       (pkt_cache_save_suffixes_for_prefix (name_prefix example_name) (snd (pkt_cache_set_cs_size 0 pc))) mp () = None"
proof -
  obtain mp a b where mp: "refs_ok mp {#a, b#}" "pool_elts mp a = example_msgbuf 2 3 example_name\<lparr>mb_refs := 1\<rparr>"
    using example_buffers by blast
  obtain pc where pc: "pkt_cache_create (pc_cs example_store) zero_entry (\<lambda>_. zero_entry) 2 = Some (Some pc)"
    "cache_ok pc mp {#a, b#} \<lparr>ac_map = Map.empty, ac_lru = [], ac_max = 2\<rparr>" using example_cache [OF mp(1)] by blast
  have "fst (pkt_cache_set_cs_size 0 pc) = 0 \<and> pkt_cache_on_data (example_env 5) a True True PKT_CACHE_VERDICT_ERROR
       (pkt_cache_save_suffixes_for_prefix (name_prefix example_name) (snd (pkt_cache_set_cs_size 0 pc))) mp () = None"
    using store_of_size_zero_fails [OF pc(2) _ prod.collapse [symmetric], of a "example_env 5" PKT_CACHE_VERDICT_ERROR "()"] mp(2)
    by (simp add: example_msgbuf_simps)
  with pc(1) show ?thesis by blast
qed

end
