(* ===== verification/Connection_Table.thy ===== *)
theory Connection_Table
  imports Msgbuf "HOL-Library.AList"
begin

text \<open>
  Connections, their policy tags and the connection table:
  \<open>lib/includes/hicn/{policy,face}.h\<close>, \<open>hicn-light/src/hicn/core/connection.{h,c}\<close> and
  \<open>connection_table.{h,c}\<close>.

  \<^item> A connection keeps the fields the forwarder decides by; descriptor, event, listener and
    statistics belong to the sockets.  An address is the byte list \<open>address_equals\<close> compares.
  \<^item> The table is a pool of connections and two hash tables, by name and by address pair,
    which are association lists here.  The assertion on the result of \<open>kh_put\<close> says that the
    key was not there.
\<close>

section \<open>Policy tags and states\<close>

datatype policy_tag =
    POLICY_TAG_WIRED | POLICY_TAG_WIFI | POLICY_TAG_CELLULAR | POLICY_TAG_BEST_EFFORT
  | POLICY_TAG_REALTIME | POLICY_TAG_MULTIPATH | POLICY_TAG_TRUSTED | POLICY_TAG_N

datatype policy_state =
    POLICY_STATE_NEUTRAL | POLICY_STATE_REQUIRE | POLICY_STATE_PREFER | POLICY_STATE_AVOID
  | POLICY_STATE_PROHIBIT | POLICY_STATE_N

primrec policy_tag_index :: "policy_tag \<Rightarrow> nat" where
  "policy_tag_index POLICY_TAG_WIRED = 0"
| "policy_tag_index POLICY_TAG_WIFI = 1"
| "policy_tag_index POLICY_TAG_CELLULAR = 2"
| "policy_tag_index POLICY_TAG_BEST_EFFORT = 3"
| "policy_tag_index POLICY_TAG_REALTIME = 4"
| "policy_tag_index POLICY_TAG_MULTIPATH = 5"
| "policy_tag_index POLICY_TAG_TRUSTED = 6"
| "policy_tag_index POLICY_TAG_N = 7"

definition policy_tags_add :: "u32 \<Rightarrow> policy_tag \<Rightarrow> u32" where
  "policy_tags_add tags tag = tags OR push_bit (policy_tag_index tag) 1"

definition policy_tags_remove :: "u32 \<Rightarrow> policy_tag \<Rightarrow> u32" where
  "policy_tags_remove tags tag = tags AND NOT (push_bit (policy_tag_index tag) 1)"

definition policy_tags_has :: "u32 \<Rightarrow> policy_tag \<Rightarrow> bool" where
  "policy_tags_has tags tag \<longleftrightarrow> tags AND push_bit (policy_tag_index tag) 1 \<noteq> 0"

definition policy_tags_union :: "u32 \<Rightarrow> u32 \<Rightarrow> u32" where
  "policy_tags_union tags tags_to_union =
     foldl (\<lambda>t x. t OR (if policy_tags_has tags_to_union x then push_bit (policy_tag_index x) 1 else 0)) tags
       [POLICY_TAG_WIRED, POLICY_TAG_WIFI, POLICY_TAG_CELLULAR, POLICY_TAG_BEST_EFFORT,
        POLICY_TAG_REALTIME, POLICY_TAG_MULTIPATH, POLICY_TAG_TRUSTED]"

text \<open>The policy of a prefix: the state of each tag.\<close>

type_synonym hicn_policy = "policy_tag \<Rightarrow> policy_state"

definition POLICY_EMPTY :: hicn_policy where
  "POLICY_EMPTY = (\<lambda>_. POLICY_STATE_NEUTRAL)"

section \<open>Connections\<close>

datatype face_state = FACE_STATE_UNDEFINED | FACE_STATE_DOWN | FACE_STATE_UP | FACE_STATE_N

datatype netdevice_type =
    NETDEVICE_TYPE_UNDEFINED | NETDEVICE_TYPE_LOOPBACK | NETDEVICE_TYPE_WIRED
  | NETDEVICE_TYPE_WIFI | NETDEVICE_TYPE_CELLULAR | NETDEVICE_TYPE_VPN | NETDEVICE_TYPE_MEMIF
  | NETDEVICE_TYPE_N

datatype face_type =
    FACE_TYPE_UNDEFINED | FACE_TYPE_HICN | FACE_TYPE_HICN_LISTENER | FACE_TYPE_TCP
  | FACE_TYPE_TCP_LISTENER | FACE_TYPE_UDP | FACE_TYPE_UDP_LISTENER | FACE_TYPE_N

definition face_type_is_valid :: "face_type \<Rightarrow> bool" where
  "face_type_is_valid type \<longleftrightarrow> type \<noteq> FACE_TYPE_N"

record address_pair =
  local_address :: "u8 list"
  remote_address :: "u8 list"

record connection =
  conn_id :: u32
  conn_name :: string
  conn_type :: face_type
  conn_interface_type :: netdevice_type
  conn_pair :: address_pair
  conn_local :: bool
  conn_state :: face_state
  conn_admin_state :: face_state
  conn_tags :: u32
  conn_priority :: u32

definition CONNECTION_ID_UNDEFINED :: u32 where
  "CONNECTION_ID_UNDEFINED = NOT 0"

definition connection_has_tag :: "connection \<Rightarrow> policy_tag \<Rightarrow> bool" where
  "connection_has_tag conn tag = policy_tags_has (conn_tags conn) tag"

definition strn_equal :: "nat \<Rightarrow> string \<Rightarrow> string \<Rightarrow> bool" where
  "strn_equal n s t \<longleftrightarrow> take n s = take n t"

definition connection_get_netdevice_type :: "string \<Rightarrow> netdevice_type" where
  "connection_get_netdevice_type interface_name =
     (if strn_equal 2 interface_name ''lo'' then NETDEVICE_TYPE_LOOPBACK
      else if strn_equal 3 interface_name ''eth'' \<or> strn_equal 2 interface_name ''en'' then NETDEVICE_TYPE_WIRED
      else if strn_equal 2 interface_name ''wl'' then NETDEVICE_TYPE_WIFI
      else if strn_equal 9 interface_name ''rmnet_ipa'' then NETDEVICE_TYPE_UNDEFINED
      else if strn_equal 5 interface_name ''rmnet'' \<or> strn_equal 9 interface_name ''rev_rmnet'' \<or>
              strn_equal 5 interface_name ''ccmni'' then NETDEVICE_TYPE_CELLULAR
      else NETDEVICE_TYPE_UNDEFINED)"

text \<open>\<open>io\<close> is the result of what \<open>connection_initialize\<close> asks of the system: the memory for the data of
  the protocol, the \<open>initialize\<close> of the protocol and the registration of the descriptor.  When it is
  negative, the function frees the name and the interface name of the connection before it
  returns -1.\<close>

definition connection_initialize ::
  "int \<Rightarrow> face_type \<Rightarrow> string \<Rightarrow> string \<Rightarrow> address_pair \<Rightarrow> bool \<Rightarrow> u32 \<Rightarrow> int \<times> connection" where
  "connection_initialize io type name interface_name pair loc connection_id =
     (let device = connection_get_netdevice_type interface_name
      in (if io < 0 then -1 else 0,
         \<lparr>conn_id = connection_id, conn_name = name, conn_type = type, conn_interface_type = device,
          conn_pair = pair, conn_local = loc,
          conn_state = FACE_STATE_UNDEFINED, conn_admin_state = FACE_STATE_UP,
          conn_tags = (case device of
              NETDEVICE_TYPE_WIRED \<Rightarrow> policy_tags_add 0 POLICY_TAG_WIRED
            | NETDEVICE_TYPE_WIFI \<Rightarrow> policy_tags_add 0 POLICY_TAG_WIFI
            | NETDEVICE_TYPE_CELLULAR \<Rightarrow> policy_tags_add 0 POLICY_TAG_CELLULAR
            | _ \<Rightarrow> 0),
          conn_priority = 0\<rparr>))"

section \<open>The connection table\<close>

record connection_table =
  id_by_pair :: "(address_pair \<times> u32) list"
  id_by_name :: "(string \<times> u32) list"
  connections :: "connection pool"

definition DEFAULT_CONNECTION_TABLE_SIZE :: nat where "DEFAULT_CONNECTION_TABLE_SIZE = 64"

text \<open>\<open>max_size\<close> is stored and never read: the pool is created without a bound.\<close>

definition connection_table_create :: "connection \<Rightarrow> (nat \<Rightarrow> connection) \<Rightarrow> nat \<Rightarrow> nat \<Rightarrow> connection_table option option" where
  "connection_table_create zero junk init_size max_size = do {
     let init_size = (if init_size = 0 then DEFAULT_CONNECTION_TABLE_SIZE else init_size);
     r \<leftarrow> pool_init zero junk init_size 0;
     Some (map_option (\<lambda>ph. \<lparr>id_by_pair = [], id_by_name = [], connections = ph\<rparr>) r) }"

definition connection_table_at :: "connection_table \<Rightarrow> u32 \<Rightarrow> connection option" where
  "connection_table_at table id' = pool_at (connections table) (unat id')"

definition connection_table_get_by_id :: "connection_table \<Rightarrow> u32 \<Rightarrow> connection option option" where
  "connection_table_get_by_id table id' = do {
     v \<leftarrow> pool_validate_id (connections table) (unat id');
     if v then do { c \<leftarrow> connection_table_at table id'; Some (Some c) } else Some None }"

definition kh_put_new :: "('k \<times> u32) list \<Rightarrow> 'k \<Rightarrow> u32 \<Rightarrow> ('k \<times> u32) list option" where
  "kh_put_new h k v = do { assert_that (map_of h k = None); Some (AList.update k v h) }"

definition kh_del_key :: "('k \<times> u32) list \<Rightarrow> 'k \<Rightarrow> ('k \<times> u32) list option" where
  "kh_del_key h k = do { assert_that (map_of h k \<noteq> None); Some (AList.delete k h) }"

text \<open>The key of the index by name is a copy of the name in an array of \<open>SYMBOLIC_NAME_LEN\<close>
  characters, which \<open>strcpy_s\<close> truncates.  Lookups and removals hash the name itself.\<close>

definition SYMBOLIC_NAME_LEN :: nat where "SYMBOLIC_NAME_LEN = 16"

definition strcpy_s :: "nat \<Rightarrow> string \<Rightarrow> string" where
  "strcpy_s n src = take (n - 1) src"

definition connection_table_allocate :: "connection_table \<Rightarrow> address_pair \<Rightarrow> string \<Rightarrow> (u32 \<times> connection_table) option" where
  "connection_table_allocate table pair name = do {
     (i, ph) \<leftarrow> pool_get (connections table);
     let id' = of_nat i;
     let name_copy = strcpy_s SYMBOLIC_NAME_LEN name;
     bn \<leftarrow> kh_put_new (id_by_name table) name_copy id';
     bp \<leftarrow> kh_put_new (id_by_pair table) pair id';
     assert_that (length bn = length bp);
     Some (id', table\<lparr>id_by_name := bn, id_by_pair := bp, connections := ph\<rparr>) }"

definition connection_table_deallocate :: "connection_table \<Rightarrow> u32 \<Rightarrow> connection_table option" where
  "connection_table_deallocate table id' = do {
     conn \<leftarrow> connection_table_at table id';
     bn \<leftarrow> kh_del_key (id_by_name table) (conn_name conn);
     bp \<leftarrow> kh_del_key (id_by_pair table) (conn_pair conn);
     assert_that (length bn = length bp);
     ph \<leftarrow> pool_put (connections table) (unat id');
     Some (table\<lparr>id_by_name := bn, id_by_pair := bp, connections := ph\<rparr>) }"

text \<open>Lookups return the identifier of the connection.\<close>

definition connection_table_get_by_pair :: "connection_table \<Rightarrow> address_pair \<Rightarrow> u32 option" where
  "connection_table_get_by_pair table pair = map_of (id_by_pair table) pair"

definition connection_table_get_id_by_name :: "connection_table \<Rightarrow> string \<Rightarrow> u32" where
  "connection_table_get_id_by_name table name =
     (case map_of (id_by_name table) name of None \<Rightarrow> CONNECTION_ID_UNDEFINED | Some i \<Rightarrow> i)"

definition connection_table_get_by_name :: "connection_table \<Rightarrow> string \<Rightarrow> u32 option" where
  "connection_table_get_by_name table name =
     (let conn_id = connection_table_get_id_by_name table name
      in if conn_id = CONNECTION_ID_UNDEFINED then None else Some conn_id)"

definition connection_table_remove_by_id :: "connection_table \<Rightarrow> u32 \<Rightarrow> connection_table option" where
  "connection_table_remove_by_id table id' = connection_table_deallocate table id'"

text \<open>\<open>fd\<close> is the socket of the connection, \<open>loc\<close> the result of \<open>address_is_local\<close>.  When the
  initialisation fails, the error path hashes the freed name of the connection and frees it a
  second time, hence \<open>None\<close>.  The event to the forwarder at the end concerns only MAP-Me.\<close>

definition listener_add_connection ::
  "int \<Rightarrow> int \<Rightarrow> connection_table \<Rightarrow> face_type \<Rightarrow> string \<Rightarrow> string \<Rightarrow> address_pair \<Rightarrow> bool \<Rightarrow> (u32 \<times> connection_table) option" where
  "listener_add_connection fd io table type name interface_name pair loc =
     (if fd < 0 then Some (CONNECTION_ID_UNDEFINED, table)
      else do {
        (id', table) \<leftarrow> connection_table_allocate table pair name;
        let (rc, conn) = connection_initialize io type name interface_name pair loc id';
        if rc < 0 then None
        else Some (id', table\<lparr>connections := pool_upd (connections table) (unat id') (\<lambda>_. conn)\<rparr>) })"

definition listener_create_connection ::
  "face_type \<Rightarrow> int \<Rightarrow> int \<Rightarrow> connection_table \<Rightarrow> string \<Rightarrow> string \<Rightarrow> address_pair \<Rightarrow> bool \<Rightarrow> (u32 \<times> connection_table) option" where
  "listener_create_connection listener_type fd io table name interface_name pair loc = do {
     assert_that (face_type_is_valid listener_type);
     (case listener_type of
        FACE_TYPE_UDP_LISTENER \<Rightarrow> listener_add_connection fd io table FACE_TYPE_UDP name interface_name pair loc
      | FACE_TYPE_TCP_LISTENER \<Rightarrow> listener_add_connection fd io table FACE_TYPE_TCP name interface_name pair loc
      | _ \<Rightarrow> Some (CONNECTION_ID_UNDEFINED, table)) }"

section \<open>Invariant\<close>

text \<open>An index of the slots \<open>U\<close> of the pool by the key \<open>f\<close> of their contents.\<close>

definition index_ok :: "nat set \<Rightarrow> (nat \<Rightarrow> 'k) \<Rightarrow> ('k \<times> u32) list \<Rightarrow> bool" where
  "index_ok U f h \<longleftrightarrow> distinct (map fst h) \<and> (\<forall>k i. map_of h k = Some i \<longleftrightarrow> unat i \<in> U \<and> f (unat i) = k)"

abbreviation name_key :: "string \<Rightarrow> string" where
  "name_key \<equiv> strcpy_s SYMBOLIC_NAME_LEN"

lemma name_key_short: "length name < SYMBOLIC_NAME_LEN \<Longrightarrow> name_key name = name"
  by (simp add: strcpy_s_def)

lemma name_key_length: "length (name_key name) < SYMBOLIC_NAME_LEN"
  by (simp add: strcpy_s_def SYMBOLIC_NAME_LEN_def)

definition connection_table_ok :: "connection_table \<Rightarrow> bool" where
  "connection_table_ok t \<longleftrightarrow> pool_inv (connections t) \<and> (\<forall>i \<in> pool_used (connections t). i < 2 ^ 32) \<and>
     index_ok (pool_used (connections t)) (\<lambda>i. name_key (conn_name (pool_elts (connections t) i))) (id_by_name t) \<and>
     index_ok (pool_used (connections t)) (\<lambda>i. conn_pair (pool_elts (connections t) i)) (id_by_pair t)"

lemma unat_of_nat_u32: "n < 2 ^ 32 \<Longrightarrow> unat (of_nat n :: u32) = n"
  by (simp add: unat_of_nat take_bit_nat_eq_self)

lemma of_nat_u32_inj: "i < 2 ^ 32 \<Longrightarrow> j < 2 ^ 32 \<Longrightarrow> (of_nat i :: u32) = of_nat j \<Longrightarrow> i = j"
  by (metis unat_of_nat_u32)

lemma unat_eq_iff_of_nat: "n < 2 ^ 32 \<Longrightarrow> unat (i :: u32) = n \<longleftrightarrow> i = of_nat n"
  by (auto simp: unat_of_nat_u32)

lemma index_ok_length:
  assumes "index_ok U f h" "\<forall>i \<in> U. i < 2 ^ 32"
  shows "length h = card U"
proof -
  have "distinct h" using assms(1) by (auto simp: index_ok_def distinct_map)
  have h: "map_of h k = Some i \<longleftrightarrow> (k, i) \<in> set h" for k i
    using assms(1) by (auto simp: index_ok_def)
  have "set h = (\<lambda>n. (f n, of_nat n)) ` U"
  proof (intro set_eqI)
    fix p :: "'a \<times> u32"
    obtain k i where p: "p = (k, i)" by (cases p)
    have "p \<in> set h \<longleftrightarrow> unat i \<in> U \<and> f (unat i) = k" using assms(1) h by (simp add: index_ok_def p)
    also have "\<dots> \<longleftrightarrow> p \<in> (\<lambda>n. (f n, of_nat n)) ` U"
      using assms(2) by (force simp: p unat_of_nat_u32 image_iff)
    finally show "p \<in> set h \<longleftrightarrow> p \<in> (\<lambda>n. (f n, of_nat n)) ` U" .
  qed
  moreover have "inj_on (\<lambda>n. (f n, of_nat n :: u32)) U"
    using assms(2) by (intro inj_onI) (simp add: of_nat_u32_inj)
  ultimately show ?thesis using \<open>distinct h\<close> by (simp add: card_image distinct_card [symmetric])
qed

lemma index_ok_insert:
  assumes "index_ok U f h" "n \<notin> U" "n < 2 ^ 32" "map_of h k = None"
    and "\<And>i. i \<in> U \<Longrightarrow> f' i = f i" "f' n = k"
  shows "index_ok (insert n U) f' (AList.update k (of_nat n) h)"
proof -
  have "map_of (AList.update k (of_nat n) h) k' = Some i \<longleftrightarrow>
      unat i \<in> insert n U \<and> f' (unat i) = k'" for k' i
  proof (cases "unat i = n")
    case True
    then have "i = of_nat n" using assms(3) by (simp add: unat_eq_iff_of_nat)
    moreover have "map_of h k' \<noteq> Some (of_nat n)"
      using assms(1,2,3) by (auto simp: index_ok_def unat_of_nat_u32)
    ultimately show ?thesis using True assms(6) by (auto simp: update_conv')
  next
    case False
    then have "i \<noteq> of_nat n" using assms(3) by (auto simp: unat_of_nat_u32)
    then show ?thesis using False assms by (auto simp: update_conv' index_ok_def)
  qed
  then show ?thesis using assms(1) by (simp add: index_ok_def distinct_update)
qed

lemma index_ok_delete:
  assumes "index_ok U f h" "n \<in> U" "n < 2 ^ 32"
  shows "index_ok (U - {n}) f (AList.delete (f n) h)"
proof -
  have idx: "map_of h k = Some i \<longleftrightarrow> unat i \<in> U \<and> f (unat i) = k" for k i
    using assms(1) by (simp add: index_ok_def)
  have "map_of h (f n) = Some (of_nat n)" using assms(2,3) idx by (simp add: unat_of_nat_u32)
  then have "f i \<noteq> f n" if "i \<in> U" "i \<noteq> n" "i < 2 ^ 32" for i
    using that assms(3) idx [of "f n" "of_nat i"] of_nat_u32_inj [of i n] by (auto simp: unat_of_nat_u32)
  moreover have "unat i < 2 ^ 32" for i :: u32 using unsigned_less [of i] by simp
  ultimately have "map_of (AList.delete (f n) h) k = Some i \<longleftrightarrow> unat i \<in> U - {n} \<and> f (unat i) = k" for k i
    using idx [of k i] by (auto simp: delete_conv')
  then show ?thesis using assms(1) by (simp add: index_ok_def distinct_delete)
qed

lemma connection_initialize_simps [simp]:
  "conn_name (snd (connection_initialize io type name ifname pair loc i)) = name"
  "conn_pair (snd (connection_initialize io type name ifname pair loc i)) = pair"
  "fst (connection_initialize io type name ifname pair loc i) < 0 \<longleftrightarrow> io < 0"
  by (simp_all add: connection_initialize_def Let_def)

lemma listener_add_connection_ok:
  assumes "connection_table_ok t" "pool_alloc_size (connections t) < 2 ^ 31"
    and "map_of (id_by_name t) (name_key name) = None" "map_of (id_by_pair t) pair = None" "0 \<le> fd" "0 \<le> io"
  obtains id' t' where "listener_add_connection fd io t type name ifname pair loc = Some (id', t')"
    "connection_table_ok t'" "unat id' \<notin> pool_used (connections t)" "id' \<noteq> CONNECTION_ID_UNDEFINED"
    "pool_used (connections t') = insert (unat id') (pool_used (connections t))"
    "pool_elts (connections t') = (pool_elts (connections t))
       (unat id' := snd (connection_initialize io type name ifname pair loc id'))"
    "map_of (id_by_name t') = (map_of (id_by_name t))(name_key name \<mapsto> id')"
    "map_of (id_by_pair t') = (map_of (id_by_pair t))(pair \<mapsto> id')"
proof -
  have inv: "pool_inv (connections t)" using assms(1) by (simp add: connection_table_ok_def)
  obtain i ph where g: "pool_get (connections t) = Some (i, ph)" "pool_inv ph" "i \<notin> pool_used (connections t)"
    "pool_used ph = insert i (pool_used (connections t))" "pool_elts ph = pool_elts (connections t)"
    "pool_alloc_size ph = (if pool_len (connections t) < pool_alloc_size (connections t)
      then pool_alloc_size (connections t) else 2 * pool_alloc_size (connections t))"
    using pool_get_fresh [OF inv] by blast
  have "i \<in> pool_used ph" using g(4) by simp
  then have "i < 2 * pool_alloc_size (connections t)" using g(6) by (simp add: pool_used_def split: if_splits)
  then have i: "i < 2 ^ 32 - 1" using assms(2) by simp
  let ?id = "of_nat i :: u32"
  have ui: "unat ?id = i" using i by (simp add: unat_of_nat_u32)
  let ?bn = "AList.update (name_key name) ?id (id_by_name t)" and ?bp = "AList.update pair ?id (id_by_pair t)"
  let ?ph = "pool_upd ph i (\<lambda>_. snd (connection_initialize io type name ifname pair loc ?id))"
  have small: "\<forall>j \<in> pool_used ?ph. j < 2 ^ 32" using assms(1) i g(4) by (auto simp: connection_table_ok_def)
  have bn: "index_ok (pool_used ?ph) (\<lambda>i. name_key (conn_name (pool_elts ?ph i))) ?bn"
    unfolding pool_upd_simps g(4)
    by (rule index_ok_insert [where f = "\<lambda>i. name_key (conn_name (pool_elts (connections t) i))"])
      (use assms g i in \<open>auto simp: connection_table_ok_def\<close>)
  have bp: "index_ok (pool_used ?ph) (\<lambda>i. conn_pair (pool_elts ?ph i)) ?bp"
    unfolding pool_upd_simps g(4)
    by (rule index_ok_insert [where f = "\<lambda>i. conn_pair (pool_elts (connections t) i)"])
      (use assms g i in \<open>auto simp: connection_table_ok_def\<close>)
  have len: "length ?bn = length ?bp"
    using index_ok_length [OF bn small] index_ok_length [OF bp small] by simp
  have "?id \<noteq> CONNECTION_ID_UNDEFINED"
  proof
    assume "?id = CONNECTION_ID_UNDEFINED"
    then have "unat ?id = unat (- 1 :: u32)" by (simp add: CONNECTION_ID_UNDEFINED_def)
    then show False using ui i by (simp add: unsigned_minus_1_eq_mask mask_eq_exp_minus_1)
  qed
  moreover have "listener_add_connection fd io t type name ifname pair loc =
      Some (?id, t\<lparr>id_by_name := ?bn, id_by_pair := ?bp, connections := ?ph\<rparr>)"
    using g(1) assms(3-6) len ui
    by (simp add: listener_add_connection_def connection_table_allocate_def kh_put_new_def assert_that_def case_prod_beta Let_def)
  moreover have "connection_table_ok (t\<lparr>id_by_name := ?bn, id_by_pair := ?bp, connections := ?ph\<rparr>)"
    using bn bp small g(2) by (simp add: connection_table_ok_def)
  ultimately show thesis using that g ui by (simp add: update_conv')
qed

lemma connection_table_deallocate_ok:
  assumes "connection_table_ok t" "unat id' \<in> pool_used (connections t)"
    and "length (conn_name (pool_elts (connections t) (unat id'))) < SYMBOLIC_NAME_LEN"
  obtains t' where "connection_table_deallocate t id' = Some t'" "connection_table_ok t'"
    "pool_used (connections t') = pool_used (connections t) - {unat id'}"
    "map_of (id_by_name t') = (map_of (id_by_name t))(conn_name (pool_elts (connections t) (unat id')) := None)"
    "map_of (id_by_pair t') = (map_of (id_by_pair t))(conn_pair (pool_elts (connections t) (unat id')) := None)"
    "pool_elts (connections t') = pool_elts (connections t)"
proof -
  let ?i = "unat id'" and ?U = "pool_used (connections t)" and ?c = "pool_elts (connections t) (unat id')"
  obtain ph where p: "pool_put (connections t) ?i = Some ph" "pool_inv ph" "pool_used ph = ?U - {?i}"
    "pool_elts ph = pool_elts (connections t)"
    using pool_put_frees [of "connections t" ?i] assms by (auto simp: connection_table_ok_def)
  let ?bn = "AList.delete (conn_name ?c) (id_by_name t)" and ?bp = "AList.delete (conn_pair ?c) (id_by_pair t)"
  have i: "?i < 2 ^ 32" using assms by (auto simp: connection_table_ok_def)
  have small: "\<forall>j \<in> ?U - {?i}. j < 2 ^ 32" using assms(1) by (auto simp: connection_table_ok_def)
  have key: "name_key (conn_name ?c) = conn_name ?c" by (rule name_key_short [OF assms(3)])
  have "index_ok ?U (\<lambda>i. name_key (conn_name (pool_elts (connections t) i))) (id_by_name t)"
    using assms(1) by (simp add: connection_table_ok_def)
  from index_ok_delete [OF this assms(2) i]
  have bn: "index_ok (?U - {?i}) (\<lambda>i. name_key (conn_name (pool_elts (connections t) i))) ?bn" by (simp add: key)
  have bp: "index_ok (?U - {?i}) (\<lambda>i. conn_pair (pool_elts (connections t) i)) ?bp"
    using index_ok_delete [OF _ assms(2) i] assms(1) by (fastforce simp: connection_table_ok_def)
  have len: "length ?bn = length ?bp"
    using index_ok_length [OF bn small] index_ok_length [OF bp small] by simp
  have "map_of (id_by_name t) (name_key (conn_name ?c)) \<noteq> None" "map_of (id_by_pair t) (conn_pair ?c) \<noteq> None"
    using assms(1,2) unfolding connection_table_ok_def index_ok_def by (metis option.distinct(1))+
  then have "connection_table_deallocate t id' = Some (t\<lparr>id_by_name := ?bn, id_by_pair := ?bp, connections := ph\<rparr>)"
    using assms(2) len p(1)
    by (simp add: key connection_table_deallocate_def connection_table_at_def kh_del_key_def assert_that_def)
  moreover have "connection_table_ok (t\<lparr>id_by_name := ?bn, id_by_pair := ?bp, connections := ph\<rparr>)"
    using bn bp small p by (simp add: connection_table_ok_def)
  ultimately show thesis using that p(3,4) by (simp add: delete_conv')
qed

section \<open>Properties\<close>

lemma connection_table_get_by_id_used:
  "connection_table_ok t \<Longrightarrow> connection_table_get_by_id t i =
     Some (if unat i \<in> pool_used (connections t) then Some (pool_elts (connections t) (unat i)) else None)"
  by (simp add: connection_table_get_by_id_def connection_table_ok_def pool_validate_id_used connection_table_at_def)

lemma connection_table_get_by_name_map:
  "CONNECTION_ID_UNDEFINED \<notin> ran (map_of (id_by_name t)) \<Longrightarrow>
     connection_table_get_by_name t n = map_of (id_by_name t) n"
  by (auto simp: connection_table_get_by_name_def connection_table_get_id_by_name_def Let_def ran_def
      split: option.split)

definition zero_connection :: connection where
  "zero_connection = \<lparr>conn_id = 0, conn_name = [], conn_type = FACE_TYPE_UNDEFINED, conn_interface_type = NETDEVICE_TYPE_UNDEFINED,
     conn_pair = \<lparr>local_address = [], remote_address = []\<rparr>, conn_local = False,
     conn_state = FACE_STATE_UNDEFINED, conn_admin_state = FACE_STATE_UNDEFINED, conn_tags = 0, conn_priority = 0\<rparr>"

lemma connection_table_create_ok:
  obtains t where "connection_table_create zero junk 64 m = Some (Some t)" "connection_table_ok t"
    "id_by_name t = []" "id_by_pair t = []" "pool_used (connections t) = {}" "pool_alloc_size (connections t) = 64"
proof -
  obtain ph where ph: "pool_init zero junk 64 0 = Some (Some ph)" "pool_inv ph" "pool_used ph = {}"
    using pool_init_inv [of 64 zero junk] by auto
  have sz: "pool_alloc_size ph = 64" using pool_init_correct [of zero junk 64] ph(1) by (simp add: next_pow2_def bit_length.simps)
  let ?t = "\<lparr>id_by_pair = [], id_by_name = [], connections = ph\<rparr>"
  have "connection_table_create zero junk 64 m = Some (Some ?t)"
    using ph(1) by (simp add: connection_table_create_def)
  moreover have "connection_table_ok ?t" using ph by (simp add: connection_table_ok_def index_ok_def)
  ultimately show thesis using that ph(3) sz by simp
qed

definition connection_type_of :: "face_type \<Rightarrow> face_type" where
  "connection_type_of listener_type = (if listener_type = FACE_TYPE_UDP_LISTENER then FACE_TYPE_UDP else FACE_TYPE_TCP)"

lemma listener_creates:
  "listener_type \<in> {FACE_TYPE_UDP_LISTENER, FACE_TYPE_TCP_LISTENER} \<Longrightarrow>
   listener_create_connection listener_type fd io t name ifname pair loc =
     listener_add_connection fd io t (connection_type_of listener_type) name ifname pair loc"
  by (auto simp: listener_create_connection_def face_type_is_valid_def assert_that_def connection_type_of_def)

lemma index_by_name_short:
  assumes "connection_table_ok t" "SYMBOLIC_NAME_LEN \<le> length name"
  shows "map_of (id_by_name t) name = None"
proof (rule ccontr)
  assume "map_of (id_by_name t) name \<noteq> None"
  then obtain i where "map_of (id_by_name t) name = Some i" by blast
  then have "name = name_key (conn_name (pool_elts (connections t) (unat i)))"
    using assms(1) by (auto simp: connection_table_ok_def index_ok_def)
  then show False using name_key_length assms(2) by (metis not_le)
qed

text \<open>C23: a UDP or TCP listener creates a connection with a name of at most 15 characters and an
  address pair, neither of them in use, once the socket and the initialisation succeed.  The
  connection gets an identifier that was not in use, under which the table then holds it; it is
  found by its name and by its pair, every other connection is found as before, and removing it
  restores every lookup by name, by pair and by identifier.  The table stays consistent
  throughout: every connection is in both indices, and nothing else is.\<close>

theorem connection_table_roundtrip:
  assumes "connection_table_ok t" "pool_alloc_size (connections t) < 2 ^ 31"
    and "connection_table_get_id_by_name t name = CONNECTION_ID_UNDEFINED" "length name < SYMBOLIC_NAME_LEN"
    and "CONNECTION_ID_UNDEFINED \<notin> ran (map_of (id_by_name t))"
    and "connection_table_get_by_pair t pair = None"
    and "listener_type \<in> {FACE_TYPE_UDP_LISTENER, FACE_TYPE_TCP_LISTENER}" "0 \<le> fd" "0 \<le> io"
  shows "\<exists>i t1 t2. listener_create_connection listener_type fd io t name ifname pair loc = Some (i, t1) \<and>
    connection_table_ok t1 \<and> connection_table_get_by_id t i = Some None \<and>
    connection_table_get_by_id t1 i = Some (Some (snd (connection_initialize io (connection_type_of listener_type) name ifname pair loc i))) \<and>
    (\<forall>n. connection_table_get_by_name t1 n = (if n = name then Some i else connection_table_get_by_name t n)) \<and>
    (\<forall>p. connection_table_get_by_pair t1 p = (if p = pair then Some i else connection_table_get_by_pair t p)) \<and>
    (\<forall>j. j \<noteq> i \<longrightarrow> connection_table_get_by_id t1 j = connection_table_get_by_id t j) \<and>
    connection_table_remove_by_id t1 i = Some t2 \<and> connection_table_ok t2 \<and>
    (\<forall>n. connection_table_get_by_name t2 n = connection_table_get_by_name t n) \<and>
    (\<forall>p. connection_table_get_by_pair t2 p = connection_table_get_by_pair t p) \<and>
    (\<forall>j. connection_table_get_by_id t2 j = connection_table_get_by_id t j)"
proof -
  note key = name_key_short [OF assms(4)]
  have free: "map_of (id_by_name t) (name_key name) = None" "map_of (id_by_pair t) pair = None"
    using assms(3,5,6) by (auto simp: key connection_table_get_id_by_name_def connection_table_get_by_pair_def ran_def
        split: option.splits)
  let ?type = "connection_type_of listener_type"
  obtain i t1 where t1: "listener_add_connection fd io t ?type name ifname pair loc = Some (i, t1)"
    "connection_table_ok t1" "unat i \<notin> pool_used (connections t)" "i \<noteq> CONNECTION_ID_UNDEFINED"
    "pool_used (connections t1) = insert (unat i) (pool_used (connections t))"
    "pool_elts (connections t1) = (pool_elts (connections t))
       (unat i := snd (connection_initialize io ?type name ifname pair loc i))"
    "map_of (id_by_name t1) = (map_of (id_by_name t))(name \<mapsto> i)"
    "map_of (id_by_pair t1) = (map_of (id_by_pair t))(pair \<mapsto> i)"
    using listener_add_connection_ok [OF assms(1,2) free assms(8,9)] key by metis
  have in1: "unat i \<in> pool_used (connections t1)" by (simp add: t1(5))
  obtain t2 where t2: "connection_table_deallocate t1 i = Some t2" "connection_table_ok t2"
    "map_of (id_by_name t2) = (map_of (id_by_name t1))(conn_name (pool_elts (connections t1) (unat i)) := None)"
    "map_of (id_by_pair t2) = (map_of (id_by_pair t1))(conn_pair (pool_elts (connections t1) (unat i)) := None)"
    "pool_used (connections t2) = pool_used (connections t1) - {unat i}" "pool_elts (connections t2) = pool_elts (connections t1)"
    using connection_table_deallocate_ok [OF t1(2) in1] assms(4) by (auto simp: t1(6))
  have restored: "map_of (id_by_name t2) = map_of (id_by_name t)" "map_of (id_by_pair t2) = map_of (id_by_pair t)"
      "pool_used (connections t2) = pool_used (connections t)"
    using t2(3-5) free t1(3) by (simp_all add: t1(5-8) key fun_upd_idem)
  have ran1: "CONNECTION_ID_UNDEFINED \<notin> ran (map_of (id_by_name t1))"
    using assms(5) t1(4) by (auto simp: t1(7) ran_def)
  have ran2: "CONNECTION_ID_UNDEFINED \<notin> ran (map_of (id_by_name t2))" using assms(5) by (simp add: restored)
  note byname = connection_table_get_by_name_map [OF assms(5)] connection_table_get_by_name_map [OF ran1]
    connection_table_get_by_name_map [OF ran2]
  note byid = connection_table_get_by_id_used [OF assms(1)] connection_table_get_by_id_used [OF t1(2)]
    connection_table_get_by_id_used [OF t2(2)]
  have "connection_table_get_by_id t2 j = connection_table_get_by_id t j" for j
    using t1(3) by (auto simp: byid restored t2(6) t1(6))
  then show ?thesis
    using t1(1-4) t2(1,2)
    by (intro exI [of _ i] exI [of _ t1] exI [of _ t2])
      (simp add: listener_creates [OF assms(7)] byname connection_table_get_by_pair_def t1(5-8) restored connection_table_remove_by_id_def byid word_unat_eq_iff)
qed

theorem connection_table_roundtrip_witness:
  "\<exists>t i t1 t2. connection_table_create zero_connection (\<lambda>_. zero_connection) 64 0 = Some (Some t) \<and>
     listener_create_connection FACE_TYPE_UDP_LISTENER 7 0 t ''udp0'' ''eth0'' \<lparr>local_address = [127], remote_address = [10]\<rparr> False = Some (i, t1) \<and>
     connection_table_get_by_name t1 ''udp0'' = Some i \<and>
     connection_table_remove_by_id t1 i = Some t2 \<and> connection_table_get_by_name t2 ''udp0'' = None"
proof -
  obtain t where t: "connection_table_create zero_connection (\<lambda>_. zero_connection) 64 0 = Some (Some t)"
    "connection_table_ok t" "id_by_name t = []" "id_by_pair t = []" "pool_alloc_size (connections t) = 64"
    using connection_table_create_ok by blast
  then have e: "connection_table_get_id_by_name t ''udp0'' = CONNECTION_ID_UNDEFINED"
    "connection_table_get_by_pair t \<lparr>local_address = [127], remote_address = [10]\<rparr> = None"
    "CONNECTION_ID_UNDEFINED \<notin> ran (map_of (id_by_name t))" "pool_alloc_size (connections t) < 2 ^ 31"
    "length ''udp0'' < SYMBOLIC_NAME_LEN"
    "connection_table_get_by_name t ''udp0'' = None"
    by (simp_all add: connection_table_get_id_by_name_def connection_table_get_by_pair_def SYMBOLIC_NAME_LEN_def
        connection_table_get_by_name_def)
  from connection_table_roundtrip [OF t(2) e(4,1,5,3,2), of FACE_TYPE_UDP_LISTENER 7 0 "''eth0''" False]
  obtain i t1 t2 where "listener_create_connection FACE_TYPE_UDP_LISTENER 7 0 t ''udp0'' ''eth0''
      \<lparr>local_address = [127], remote_address = [10]\<rparr> False = Some (i, t1)"
    "\<forall>n. connection_table_get_by_name t1 n = (if n = ''udp0'' then Some i else connection_table_get_by_name t n)"
    "connection_table_remove_by_id t1 i = Some t2"
    "\<forall>n. connection_table_get_by_name t2 n = connection_table_get_by_name t n"
    by auto
  with t(1) e(6) show ?thesis by auto
qed

text \<open>C39: a connection created with a name of 16 or more characters is indexed by the first 15
  of them: it is found by these and not by its name, and removing it fails on the assertion that
  its name is in the index.\<close>

theorem long_connection_name_lost:
  assumes "connection_table_ok t" "pool_alloc_size (connections t) < 2 ^ 31" "SYMBOLIC_NAME_LEN \<le> length name"
    and "connection_table_get_id_by_name t (take 15 name) = CONNECTION_ID_UNDEFINED"
    and "CONNECTION_ID_UNDEFINED \<notin> ran (map_of (id_by_name t))"
    and "connection_table_get_by_pair t pair = None"
    and "listener_type \<in> {FACE_TYPE_UDP_LISTENER, FACE_TYPE_TCP_LISTENER}" "0 \<le> fd" "0 \<le> io"
  shows "\<exists>i t1. listener_create_connection listener_type fd io t name ifname pair loc = Some (i, t1) \<and>
    connection_table_get_by_name t1 name = None \<and> connection_table_get_by_name t1 (take 15 name) = Some i \<and>
    connection_table_remove_by_id t1 i = None"
proof -
  have key: "name_key name = take 15 name" by (simp add: strcpy_s_def SYMBOLIC_NAME_LEN_def)
  have free: "map_of (id_by_name t) (name_key name) = None" "map_of (id_by_pair t) pair = None"
    using assms(4-6) by (auto simp: key connection_table_get_id_by_name_def connection_table_get_by_pair_def ran_def
        split: option.splits)
  let ?type = "connection_type_of listener_type"
  obtain i t1 where t1: "listener_add_connection fd io t ?type name ifname pair loc = Some (i, t1)"
    "connection_table_ok t1" "i \<noteq> CONNECTION_ID_UNDEFINED"
    "pool_elts (connections t1) = (pool_elts (connections t))
       (unat i := snd (connection_initialize io ?type name ifname pair loc i))"
    "map_of (id_by_name t1) = (map_of (id_by_name t))(take 15 name \<mapsto> i)"
    using listener_add_connection_ok [OF assms(1,2) free assms(8,9)] key by metis
  have none: "map_of (id_by_name t1) name = None" by (rule index_by_name_short [OF t1(2) assms(3)])
  have "CONNECTION_ID_UNDEFINED \<notin> ran (map_of (id_by_name t1))" using assms(5) t1(3) by (auto simp: t1(5) ran_def)
  from connection_table_get_by_name_map [OF this]
  have "connection_table_get_by_name t1 name = None" "connection_table_get_by_name t1 (take 15 name) = Some i"
    using none by (simp_all add: t1(5))
  moreover have "connection_table_remove_by_id t1 i = None"
    using none by (auto simp: connection_table_remove_by_id_def connection_table_deallocate_def connection_table_at_def
        kh_del_key_def assert_that_def pool_at_def t1(4) split: Option.bind_split)
  ultimately show ?thesis using t1(1) listener_creates [OF assms(7)] by auto
qed

theorem long_connection_name_lost_witness:
  "\<exists>t i t1. connection_table_create zero_connection (\<lambda>_. zero_connection) 64 0 = Some (Some t) \<and>
     listener_create_connection FACE_TYPE_UDP_LISTENER 7 0 t ''producer-to-router'' ''eth0'' \<lparr>local_address = [127], remote_address = [10]\<rparr> False = Some (i, t1) \<and>
     connection_table_get_by_name t1 ''producer-to-router'' = None \<and>
     connection_table_get_by_name t1 ''producer-to-rou'' = Some i \<and> connection_table_remove_by_id t1 i = None"
proof -
  obtain t where t: "connection_table_create zero_connection (\<lambda>_. zero_connection) 64 0 = Some (Some t)"
    "connection_table_ok t" "id_by_name t = []" "id_by_pair t = []" "pool_alloc_size (connections t) = 64"
    using connection_table_create_ok by blast
  have "\<exists>i t1. listener_create_connection FACE_TYPE_UDP_LISTENER 7 0 t ''producer-to-router'' ''eth0''
        \<lparr>local_address = [127], remote_address = [10]\<rparr> False = Some (i, t1) \<and>
      connection_table_get_by_name t1 ''producer-to-router'' = None \<and>
      connection_table_get_by_name t1 (take 15 ''producer-to-router'') = Some i \<and> connection_table_remove_by_id t1 i = None"
    by (rule long_connection_name_lost [OF t(2)])
      (simp_all add: t connection_table_get_id_by_name_def connection_table_get_by_pair_def SYMBOLIC_NAME_LEN_def)
  then show ?thesis using t(1) by simp
qed

end
