(* ===== verification/Strategy.thy ===== *)
theory Strategy
  imports Connection_Table Nexthops
begin

text \<open>
  The forwarding strategies, \<open>hicn-light/src/hicn/strategies/*.c\<close> and their dispatch
  \<open>core/strategy.{h,c}\<close>, \<open>core/strategy_vft.{h,c}\<close>: random, load balancer, replication,
  local-remote and best path, with the probe generator and the list of local prefixes.

  \<^item> The entry's state is a union of which replication uses the first word as a pointer to
    its previous next hops and best path as its best next hop; \<open>state_word\<close> keeps which of
    the two was written last.  The low half of that pointer is a parameter.
  \<^item> A next hop's state is a union too; reading it as another member than the one last
    written is the pair of parameters \<open>se_as_load_balancer\<close> and \<open>se_as_bestpath\<close>.
  \<^item> \<open>double\<close> is a real number.  \<open>rand\<close>, the clock, the transmission of a packet and MAP-Me
    are parameters; \<open>w\<close> is the state they act on.
\<close>

section \<open>Data\<close>

datatype strategy_type =
    STRATEGY_TYPE_UNDEFINED | STRATEGY_TYPE_LOADBALANCER | STRATEGY_TYPE_LOW_LATENCY
  | STRATEGY_TYPE_RANDOM | STRATEGY_TYPE_REPLICATION | STRATEGY_TYPE_BESTPATH
  | STRATEGY_TYPE_LOCAL_REMOTE | STRATEGY_TYPE_N

definition strategy_type_valid :: "strategy_type \<Rightarrow> bool" where
  "strategy_type_valid type \<longleftrightarrow> type \<noteq> STRATEGY_TYPE_UNDEFINED \<and> type \<noteq> STRATEGY_TYPE_N"

datatype probing_state = PROBING_OFF | PROBING_ON | SENT_MAX_PROBES | PROBING_ENDING | UNKWNOWN

datatype state_word = BestNexthop u32 | PrevNexthops u32 nexthops

type_synonym probe_generator = "u32 \<Rightarrow> u64 option"

record strategy_state =
  st_word :: state_word
  st_probing_time :: u64
  st_probing_state :: probing_state
  st_pg :: "probe_generator option"

record strategy_entry =
  st_forwarder :: bool
  st_type :: strategy_type
  st_local_prefixes :: "hicn_prefix list option"
  st_state :: strategy_state

definition ZERO_STRATEGY_ENTRY :: strategy_entry where
  "ZERO_STRATEGY_ENTRY = \<lparr>st_forwarder = False, st_type = STRATEGY_TYPE_UNDEFINED, st_local_prefixes = None,
     st_state = \<lparr>st_word = BestNexthop 0, st_probing_time = 0, st_probing_state = PROBING_OFF, st_pg = None\<rparr>\<rparr>"

record 'w strategy_env =
  se_now :: u64
  se_rand :: "'w \<Rightarrow> nat \<times> 'w"
  se_srand :: "'w \<Rightarrow> 'w"
  se_address :: u32
  se_table :: connection_table
  se_fib_match :: "hicn_prefix \<Rightarrow> 'w \<Rightarrow> nat option option"
  se_set_adjacencies :: "nat \<Rightarrow> nexthops \<Rightarrow> 'w \<Rightarrow> 'w option"
  se_send :: "u32 \<Rightarrow> nat \<Rightarrow> msgbuf_pool \<Rightarrow> 'w \<Rightarrow> (msgbuf_pool \<times> 'w) option"
  se_as_load_balancer :: "nexthop_strategy_state \<Rightarrow> u32 \<times> real \<times> real"
  se_as_bestpath :: "nexthop_strategy_state \<Rightarrow> u32 \<times> u32 \<times> u64"
  se_junk_name :: hicn_name

section \<open>Local prefixes\<close>

definition MAX_PREFIXES :: nat where "MAX_PREFIXES = 10"

definition contain_prefix :: "hicn_prefix list \<Rightarrow> hicn_prefix \<Rightarrow> bool" where
  "contain_prefix lps pfx \<longleftrightarrow> (\<exists>p \<in> set lps. hicn_prefix_equals p pfx)"

fun local_prefixes_add_prefixes :: "hicn_prefix list \<Rightarrow> hicn_prefix list \<Rightarrow> hicn_prefix list" where
  "local_prefixes_add_prefixes lps [] = lps"
| "local_prefixes_add_prefixes lps (p # ps) =
     (if length lps < MAX_PREFIXES
      then local_prefixes_add_prefixes (if contain_prefix lps p then lps else lps @ [p]) ps
      else lps)"

definition local_prefixes_add_prefix :: "hicn_prefix list \<Rightarrow> hicn_prefix \<Rightarrow> hicn_prefix list" where
  "local_prefixes_add_prefix lps p =
     (if MAX_PREFIXES \<le> length lps \<or> contain_prefix lps p then lps else lps @ [p])"

definition update_remote_node_paths ::
  "'w strategy_env \<Rightarrow> nexthops \<Rightarrow> bool \<Rightarrow> hicn_prefix list option \<Rightarrow> 'w \<Rightarrow> 'w option" where
  "update_remote_node_paths env nh forwarder lps w = (case lps of
     None \<Rightarrow> Some w
   | Some ps \<Rightarrow> do {
       assert_that forwarder;
       foldM (\<lambda>w p. do {
         e \<leftarrow> se_fib_match env p w;
         (case e of None \<Rightarrow> Some w | Some e \<Rightarrow> se_set_adjacencies env e nh w) }) w ps })"

section \<open>Probe generator\<close>

definition get_from_map :: "probe_generator \<Rightarrow> u32 \<Rightarrow> u64" where
  "get_from_map pg seq = (case pg seq of None \<Rightarrow> 0 | Some t \<Rightarrow> t)"

fun get_seq_number :: "nat \<Rightarrow> 'w strategy_env \<Rightarrow> probe_generator \<Rightarrow> 'w \<Rightarrow> u32 \<times> 'w" where
  "get_seq_number 0 env pg w = (0, w)"
| "get_seq_number (Suc n) env pg w =
     (let (r, w) = se_rand env w;
          seq = of_nat (r mod unat (MAX_PROBE_SUFFIX - MIN_PROBE_SUFFIX + 1)) + MIN_PROBE_SUFFIX
      in if get_from_map pg seq = 0 then (seq, w) else get_seq_number n env pg w)"

definition generate_probe ::
  "'w strategy_env \<Rightarrow> probe_generator \<Rightarrow> nat \<Rightarrow> bool \<Rightarrow> u32 \<Rightarrow> msgbuf_pool \<Rightarrow> 'w \<Rightarrow>
   (int \<times> probe_generator \<times> msgbuf_pool \<times> 'w) option" where
  "generate_probe env pg msg_id forwarder nexthop mp w = do {
     assert_that forwarder;
     conn \<leftarrow> connection_table_get_by_id (se_table env) nexthop;
     (case conn of None \<Rightarrow> Some (- 1, pg, mp, w)
      | Some _ \<Rightarrow> do {
          (probe, mp) \<leftarrow> msgbuf_pool_clone mp msg_id;
          let (seq, w) = get_seq_number 3 env pg w;
          if seq = 0 then Some (- 1, pg, mp, w)
          else do {
            p \<leftarrow> msgbuf_pool_at mp probe;
            p \<leftarrow> msgbuf_modify_suffix (se_junk_name env) seq p;
            (mp, w) \<leftarrow> se_send env nexthop probe (pool_upd mp probe (\<lambda>_. p)) w;
            mp \<leftarrow> msgbuf_pool_put mp probe;
            Some (0, pg(seq \<mapsto> se_now env), mp, w) } }) }"

section \<open>Next-hop state\<close>

definition nexthop_state_read :: "nexthops \<Rightarrow> nat \<Rightarrow> nexthop_strategy_state option" where
  "nexthop_state_read nh i = map_option state_member (read_at (nexthops_state nh) i)"

definition nexthop_state_write :: "nexthops \<Rightarrow> nat \<Rightarrow> nexthop_strategy_state \<Rightarrow> nexthops option" where
  "nexthop_state_write nh i m = do {
     s \<leftarrow> read_at (nexthops_state nh) i;
     ts \<leftarrow> write_at (nexthops_state nh) i (s\<lparr>state_member := m\<rparr>);
     Some (nh\<lparr>nexthops_state := ts\<rparr>) }"

definition load_balancer_state :: "'w strategy_env \<Rightarrow> nexthop_strategy_state \<Rightarrow> u32 \<times> real \<times> real" where
  "load_balancer_state env m =
     (case m of LoadBalancerState p avg wt \<Rightarrow> (p, avg, wt) | _ \<Rightarrow> se_as_load_balancer env m)"

definition bestpath_state :: "'w strategy_env \<Rightarrow> nexthop_strategy_state \<Rightarrow> u32 \<times> u32 \<times> u64" where
  "bestpath_state env m = (case m of BestPathState s r t \<Rightarrow> (s, r, t) | _ \<Rightarrow> se_as_bestpath env m)"

section \<open>Random\<close>

definition strategy_random_initialize :: "'w strategy_env \<Rightarrow> bool \<Rightarrow> strategy_entry \<Rightarrow> 'w \<Rightarrow> strategy_entry \<times> 'w" where
  "strategy_random_initialize env forwarder e w = (e\<lparr>st_forwarder := forwarder\<rparr>, se_srand env w)"

definition strategy_random_lookup_nexthops :: "'w strategy_env \<Rightarrow> nexthops \<Rightarrow> 'w \<Rightarrow> (nexthops \<times> 'w) option" where
  "strategy_random_lookup_nexthops env nh w =
     (if cur_elts nh = 0 then Some (nh, w)
      else if num_elts nh = 0 then None
      else do {
        let (r, w) = se_rand env w;
        (_, nh) \<leftarrow> nexthops_select nh (r mod num_elts nh);
        Some (nh, w) })"

section \<open>Load balancer\<close>

definition update_state :: "u32 \<Rightarrow> real \<Rightarrow> u32 \<times> real \<times> real" where
  "update_state p avg_pi =
     (let avg = avg_pi * (9 / 10) + (real (unat p) * 1 - 9 / 10);
          avg = (if avg < 1 / 1000 then 1 / 10 else avg)
      in (p, avg, 1 / avg))"

definition update_state_inc :: "u32 \<times> real \<times> real \<Rightarrow> nexthop_strategy_state" where
  "update_state_inc s = (case s of (p, avg, _) \<Rightarrow>
     case update_state (p + 1) avg of (p, avg, wt) \<Rightarrow> LoadBalancerState p avg wt)"

definition update_state_dec :: "u32 \<times> real \<times> real \<Rightarrow> nexthop_strategy_state" where
  "update_state_dec s = (case s of (p, avg, _) \<Rightarrow>
     case update_state (if 0 < p then p - 1 else p) avg of (p, avg, wt) \<Rightarrow> LoadBalancerState p avg wt)"

definition reset_all :: "nexthops \<Rightarrow> nexthops option" where
  "reset_all nh = do {
     r \<leftarrow> nexthops_enumerate id (\<lambda>i n nh. map_option (Inr :: nexthops \<Rightarrow> unit + nexthops)
            (nexthop_state_write nh i (LoadBalancerState 0 0 1))) nh;
     Some (case r of Inl _ \<Rightarrow> nh | Inr nh \<Rightarrow> nh) }"

definition RAND_MAX :: nat where "RAND_MAX = 2147483647"

text \<open>One round of the selection.  Its \<open>break\<close> leaves only the inner \<open>do ... while (0)\<close> of the
  macro, so that the loop goes on over the slots that are still enabled.\<close>

definition load_balancer_step ::
  "'w strategy_env \<Rightarrow> nat \<Rightarrow> u32 \<Rightarrow> nexthops \<times> real \<Rightarrow> (unit + nexthops \<times> real) option" where
  "load_balancer_step env i n = (\<lambda>(nh, distance). do {
     m \<leftarrow> nexthop_state_read nh i;
     let distance = distance - snd (snd (load_balancer_state env m));
     if distance < 0 then do {
       (_, nh) \<leftarrow> nexthops_select nh i;
       nh \<leftarrow> nexthop_state_write nh i (update_state_inc (load_balancer_state env m));
       Some (Inr (nh, distance)) }
     else Some (Inr (nh, distance)) })"

definition strategy_load_balancer_lookup_nexthops ::
  "'w strategy_env \<Rightarrow> nexthops \<Rightarrow> 'w \<Rightarrow> (nexthops \<times> 'w) option" where
  "strategy_load_balancer_lookup_nexthops env nh w =
     (if cur_elts nh = 0 then Some (nh, w)
      else do {
        r \<leftarrow> nexthops_enumerate (\<lambda>_. nh) (\<lambda>i n weights. do {
               m \<leftarrow> nexthop_state_read nh i;
               Some (Inr (weights + snd (snd (load_balancer_state env m))) :: unit + real) }) 0;
        let weights = (case r of Inl _ \<Rightarrow> 0 | Inr weights \<Rightarrow> weights);
        let (k, w) = se_rand env w;
        let distance = real k * weights / (real RAND_MAX + 1);
        r \<leftarrow> nexthops_enumerate fst (load_balancer_step env) (nh, distance);
        Some (case r of Inl _ \<Rightarrow> nh | Inr (nh, _) \<Rightarrow> nh, w) })"

definition strategy_load_balancer_on_timeout ::
  "'w strategy_env \<Rightarrow> nexthops \<Rightarrow> nexthops \<Rightarrow> nexthops option" where
  "strategy_load_balancer_on_timeout env nh timeout_nexthops = do {
     r \<leftarrow> nexthops_enumerate (\<lambda>_. timeout_nexthops) (\<lambda>_ t nh.
            nexthops_enumerate id (\<lambda>i n nh.
              if n = t then do {
                m \<leftarrow> nexthop_state_read nh i;
                nh \<leftarrow> nexthop_state_write nh i (update_state_dec (load_balancer_state env m));
                Some (Inr nh) }
              else Some (Inr nh :: unit + nexthops)) nh) nh;
     Some (case r of Inl _ \<Rightarrow> nh | Inr nh \<Rightarrow> nh) }"

section \<open>Replication\<close>

definition strategy_replication_initialize :: "'w strategy_env \<Rightarrow> bool \<Rightarrow> strategy_entry \<Rightarrow> strategy_entry" where
  "strategy_replication_initialize env forwarder e =
     e\<lparr>st_forwarder := forwarder, st_state := (st_state e)\<lparr>st_word := PrevNexthops (se_address env) NEXTHOPS_EMPTY\<rparr>\<rparr>"

definition strategy_replication_lookup_nexthops ::
  "'w strategy_env \<Rightarrow> strategy_entry \<Rightarrow> nexthops \<Rightarrow> 'w \<Rightarrow> (strategy_entry \<times> 'w) option" where
  "strategy_replication_lookup_nexthops env e nh w = (case st_word (st_state e) of
     BestNexthop _ \<Rightarrow> None
   | PrevNexthops a prev \<Rightarrow> do {
       same \<leftarrow> nexthops_equal prev nh;
       if same then Some (e, w)
       else do {
         w \<leftarrow> update_remote_node_paths env nh (st_forwarder e) (st_local_prefixes e) w;
         prev \<leftarrow> nexthops_copy nh prev;
         Some (e\<lparr>st_state := (st_state e)\<lparr>st_word := PrevNexthops a prev\<rparr>\<rparr>, w) } })"

section \<open>Local-remote\<close>

definition local_remote_step ::
  "'w strategy_env \<Rightarrow> bool \<Rightarrow> nat \<Rightarrow> u32 \<Rightarrow> nexthops \<Rightarrow> (nexthops + nexthops) option" where
  "local_remote_step env in_is_local i n nh = do {
     out \<leftarrow> connection_table_get_by_id (se_table env) n;
     (case out of None \<Rightarrow> Some (Inr nh)
      | Some c \<Rightarrow>
          if conn_local c \<noteq> in_is_local then do { (_, nh) \<leftarrow> nexthops_select nh i; Some (Inl nh) }
          else Some (Inr nh)) }"

definition strategy_local_remote_lookup_nexthops ::
  "'w strategy_env \<Rightarrow> strategy_entry \<Rightarrow> nexthops \<Rightarrow> u32 \<Rightarrow> nexthops option" where
  "strategy_local_remote_lookup_nexthops env e nh cid =
     (if \<not> st_forwarder e then Some (nexthops_disable_all nh)
      else do {
        in_conn \<leftarrow> connection_table_get_by_id (se_table env) cid;
        (case in_conn of None \<Rightarrow> Some (nexthops_disable_all nh)
         | Some inc \<Rightarrow> do {
             r \<leftarrow> nexthops_enumerate id (local_remote_step env (conn_local inc)) nh;
             Some (case r of Inl nh \<Rightarrow> nh | Inr nh \<Rightarrow> nexthops_disable_all nh) }) })"

section \<open>Best path\<close>

definition MAX_PROBES :: u32 where "MAX_PROBES = 50"
definition MAX_PROBING_DURATION :: u64 where "MAX_PROBING_DURATION = 5000"
definition PROBES_WAINTING_TIME :: u64 where "PROBES_WAINTING_TIME = 500"

definition get_nexthop_cost :: "u32 \<times> u32 \<times> u64 \<Rightarrow> nat option" where
  "get_nexthop_cost s = (case s of (sent, recv, rtts) \<Rightarrow>
     if recv = 0 then Some 100
     else do {
       assert_that (recv \<le> sent);
       let rtt = real (unat rtts) / real (unat recv);
       let delay_cost = (if rtt / 300 > 1 then 1 else rtt / 300);
       let loss_rate = real (unat (sent - recv)) / real (unat sent);
       let loss_cost = (if loss_rate / (2 / 5) > 1 then 1 else loss_rate / (2 / 5));
       Some (nat \<lfloor>(delay_cost * (1 / 2) + loss_cost * (1 / 2)) * 100 + 1 / 2\<rfloor>) })"

definition best_nexthop :: "strategy_entry \<Rightarrow> u32" where
  "best_nexthop e = (case st_word (st_state e) of BestNexthop n \<Rightarrow> n | PrevNexthops a _ \<Rightarrow> a)"

definition set_best_nexthop :: "u32 \<Rightarrow> strategy_entry \<Rightarrow> strategy_entry" where
  "set_best_nexthop n e = e\<lparr>st_state := (st_state e)\<lparr>st_word := BestNexthop n\<rparr>\<rparr>"

definition set_probing_state :: "probing_state \<Rightarrow> strategy_entry \<Rightarrow> strategy_entry" where
  "set_probing_state p e = e\<lparr>st_state := (st_state e)\<lparr>st_probing_state := p\<rparr>\<rparr>"

definition set_probing_time :: "u64 \<Rightarrow> strategy_entry \<Rightarrow> strategy_entry" where
  "set_probing_time t e = e\<lparr>st_state := (st_state e)\<lparr>st_probing_time := t\<rparr>\<rparr>"

definition set_pg :: "probe_generator \<Rightarrow> strategy_entry \<Rightarrow> strategy_entry" where
  "set_pg pg e = e\<lparr>st_state := (st_state e)\<lparr>st_pg := Some pg\<rparr>\<rparr>"

text \<open>The flags of the table are saved and restored around the selection.\<close>

definition bestpath_update_remote_node ::
  "'w strategy_env \<Rightarrow> strategy_entry \<Rightarrow> nexthops \<Rightarrow> 'w \<Rightarrow> 'w option" where
  "bestpath_update_remote_node env e nh w = do {
     offset \<leftarrow> nexthops_find nh (best_nexthop e);
     (_, nh) \<leftarrow> nexthops_select nh offset;
     update_remote_node_paths env nh (st_forwarder e) (st_local_prefixes e) w }"

definition start_probing :: "'w strategy_env \<Rightarrow> strategy_entry \<Rightarrow> strategy_entry" where
  "start_probing env e =
     (if st_probing_state (st_state e) = PROBING_OFF
      then set_probing_time (se_now env) (set_probing_state PROBING_ON e) else e)"

definition stop_step :: "'w strategy_env \<Rightarrow> strategy_entry \<Rightarrow> nat \<Rightarrow> u32 \<Rightarrow> nexthops \<times> u32 \<times> u32 \<times> u32 \<Rightarrow>
    (unit + nexthops \<times> u32 \<times> u32 \<times> u32) option" where
  "stop_step env e i n = (\<lambda>(nh, best, min_cost, current). do {
     m \<leftarrow> nexthop_state_read nh i;
     cost \<leftarrow> get_nexthop_cost (bestpath_state env m);
     let (min_cost, best) = (if of_nat cost < min_cost then (of_nat cost, n) else (min_cost, best));
     let current = (if n = best_nexthop e then of_nat cost else current);
     nh \<leftarrow> nexthop_state_write nh i (BestPathState 0 0 0);
     Some (Inr (nh, best, min_cost, current)) })"

definition stop_probing ::
  "'w strategy_env \<Rightarrow> strategy_entry \<Rightarrow> nexthops \<Rightarrow> 'w \<Rightarrow> (strategy_entry \<times> nexthops \<times> 'w) option" where
  "stop_probing env e nh w = do {
     r \<leftarrow> nexthops_enumerate fst (stop_step env e) (nh, best_nexthop e, NOT 0, NOT 0);
     let (nh, best, min_cost, current) = (case r of Inl _ \<Rightarrow> (nh, 0, 0, 0) | Inr s \<Rightarrow> s);
     let e = (if best \<noteq> best_nexthop e \<and> min_cost < current then set_best_nexthop best e else e);
     w \<leftarrow> bestpath_update_remote_node env e nh w;
     _ \<leftarrow> st_pg (st_state e);
     Some (set_pg Map.empty (set_probing_state PROBING_OFF e), nh, w) }"

definition check_stop_probing ::
  "'w strategy_env \<Rightarrow> strategy_entry \<Rightarrow> nexthops \<Rightarrow> 'w \<Rightarrow> (strategy_entry \<times> nexthops \<times> 'w) option" where
  "check_stop_probing env e nh w = (case st_probing_state (st_state e) of
     PROBING_OFF \<Rightarrow> Some (e, nh, w)
   | PROBING_ON \<Rightarrow>
       Some (if MAX_PROBING_DURATION \<le> se_now env - st_probing_time (st_state e)
             then set_probing_time (se_now env) (set_probing_state PROBING_ENDING e) else e, nh, w)
   | SENT_MAX_PROBES \<Rightarrow> Some (set_probing_time (se_now env) (set_probing_state PROBING_ENDING e), nh, w)
   | PROBING_ENDING \<Rightarrow>
       if PROBES_WAINTING_TIME \<le> se_now env - st_probing_time (st_state e)
       then stop_probing env e nh w else Some (e, nh, w)
   | UNKWNOWN \<Rightarrow> Some (e, nh, w))"

definition send_step ::
  "'w strategy_env \<Rightarrow> nat \<Rightarrow> nat \<Rightarrow> u32 \<Rightarrow> nexthops \<times> strategy_entry \<times> msgbuf_pool \<times> 'w \<times> bool \<Rightarrow>
   (unit + nexthops \<times> strategy_entry \<times> msgbuf_pool \<times> 'w \<times> bool) option" where
  "send_step env msg_id i n = (\<lambda>(nh, e, mp, w, sent_max_probes). do {
     m \<leftarrow> nexthop_state_read nh i;
     let (sent, recv, rtt) = bestpath_state env m;
     if sent < MAX_PROBES then do {
       pg \<leftarrow> st_pg (st_state e);
       (res, pg, mp, w) \<leftarrow> generate_probe env pg msg_id (st_forwarder e) n mp w;
       nh \<leftarrow> (if 0 \<le> res then nexthop_state_write nh i (BestPathState (sent + 1) recv rtt) else Some nh);
       Some (Inr (nh, set_pg pg e, mp, w, sent_max_probes)) }
     else Some (Inr (nh, e, mp, w, True)) })"

definition send_probes ::
  "'w strategy_env \<Rightarrow> strategy_entry \<Rightarrow> nexthops \<Rightarrow> nat \<Rightarrow> msgbuf_pool \<Rightarrow> 'w \<Rightarrow>
   (strategy_entry \<times> nexthops \<times> msgbuf_pool \<times> 'w) option" where
  "send_probes env e nh msg_id mp w = do {
     r \<leftarrow> nexthops_enumerate fst (send_step env msg_id) (nh, e, mp, w, False);
     let (nh, e, mp, w, sent_max_probes) = (case r of Inl _ \<Rightarrow> (nh, e, mp, w, False) | Inr s \<Rightarrow> s);
     if sent_max_probes then do {
       (e, nh, w) \<leftarrow> check_stop_probing env (set_probing_state SENT_MAX_PROBES e) nh w;
       Some (e, nh, mp, w) }
     else Some (e, nh, mp, w) }"

definition init_strategy_state :: "strategy_entry \<Rightarrow> strategy_entry" where
  "init_strategy_state e = set_pg Map.empty (set_probing_state PROBING_OFF (set_best_nexthop (NOT 0) e))"

definition strategy_bestpath_initialize :: "'w strategy_env \<Rightarrow> bool \<Rightarrow> strategy_entry \<Rightarrow> 'w \<Rightarrow> strategy_entry \<times> 'w" where
  "strategy_bestpath_initialize env forwarder e w =
     (if \<not> st_forwarder e then (init_strategy_state (e\<lparr>st_forwarder := forwarder\<rparr>), se_srand env w)
      else if st_pg (st_state e) = None then (init_strategy_state e, w)
      else (start_probing env e, w))"

definition strategy_bestpath_add_nexthop :: "nexthops \<Rightarrow> nat \<Rightarrow> nexthops option" where
  "strategy_bestpath_add_nexthop nh offset = nexthop_state_write nh offset (BestPathState 0 0 0)"

definition bestpath_register ::
  "'w strategy_env \<Rightarrow> strategy_entry \<Rightarrow> nexthops \<Rightarrow> u32 \<Rightarrow> (strategy_entry \<times> nexthops) option" where
  "bestpath_register env e nh sfx =
     (if MIN_PROBE_SUFFIX \<le> sfx \<and> sfx \<le> MAX_PROBE_SUFFIX then do {
        pg \<leftarrow> st_pg (st_state e);
        Some (if get_from_map pg sfx = 0 then (set_pg (pg(sfx \<mapsto> se_now env)) e, nh)
              else (e, nh\<lparr>nexthops_flags := NOT 0, cur_elts := 0\<rparr>)) }
      else Some (e, nh))"

text \<open>Adopting a first best hop, and the choice between probing and the best hop.\<close>

definition bestpath_adopt ::
  "'w strategy_env \<Rightarrow> strategy_entry \<Rightarrow> nexthops \<Rightarrow> nat \<Rightarrow> 'w \<Rightarrow> (strategy_entry \<times> nexthops \<times> nat \<times> 'w) option" where
  "bestpath_adopt env e nh offset w =
     (if best_nexthop e = NOT 0 \<or> offset = unat INVALID_NEXTHOP then do {
        n \<leftarrow> nexthops_get_one nh;
        let e = set_best_nexthop n e;
        offset \<leftarrow> nexthops_find nh n;
        w \<leftarrow> bestpath_update_remote_node env e nh w;
        Some (start_probing env e, nexthops_reset nh, offset, w) }
      else Some (e, nh, offset, w))"

definition bestpath_forward ::
  "'w strategy_env \<Rightarrow> strategy_entry \<Rightarrow> nexthops \<Rightarrow> nat \<Rightarrow> nat \<Rightarrow> msgbuf_pool \<Rightarrow> 'w \<Rightarrow>
   (strategy_entry \<times> nexthops \<times> msgbuf_pool \<times> 'w) option" where
  "bestpath_forward env e nh offset msg_id mp w =
     (if st_probing_state (st_state e) = PROBING_ON then do {
        (e, nh, mp, w) \<leftarrow> send_probes env e nh msg_id mp w;
        m \<leftarrow> msgbuf_pool_at mp msg_id;
        name \<leftarrow> msgbuf_get_name m;
        (e, nh) \<leftarrow> bestpath_register env e nh (name_suffix name);
        Some (e, nh, mp, w) }
      else if st_probing_state (st_state e) \<noteq> PROBING_ENDING then do {
        (_, nh) \<leftarrow> nexthops_select nh offset;
        Some (e, nh, mp, w) }
      else Some (e, nh, mp, w))"

definition strategy_bestpath_lookup_nexthops ::
  "'w strategy_env \<Rightarrow> strategy_entry \<Rightarrow> nexthops \<Rightarrow> nat \<Rightarrow> msgbuf_pool \<Rightarrow> 'w \<Rightarrow>
   (strategy_entry \<times> nexthops \<times> msgbuf_pool \<times> 'w) option" where
  "strategy_bestpath_lookup_nexthops env e nh msg_id mp w =
     (if cur_elts nh = 0 then Some (e, nh, mp, w)
      else do {
        offset \<leftarrow> nexthops_find nh (best_nexthop e);
        if cur_elts nh = 1 then do {
          n \<leftarrow> nexthops_get_one nh;
          if best_nexthop e \<noteq> n then do {
            let e = set_best_nexthop n e;
            w \<leftarrow> bestpath_update_remote_node env e nh w;
            Some (e, nh, mp, w) }
          else Some (e, nh, mp, w) }
        else do {
          (e, nh, offset, w) \<leftarrow> bestpath_adopt env e nh offset w;
          bestpath_forward env e nh offset msg_id mp w } })"

text \<open>A sample for the hop at \<open>pos\<close>; a position outside the array is an out-of-range write.\<close>

definition add_rtt_sample :: "'w strategy_env \<Rightarrow> nexthops \<Rightarrow> nat \<Rightarrow> u64 \<Rightarrow> nexthops option" where
  "add_rtt_sample env nh pos rtt = do {
     m \<leftarrow> nexthop_state_read nh pos;
     let (sent, recv, rtts) = bestpath_state env m;
     nexthop_state_write nh pos (BestPathState sent (recv + 1) (rtts + rtt)) }"

definition strategy_bestpath_on_data ::
  "'w strategy_env \<Rightarrow> strategy_entry \<Rightarrow> nexthops \<Rightarrow> nexthops \<Rightarrow> msgbuf \<Rightarrow> u64 \<Rightarrow> 'w \<Rightarrow>
   (strategy_entry \<times> nexthops \<times> 'w) option" where
  "strategy_bestpath_on_data env e nh data_nexthops m pit_entry_creation w =
     (if st_probing_state (st_state e) = PROBING_OFF then Some (e, nh, w)
      else do {
        name \<leftarrow> msgbuf_get_name m;
        let seq = name_suffix name;
        if MIN_PROBE_SUFFIX \<le> seq \<and> seq \<le> MAX_PROBE_SUFFIX then do {
          pg \<leftarrow> st_pg (st_state e);
          if pit_entry_creation \<noteq> 0 then Some (set_pg (pg(seq := None)) e, nh, w)
          else if get_from_map pg seq \<noteq> 0 then do {
            let rtt = se_now env - get_from_map pg seq;
            r \<leftarrow> nexthops_enumerate (\<lambda>_. data_nexthops) (\<lambda>i n nh. do {
                   pos \<leftarrow> nexthops_find nh n;
                   nh \<leftarrow> add_rtt_sample env nh pos rtt;
                   Some (Inr nh :: unit + nexthops) }) nh;
            check_stop_probing env (set_pg (pg(seq := None)) e) (case r of Inl _ \<Rightarrow> nh | Inr nh \<Rightarrow> nh) w }
          else check_stop_probing env e nh w }
        else check_stop_probing env e nh w })"

section \<open>Dispatch\<close>

text \<open>\<open>strategy_vft\<close> has no entry for the undefined and the low-latency strategy.\<close>

definition strategy_initialize ::
  "'w strategy_env \<Rightarrow> bool \<Rightarrow> strategy_entry \<Rightarrow> 'w \<Rightarrow> (strategy_entry \<times> 'w) option" where
  "strategy_initialize env forwarder e w = (case st_type e of
     STRATEGY_TYPE_LOADBALANCER \<Rightarrow> Some (e\<lparr>st_forwarder := forwarder\<rparr>, w)
   | STRATEGY_TYPE_RANDOM \<Rightarrow> Some (strategy_random_initialize env forwarder e w)
   | STRATEGY_TYPE_LOCAL_REMOTE \<Rightarrow> Some (strategy_random_initialize env forwarder e w)
   | STRATEGY_TYPE_REPLICATION \<Rightarrow> Some (strategy_replication_initialize env forwarder e, w)
   | STRATEGY_TYPE_BESTPATH \<Rightarrow> Some (strategy_bestpath_initialize env forwarder e w)
   | _ \<Rightarrow> None)"

definition strategy_add_nexthop :: "strategy_entry \<Rightarrow> nexthops \<Rightarrow> nat \<Rightarrow> nexthops option" where
  "strategy_add_nexthop e nh offset = (case st_type e of
     STRATEGY_TYPE_LOADBALANCER \<Rightarrow> reset_all nh
   | STRATEGY_TYPE_BESTPATH \<Rightarrow> strategy_bestpath_add_nexthop nh offset
   | STRATEGY_TYPE_RANDOM \<Rightarrow> Some nh
   | STRATEGY_TYPE_LOCAL_REMOTE \<Rightarrow> Some nh
   | STRATEGY_TYPE_REPLICATION \<Rightarrow> Some nh
   | _ \<Rightarrow> None)"

definition strategy_remove_nexthop :: "strategy_entry \<Rightarrow> nexthops \<Rightarrow> nat \<Rightarrow> nexthops option" where
  "strategy_remove_nexthop e nh offset = (case st_type e of
     STRATEGY_TYPE_LOADBALANCER \<Rightarrow> reset_all nh
   | STRATEGY_TYPE_BESTPATH \<Rightarrow> Some nh
   | STRATEGY_TYPE_RANDOM \<Rightarrow> Some nh
   | STRATEGY_TYPE_LOCAL_REMOTE \<Rightarrow> Some nh
   | STRATEGY_TYPE_REPLICATION \<Rightarrow> Some nh
   | _ \<Rightarrow> None)"

definition strategy_lookup_nexthops ::
  "'w strategy_env \<Rightarrow> strategy_entry \<Rightarrow> nexthops \<Rightarrow> nat \<Rightarrow> msgbuf_pool \<Rightarrow> 'w \<Rightarrow>
   (strategy_entry \<times> nexthops \<times> msgbuf_pool \<times> 'w) option" where
  "strategy_lookup_nexthops env e nh msg_id mp w = (case st_type e of
     STRATEGY_TYPE_LOADBALANCER \<Rightarrow> do {
       (nh, w) \<leftarrow> strategy_load_balancer_lookup_nexthops env nh w; Some (e, nh, mp, w) }
   | STRATEGY_TYPE_RANDOM \<Rightarrow> do {
       (nh, w) \<leftarrow> strategy_random_lookup_nexthops env nh w; Some (e, nh, mp, w) }
   | STRATEGY_TYPE_LOCAL_REMOTE \<Rightarrow> do {
       m \<leftarrow> msgbuf_pool_at mp msg_id;
       nh \<leftarrow> strategy_local_remote_lookup_nexthops env e nh (mb_connection_id m);
       Some (e, nh, mp, w) }
   | STRATEGY_TYPE_REPLICATION \<Rightarrow> do {
       (e, w) \<leftarrow> strategy_replication_lookup_nexthops env e nh w; Some (e, nh, mp, w) }
   | STRATEGY_TYPE_BESTPATH \<Rightarrow> strategy_bestpath_lookup_nexthops env e nh msg_id mp w
   | _ \<Rightarrow> None)"

definition strategy_on_data ::
  "'w strategy_env \<Rightarrow> strategy_entry \<Rightarrow> nexthops \<Rightarrow> nexthops \<Rightarrow> msgbuf \<Rightarrow> u64 \<Rightarrow> 'w \<Rightarrow>
   (strategy_entry \<times> nexthops \<times> 'w) option" where
  "strategy_on_data env e nh data_nexthops m pit_entry_creation w = (case st_type e of
     STRATEGY_TYPE_LOADBALANCER \<Rightarrow> do {
       nh \<leftarrow> strategy_load_balancer_on_timeout env nh data_nexthops; Some (e, nh, w) }
   | STRATEGY_TYPE_BESTPATH \<Rightarrow> strategy_bestpath_on_data env e nh data_nexthops m pit_entry_creation w
   | STRATEGY_TYPE_RANDOM \<Rightarrow> Some (e, nh, w)
   | STRATEGY_TYPE_LOCAL_REMOTE \<Rightarrow> Some (e, nh, w)
   | STRATEGY_TYPE_REPLICATION \<Rightarrow> Some (e, nh, w)
   | _ \<Rightarrow> None)"

definition strategy_on_timeout ::
  "'w strategy_env \<Rightarrow> strategy_entry \<Rightarrow> nexthops \<Rightarrow> nexthops \<Rightarrow> nexthops option" where
  "strategy_on_timeout env e nh timeout_nexthops = (case st_type e of
     STRATEGY_TYPE_LOADBALANCER \<Rightarrow> strategy_load_balancer_on_timeout env nh timeout_nexthops
   | STRATEGY_TYPE_BESTPATH \<Rightarrow> Some nh
   | STRATEGY_TYPE_RANDOM \<Rightarrow> Some nh
   | STRATEGY_TYPE_LOCAL_REMOTE \<Rightarrow> Some nh
   | STRATEGY_TYPE_REPLICATION \<Rightarrow> Some nh
   | _ \<Rightarrow> None)"

end
