(* ===== verification/Strategy_Correct.thy ===== *)
theory Strategy_Correct
  imports Strategy
begin

text \<open>
  Correctness of the forwarding strategies: which hop each of them chooses, that none of them
  changes the set of hops (the contract \<open>hop_strategy\<close> between the FIB entry and its strategy), how
  a probing phase of best path ends, and where it fails.
\<close>

section \<open>Loops that select a hop\<close>

lemma nexthops_enum_hidden:
  assumes "nexthops_wf (get s)" "\<And>j. k \<le> j \<Longrightarrow> j < num_elts (get s) \<Longrightarrow> bit (nexthops_flags (get s)) j"
  shows "nexthops_enum get body [k..<MAX_NEXTHOPS] s = Some (Inr s)"
  using assms(2)
proof (induction "MAX_NEXTHOPS - k" arbitrary: k)
  case (Suc d)
  then have k: "k < MAX_NEXTHOPS" and d: "d = MAX_NEXTHOPS - Suc k" by simp_all
  show ?case
  proof (cases "num_elts (get s) \<le> k")
    case False
    with assms(1) Suc.prems [of k] have "nexthops_is_disabled (get s) k = Some True"
      by (simp add: nexthops_is_disabled_bit nexthops_wf_def)
    moreover have "nexthops_enum get body [Suc k..<MAX_NEXTHOPS] s = Some (Inr s)"
      using Suc.hyps(1) [OF d] Suc.prems by simp
    ultimately show ?thesis using False by (simp add: upt_conv_Cons [OF k])
  qed (simp add: upt_conv_Cons [OF k])
qed simp

definition selected :: "nat \<Rightarrow> nexthops \<Rightarrow> nexthops" where
  "selected i nh = nh\<lparr>nexthops_flags := NOT (2 ^ i), cur_elts := 1\<rparr>"

lemma nexthops_select_eq:
  "nexthops_wf nh \<Longrightarrow> nexthops_select nh i = (if i < num_elts nh then Some (0, selected i nh) else Some (- 1, nh))"
  by (auto simp: nexthops_select_def selected_def shift1_def nexthops_wf_def)

lemma selected_simps [simp]:
  "num_elts (selected i nh) = num_elts nh" "elts (selected i nh) = elts nh"
  "nexthops_state (selected i nh) = nexthops_state nh" "cur_elts (selected i nh) = 1"
  "nexthops_wf (selected i nh) = nexthops_wf nh"
  by (simp_all add: selected_def nexthops_wf_def)

lemma bit_selected: "j < 64 \<Longrightarrow> bit (nexthops_flags (selected i nh)) j \<longleftrightarrow> j \<noteq> i"
  by (auto simp: selected_def bit_not_iff bit_exp_iff)

lemma enabled_selected: "nexthops_wf nh \<Longrightarrow> i < num_elts nh \<Longrightarrow> enabled (selected i nh) = [(i, elts nh ! i)]"
proof -
  assume a: "nexthops_wf nh" "i < num_elts nh"
  then have "filter (\<lambda>j. \<not> bit (nexthops_flags (selected i nh)) j) [0..<num_elts nh] = filter (\<lambda>j. j = i) [0..<num_elts nh]"
    by (intro filter_cong) (auto simp: bit_selected nexthops_wf_def)
  then show ?thesis using a filter_upt_single [of i "num_elts nh"] by (simp add: enabled_from_def)
qed

section \<open>Load balancer\<close>

definition hop_weight :: "'w strategy_env \<Rightarrow> nexthops \<Rightarrow> nat \<Rightarrow> real" where
  "hop_weight env nh i = snd (snd (load_balancer_state env (state_member (nexthops_state nh ! i))))"

fun pick :: "(nat \<Rightarrow> real) \<Rightarrow> nat list \<Rightarrow> real \<Rightarrow> nat option" where
  "pick wt [] d = None"
| "pick wt (i # js) d = (if d - wt i < 0 then Some i else pick wt js (d - wt i))"

definition load_balanced :: "'w strategy_env \<Rightarrow> nat \<Rightarrow> nexthops \<Rightarrow> nexthops" where
  "load_balanced env i nh = (selected i nh)\<lparr>nexthops_state := (nexthops_state nh)[i := (nexthops_state nh ! i)
     \<lparr>state_member := update_state_inc (load_balancer_state env (state_member (nexthops_state nh ! i)))\<rparr>]\<rparr>"

lemma nexthop_state_read_eq: "nexthops_wf nh \<Longrightarrow> i < 64 \<Longrightarrow> nexthop_state_read nh i = Some (state_member (nexthops_state nh ! i))"
  by (simp add: nexthop_state_read_def read_at_def nexthops_wf_def MAX_NEXTHOPS_def)

lemma nexthop_state_write_eq:
  "nexthops_wf nh \<Longrightarrow> i < 64 \<Longrightarrow> nexthop_state_write nh i m =
     Some (nh\<lparr>nexthops_state := (nexthops_state nh)[i := (nexthops_state nh ! i)\<lparr>state_member := m\<rparr>]\<rparr>)"
  by (simp add: nexthop_state_write_def read_at_def write_at_def nexthops_wf_def MAX_NEXTHOPS_def)

lemma load_balancer_step_eq:
  assumes "nexthops_wf nh" "i < num_elts nh"
  shows "load_balancer_step env i n (nh, d) = Some (Inr
    (if d - hop_weight env nh i < 0 then load_balanced env i nh else nh, d - hop_weight env nh i))"
  using assms
  by (simp add: load_balancer_step_def nexthop_state_read_eq nexthop_state_write_eq nexthops_select_eq
      hop_weight_def load_balanced_def nexthops_wf_def Let_def)

lemma load_balanced_wf: "nexthops_wf nh \<Longrightarrow> nexthops_wf (load_balanced env i nh)"
  by (simp add: load_balanced_def nexthops_wf_def)

lemma load_balancer_loop:
  assumes "nexthops_wf nh" "k \<le> MAX_NEXTHOPS"
  shows "\<exists>d'. nexthops_enum fst (load_balancer_step env) [k..<MAX_NEXTHOPS] (nh, d) = Some (Inr
    (case pick (hop_weight env nh) (map fst (enabled_from k nh)) d of None \<Rightarrow> nh | Some i \<Rightarrow> load_balanced env i nh, d'))"
  using assms(2)
proof (induction "MAX_NEXTHOPS - k" arbitrary: k d)
  case 0
  then show ?case using assms(1) by (simp add: enabled_from_Nil nexthops_wf_def MAX_NEXTHOPS_def)
next
  case (Suc m)
  then have k: "k < MAX_NEXTHOPS" and m: "m = MAX_NEXTHOPS - Suc k" "Suc k \<le> MAX_NEXTHOPS" by simp_all
  note IH = Suc.hyps(1) [OF m]
  show ?case
  proof (cases "num_elts nh \<le> k")
    case True
    then show ?thesis by (simp add: enabled_from_Nil upt_conv_Cons [OF k])
  next
    case lt: False
    with assms(1) have dis: "nexthops_is_disabled nh k = Some (bit (nexthops_flags nh) k)"
      and rd: "read_at (elts nh) k = Some (elts nh ! k)"
      by (simp_all add: nexthops_is_disabled_bit nexthops_wf_def read_at_def MAX_NEXTHOPS_def)
    show ?thesis
    proof (cases "bit (nexthops_flags nh) k \<or> \<not> d - hop_weight env nh k < 0")
      case True
      then show ?thesis using lt dis rd IH [of d] IH [of "d - hop_weight env nh k"] assms(1)
        by (auto simp: upt_conv_Cons [OF k] enabled_from_Cons load_balancer_step_eq)
    next
      case False
      let ?nh = "load_balanced env k nh"
      have "bit (nexthops_flags ?nh) j" if "Suc k \<le> j" "j < num_elts ?nh" for j
        using that bit_selected [of j k nh] load_balanced_wf [OF assms(1), of env k]
        by (simp add: load_balanced_def nexthops_wf_def)
      then have "nexthops_enum fst (load_balancer_step env) [Suc k..<MAX_NEXTHOPS] (?nh, d - hop_weight env nh k) =
          Some (Inr (?nh, d - hop_weight env nh k))"
        by (intro nexthops_enum_hidden) (simp_all add: load_balanced_wf assms(1))
      then show ?thesis using False lt dis rd assms(1)
        by (simp add: upt_conv_Cons [OF k] enabled_from_Cons load_balancer_step_eq)
    qed
  qed
qed

lemma pick_spec:
  assumes "0 \<le> d" "d < (\<Sum>i\<leftarrow>is. wt i)"
  shows "\<exists>pre i post. is = pre @ i # post \<and> pick wt is d = Some i \<and>
    (\<Sum>j\<leftarrow>pre. wt j) \<le> d \<and> d < (\<Sum>j\<leftarrow>pre. wt j) + wt i"
  using assms
proof (induction "is" arbitrary: d)
  case (Cons a js)
  show ?case
  proof (cases "d - wt a < 0")
    case True
    then show ?thesis using Cons.prems(1) by (intro exI [of _ "[]"]) simp
  next
    case False
    then obtain pre i post where "js = pre @ i # post" "pick wt js (d - wt a) = Some i"
      "(\<Sum>j\<leftarrow>pre. wt j) \<le> d - wt a" "d - wt a < (\<Sum>j\<leftarrow>pre. wt j) + wt i"
      using Cons.IH [of "d - wt a"] Cons.prems by auto
    then show ?thesis using False by (intro exI [of _ "a # pre"] exI [of _ i] exI [of _ post]) simp
  qed
qed simp

lemma loopM_weights:
  assumes "nexthops_wf nh" "\<forall>p \<in> set ps. fst p < 64"
  shows "loopM (\<lambda>i n weights. do { m \<leftarrow> nexthop_state_read nh i;
      Some (Inr (weights + snd (snd (load_balancer_state env m))) :: unit + real) }) ps t =
    Some (Inr (t + (\<Sum>i\<leftarrow>map fst ps. hop_weight env nh i)))"
  using assms(2)
  by (induction ps arbitrary: t) (simp_all add: nexthop_state_read_eq [OF assms(1)] hop_weight_def)

lemma enabled_fst: "p \<in> set (enabled nh) \<Longrightarrow> fst p < num_elts nh"
  by (auto simp: enabled_from_def)

lemma load_balancer_lookup_eq:
  assumes "nexthops_wf nh" "cur_elts nh \<noteq> 0" "se_rand env w = (k, w')"
  shows "strategy_load_balancer_lookup_nexthops env nh w = Some
    (case pick (hop_weight env nh) (map fst (enabled nh))
       (real k * (\<Sum>i\<leftarrow>map fst (enabled nh). hop_weight env nh i) / (real RAND_MAX + 1))
     of None \<Rightarrow> nh | Some i \<Rightarrow> load_balanced env i nh, w')"
proof -
  let ?d = "real k * (\<Sum>i\<leftarrow>map fst (enabled nh). hop_weight env nh i) / (real RAND_MAX + 1)"
  have lt: "\<forall>p \<in> set (enabled nh). fst p < 64"
    using assms(1) enabled_fst [of _ nh] by (fastforce simp: nexthops_wf_def)
  obtain d' where "nexthops_enumerate fst (load_balancer_step env) (nh, ?d) = Some (Inr
    (case pick (hop_weight env nh) (map fst (enabled nh)) ?d of None \<Rightarrow> nh | Some i \<Rightarrow> load_balanced env i nh, d'))"
    using load_balancer_loop [OF assms(1), of 0 env ?d] by (auto simp: nexthops_enumerate_def)
  then show ?thesis using assms(2,3)
    unfolding strategy_load_balancer_lookup_nexthops_def nexthops_enumerate_const [OF assms(1)] loopM_weights [OF assms(1) lt]
    by simp
qed

section \<open>Best path\<close>

lemma rounded_cost_le: "d \<le> 1 \<Longrightarrow> l \<le> 1 \<Longrightarrow> nat \<lfloor>(d * (1 / 2) + l * (1 / 2)) * 100 + 1 / 2 :: real\<rfloor> \<le> 100"
  by (simp add: nat_le_iff floor_le_iff)

lemma get_nexthop_cost_le:
  assumes "get_nexthop_cost s = Some c"
  shows "c \<le> 100"
proof -
  obtain sent recv rtts where s: "s = (sent, recv, rtts)" by (cases s)
  show ?thesis
  proof (cases "recv = 0")
    case False
    let ?d = "real (unat rtts) / real (unat recv) / 300"
    let ?l = "real (unat (sent - recv)) / real (unat sent) / (2 / 5)"
    have "nat \<lfloor>((if ?d > 1 then 1 else ?d) * (1 / 2) + (if ?l > 1 then 1 else ?l) * (1 / 2)) * 100 + 1 / 2\<rfloor> = c"
      using assms False
      by (cases "recv \<le> sent") (simp_all only: s get_nexthop_cost_def prod.case if_False if_True Let_def
          assert_that_def Option.bind.simps option.inject option.distinct simp_thms)
    moreover have "(if ?d > 1 then 1 else ?d) \<le> 1" "(if ?l > 1 then 1 else ?l) \<le> 1" by auto
    ultimately show ?thesis using rounded_cost_le by metis
  qed (use assms in \<open>simp add: s get_nexthop_cost_def\<close>)
qed

definition hop_cost :: "'w strategy_env \<Rightarrow> nexthops \<Rightarrow> nat \<Rightarrow> nat option" where
  "hop_cost env nh i = get_nexthop_cost (bestpath_state env (state_member (nexthops_state nh ! i)))"

definition probes_reset :: "nat list \<Rightarrow> nexthops \<Rightarrow> nexthops" where
  "probes_reset is nh = foldl (\<lambda>nh i. nh\<lparr>nexthops_state :=
     (nexthops_state nh)[i := (nexthops_state nh ! i)\<lparr>state_member := BestPathState 0 0 0\<rparr>]\<rparr>) nh is"

lemma probes_reset_simps [simp]:
  "num_elts (probes_reset js nh) = num_elts nh" "elts (probes_reset js nh) = elts nh"
  "nexthops_flags (probes_reset js nh) = nexthops_flags nh" "cur_elts (probes_reset js nh) = cur_elts nh"
  "length (nexthops_state (probes_reset js nh)) = length (nexthops_state nh)"
  "nexthops_wf (probes_reset js nh) = nexthops_wf nh"
  "enabled_from k (probes_reset js nh) = enabled_from k nh"
  by (induction js arbitrary: nh) (simp_all add: probes_reset_def nexthops_wf_def enabled_from_def)

lemma probes_reset_other: "i \<notin> set js \<Longrightarrow> nexthops_state (probes_reset js nh) ! i = nexthops_state nh ! i"
  by (induction js arbitrary: nh) (simp_all add: probes_reset_def)

lemma probes_reset_state:
  "i \<in> set js \<Longrightarrow> i < length (nexthops_state nh) \<Longrightarrow>
     state_member (nexthops_state (probes_reset js nh) ! i) = BestPathState 0 0 0"
proof (induction js arbitrary: nh)
  case (Cons j js)
  let ?nh = "nh\<lparr>nexthops_state := (nexthops_state nh)[j := (nexthops_state nh ! j)\<lparr>state_member := BestPathState 0 0 0\<rparr>]\<rparr>"
  have "probes_reset (j # js) nh = probes_reset js ?nh" by (simp add: probes_reset_def)
  then show ?case using Cons probes_reset_other [of i js ?nh] by (cases "i \<in> set js") auto
qed simp

lemma stop_loop:
  assumes "nexthops_wf nh" "\<forall>p \<in> set ps. fst p < 64 \<and> hop_cost env nh (fst p) = Some (cost (fst p))"
    and "distinct (map fst ps)" "distinct (map snd ps)" "min_cost = NOT 0 \<or> unat min_cost \<le> 100"
  shows "\<exists>best' min_cost' current'.
    loopM (stop_step env e) ps (nh, best, min_cost, current) =
      Some (Inr (probes_reset (map fst ps) nh, best', min_cost', current')) \<and>
    (min_cost' = NOT 0 \<or> unat min_cost' \<le> 100) \<and> min_cost' \<le> min_cost \<and>
    (\<forall>p \<in> set ps. unat min_cost' \<le> cost (fst p)) \<and>
    (best' = best \<and> min_cost' = min_cost \<or> (\<exists>i. (i, best') \<in> set ps \<and> cost i = unat min_cost')) \<and>
    (current' = current \<and> best_nexthop e \<notin> snd ` set ps \<or>
     (\<exists>i. (i, best_nexthop e) \<in> set ps \<and> cost i = unat current' \<and> unat current' \<le> 100))"
  using assms
proof (induction ps arbitrary: nh best min_cost current)
  case Nil
  then show ?case by (simp add: probes_reset_def)
next
  case (Cons p ps)
  obtain i n where p: "p = (i, n)" by (cases p)
  have i: "i < 64" "hop_cost env nh i = Some (cost i)" using Cons.prems(2) by (auto simp: p)
  then have c: "cost i \<le> 100" using get_nexthop_cost_le by (auto simp: hop_cost_def)
  let ?c = "of_nat (cost i) :: u32"
  have uc: "unat ?c = cost i" using c by (simp add: unat_of_nat_u32)
  let ?nh = "probes_reset [i] nh"
  let ?min = "if ?c < min_cost then ?c else min_cost" and ?best = "if ?c < min_cost then n else best"
  let ?cur = "if n = best_nexthop e then ?c else current"
  have step: "stop_step env e i n (nh, best, min_cost, current) = Some (Inr (?nh, ?best, ?min, ?cur))"
    using i Cons.prems(1)
    by (simp add: stop_step_def nexthop_state_read_eq nexthop_state_write_eq probes_reset_def hop_cost_def)
  have "\<forall>q \<in> set ps. fst q < 64 \<and> hop_cost env ?nh (fst q) = Some (cost (fst q))"
  proof
    fix q assume "q \<in> set ps"
    moreover from this Cons.prems(3) have "fst q \<notin> set [i]" by (auto simp: p)
    ultimately show "fst q < 64 \<and> hop_cost env ?nh (fst q) = Some (cost (fst q))"
      using Cons.prems(2) probes_reset_other [of "fst q" "[i]" nh] by (simp add: hop_cost_def)
  qed
  moreover have "nexthops_wf ?nh" "distinct (map fst ps)" "distinct (map snd ps)" "?min = NOT 0 \<or> unat ?min \<le> 100"
    using Cons.prems c uc by auto
  ultimately obtain best' min_cost' current' where IH: "loopM (stop_step env e) ps (?nh, ?best, ?min, ?cur) =
      Some (Inr (probes_reset (map fst ps) ?nh, best', min_cost', current'))"
    "min_cost' = NOT 0 \<or> unat min_cost' \<le> 100" "min_cost' \<le> ?min" "\<forall>p \<in> set ps. unat min_cost' \<le> cost (fst p)"
    "best' = ?best \<and> min_cost' = ?min \<or> (\<exists>i. (i, best') \<in> set ps \<and> cost i = unat min_cost')"
    "current' = ?cur \<and> best_nexthop e \<notin> snd ` set ps \<or>
     (\<exists>i. (i, best_nexthop e) \<in> set ps \<and> cost i = unat current' \<and> unat current' \<le> 100)"
    using Cons.IH [of ?nh ?min ?best ?cur] by blast
  have "unat min_cost' \<le> cost i" using IH(3) uc by (auto simp: word_le_nat_alt word_less_nat_alt split: if_splits)
  moreover have "min_cost' \<le> min_cost" using IH(3) by (auto split: if_splits)
  moreover have "best' = best \<and> min_cost' = min_cost \<or> (\<exists>j. (j, best') \<in> set (p # ps) \<and> cost j = unat min_cost')"
    using IH(5) uc by (cases "?c < min_cost") (auto simp: p)
  moreover have "current' = current \<and> best_nexthop e \<notin> snd ` set (p # ps) \<or>
     (\<exists>i. (i, best_nexthop e) \<in> set (p # ps) \<and> cost i = unat current' \<and> unat current' \<le> 100)"
    using IH(6) uc c by (cases "n = best_nexthop e") (auto simp: p)
  ultimately show ?case using IH(1,2,4) step by (simp add: p probes_reset_def)
qed


lemma stop_step_frame: "stop_step env e i n s = Some (Inr s') \<Longrightarrow> same_from (Suc i) (fst s) (fst s')"
  by (auto simp: stop_step_def nexthop_state_write_def same_from_def write_at_def Let_def bind_eq_Some_conv
      split: prod.splits if_splits)

lemma distinct_enabled: "distinct (map fst (enabled_from k nh))"
  by (simp add: enabled_from_def comp_def distinct_filter)

lemma set_entry_simps [simp]:
  "best_nexthop (set_best_nexthop n e) = n" "best_nexthop (set_probing_state p e) = best_nexthop e"
  "best_nexthop (set_pg g e) = best_nexthop e" "best_nexthop (set_probing_time t e) = best_nexthop e"
  "st_pg (st_state (set_best_nexthop n e)) = st_pg (st_state e)"
  "st_pg (st_state (set_probing_state p e)) = st_pg (st_state e)"
  "st_pg (st_state (set_pg g e)) = Some g"
  "st_probing_state (st_state (set_probing_state p e)) = p"
  "st_probing_state (st_state (set_pg g e)) = st_probing_state (st_state e)"
  "st_probing_state (st_state (set_best_nexthop n e)) = st_probing_state (st_state e)"
  "st_forwarder (set_best_nexthop n e) = st_forwarder e" "st_local_prefixes (set_best_nexthop n e) = st_local_prefixes e"
  "st_forwarder (set_pg g e) = st_forwarder e" "st_local_prefixes (set_pg g e) = st_local_prefixes e"
  by (simp_all add: best_nexthop_def set_best_nexthop_def set_probing_state_def set_probing_time_def set_pg_def)

lemma bestpath_update_remote_node_some:
  assumes "nexthops_wf nh" "\<And>x. update_remote_node_paths env x (st_forwarder e) (st_local_prefixes e) w \<noteq> None"
  shows "\<exists>w'. bestpath_update_remote_node env e nh w = Some w'"
  using assms by (auto simp: bestpath_update_remote_node_def nexthops_find_correct nexthops_select_eq)

lemma stop_probing_picks_cheapest:
  assumes wf: "nexthops_wf nh" and ne: "enabled nh \<noteq> []" and dist: "distinct (map snd (enabled nh))"
    and cost: "\<forall>p \<in> set (enabled nh). hop_cost env nh (fst p) = Some (cost (fst p))"
    and pg: "st_pg (st_state e) \<noteq> None"
    and upd: "\<And>x. update_remote_node_paths env x (st_forwarder e) (st_local_prefixes e) w \<noteq> None"
  shows "\<exists>e' w' i. stop_probing env e nh w = Some (e', probes_reset (map fst (enabled nh)) nh, w') \<and>
    st_probing_state (st_state e') = PROBING_OFF \<and> st_pg (st_state e') = Some Map.empty \<and>
    (i, best_nexthop e') \<in> set (enabled nh) \<and> (\<forall>p \<in> set (enabled nh). cost i \<le> cost (fst p))"
proof -
  let ?ps = "enabled nh" and ?nh = "probes_reset (map fst (enabled nh)) nh"
  have lt: "\<forall>p \<in> set ?ps. fst p < 64 \<and> hop_cost env nh (fst p) = Some (cost (fst p))"
    using wf cost enabled_fst [of _ nh] by (fastforce simp: nexthops_wf_def)
  have all1: "unat (NOT 0 :: u32) = 2 ^ 32 - 1" by (simp add: unsigned_minus_1_eq_mask mask_eq_exp_minus_1)
  obtain best min_cost current where L:
    "loopM (stop_step env e) ?ps (nh, best_nexthop e, NOT 0, NOT 0) = Some (Inr (?nh, best, min_cost, current))"
    "\<forall>p \<in> set ?ps. unat min_cost \<le> cost (fst p)"
    "best = best_nexthop e \<and> min_cost = NOT 0 \<or> (\<exists>i. (i, best) \<in> set ?ps \<and> cost i = unat min_cost)"
    "current = NOT 0 \<and> best_nexthop e \<notin> snd ` set ?ps \<or>
      (\<exists>i. (i, best_nexthop e) \<in> set ?ps \<and> cost i = unat current \<and> unat current \<le> 100)"
    using stop_loop [OF wf lt distinct_enabled dist, of "NOT 0" e "best_nexthop e" "NOT 0"] by blast
  have le: "cost (fst p) \<le> 100" if "p \<in> set ?ps" for p
    using lt that get_nexthop_cost_le unfolding hop_cost_def by blast
  have "min_cost \<noteq> NOT 0"
  proof
    assume "min_cost = NOT 0"
    moreover obtain p where "p \<in> set ?ps" using ne by (cases ?ps) auto
    ultimately show False using L(2) le [of p] all1 by force
  qed
  with L(3) obtain i where i: "(i, best) \<in> set ?ps" "cost i = unat min_cost" by blast
  let ?e = "if best \<noteq> best_nexthop e \<and> min_cost < current then set_best_nexthop best e else e"
  have "st_forwarder ?e = st_forwarder e" "st_local_prefixes ?e = st_local_prefixes e" by simp_all
  with upd have "update_remote_node_paths env x (st_forwarder ?e) (st_local_prefixes ?e) w \<noteq> None" for x by simp
  then obtain w' where w': "bestpath_update_remote_node env ?e ?nh w = Some w'"
    using bestpath_update_remote_node_some [of ?nh env ?e w] wf unfolding probes_reset_simps by blast
  have run: "stop_probing env e nh w = Some (set_pg Map.empty (set_probing_state PROBING_OFF ?e), ?nh, w')"
    using L(1) w' pg nexthops_enumerate_loop [of "stop_step env e" fst "(nh, best_nexthop e, NOT 0, NOT 0)"] wf
      stop_step_frame [of env e]
    by (auto simp: stop_probing_def)
  have "\<exists>j. (j, best_nexthop ?e) \<in> set ?ps \<and> cost j = unat min_cost"
  proof (cases "best \<noteq> best_nexthop e \<and> min_cost < current")
    case False
    show ?thesis
    proof (cases "best = best_nexthop e")
      case neq: False
      then have "\<not> min_cost < current" using False by simp
      then have "current \<noteq> NOT 0" using \<open>min_cost \<noteq> NOT 0\<close> by (auto simp: not_less word_order.extremum_unique)
      then obtain j where j: "(j, best_nexthop e) \<in> set ?ps" "cost j = unat current" using L(4) by blast
      then have "unat min_cost = unat current"
        using L(2) \<open>\<not> min_cost < current\<close> by (force simp: word_less_nat_alt)
      then show ?thesis using j neq False by auto
    qed (use i in auto)
  qed (use i in auto)
  then obtain j where "(j, best_nexthop ?e) \<in> set ?ps" "cost j = unat min_cost" by blast
  with run L(2) show ?thesis by (intro exI [of _ "set_pg Map.empty (set_probing_state PROBING_OFF ?e)"] exI [of _ w'] exI [of _ j]) simp
qed

section \<open>Strategies leave the hops in place\<close>

definition same_hops :: "nexthops \<Rightarrow> nexthops \<Rightarrow> bool" where
  "same_hops a b \<longleftrightarrow> num_elts a = num_elts b \<and> elts a = elts b \<and>
     length (nexthops_state a) = length (nexthops_state b)"

lemma same_hops_refl [simp]: "same_hops a a"
  and same_hops_trans: "same_hops a b \<Longrightarrow> same_hops b c \<Longrightarrow> same_hops a c"
  and same_hops_hops: "same_hops a b \<Longrightarrow> hops b = hops a"
  and same_hops_wf: "same_hops a b \<Longrightarrow> nexthops_wf b = nexthops_wf a"
  by (simp_all add: same_hops_def hops_def nexthops_wf_def)

text \<open>The contract between the FIB and a strategy: a decision may change what is hidden and
  what is counted, never which hops there are.\<close>

locale hop_strategy =
  fixes lookup :: "'s \<Rightarrow> nexthops \<Rightarrow> ('s \<times> nexthops) option"
  assumes keeps: "lookup s nh = Some (s', nh') \<Longrightarrow> same_hops nh nh'"
begin

primrec decisions :: "nat \<Rightarrow> 's \<Rightarrow> nexthops \<Rightarrow> ('s \<times> nexthops) option" where
  "decisions 0 s nh = Some (s, nh)"
| "decisions (Suc n) s nh = do { (s, nh) \<leftarrow> lookup s nh; decisions n s nh }"

lemma decisions_keep: "decisions n s nh = Some (s', nh') \<Longrightarrow> same_hops nh nh'"
proof (induction n arbitrary: s nh)
  case (Suc n)
  then show ?case using keeps same_hops_trans by (auto simp: bind_eq_Some_conv) blast
qed simp

lemma decisions_reset:
  assumes "decisions n s nh = Some (s', nh')" "nexthops_inv nh"
  shows "nexthops_inv (nexthops_reset nh') \<and> hops (nexthops_reset nh') = hops nh"
  using decisions_keep [OF assms(1)] assms(2)
  by (simp add: same_hops_def nexthops_inv_def nexthops_wf_def hops_def nexthops_reset_def)

end

lemma nexthops_enum_invariant:
  assumes "nexthops_enum get body js s = Some r" "P s"
    and "\<And>i x s s'. P s \<Longrightarrow> body i x s = Some (Inr s') \<Longrightarrow> P s'"
    and "\<And>i x s v. P s \<Longrightarrow> body i x s = Some (Inl v) \<Longrightarrow> Q v"
  shows "case r of Inl v \<Rightarrow> Q v | Inr s' \<Rightarrow> P s'"
  using assms(1,2)
proof (induction js arbitrary: s)
  case (Cons i js)
  show ?case
  proof (cases "num_elts (get s) \<le> i")
    case False
    with Cons.prems(1) obtain d where d: "nexthops_is_disabled (get s) i = Some d"
      by (auto simp: bind_eq_Some_conv)
    show ?thesis
    proof (cases d)
      case True
      then show ?thesis using Cons False d by simp
    next
      case en: False
      with Cons.prems(1) False d obtain x q where q: "read_at (elts (get s)) i = Some x" "body i x s = Some q"
        by (auto simp: bind_eq_Some_conv)
      show ?thesis
      proof (cases q)
        case (Inl v)
        then show ?thesis using Cons.prems False d en q assms(4) [of s i x v] by auto
      next
        case (Inr s')
        then have "nexthops_enum get body js s' = Some r" "P s'"
          using Cons.prems False d en q assms(3) [of s i x s'] by auto
        then show ?thesis by (rule Cons.IH)
      qed
    qed
  qed (use Cons.prems in auto)
qed auto

lemma nexthop_state_write_same: "nexthop_state_write nh i m = Some nh' \<Longrightarrow> same_hops nh nh'"
  by (auto simp: nexthop_state_write_def write_at_def same_hops_def bind_eq_Some_conv split: if_splits)

lemma nexthops_select_same: "nexthops_select nh i = Some (r, nh') \<Longrightarrow> same_hops nh nh'"
  by (auto simp: nexthops_select_def same_hops_def bind_eq_Some_conv split: if_splits)

lemma same_hops_simps [simp]:
  "same_hops nh (nexthops_disable_all nh)" "same_hops nh (nexthops_reset nh)"
  "same_hops nh (nh\<lparr>nexthops_flags := f, cur_elts := c\<rparr>)"
  by (simp_all add: same_hops_def nexthops_disable_all_def nexthops_reset_def)

lemma load_balancer_keeps:
  assumes "strategy_load_balancer_lookup_nexthops env nh w = Some (nh', w')"
  shows "same_hops nh nh'"
proof (cases "cur_elts nh = 0")
  case False
  obtain k w1 where "se_rand env w = (k, w1)" by (cases "se_rand env w")
  then obtain d r where r: "nexthops_enumerate fst (load_balancer_step env) (nh, d) = Some r"
    "nh' = (case r of Inl _ \<Rightarrow> nh | Inr (nh, _) \<Rightarrow> nh)"
    using assms False by (auto simp: strategy_load_balancer_lookup_nexthops_def bind_eq_Some_conv)
  have "case r of Inl v \<Rightarrow> True | Inr s' \<Rightarrow> same_hops nh (fst s')"
    by (rule nexthops_enum_invariant [OF r(1) [unfolded nexthops_enumerate_def], where P = "\<lambda>s. same_hops nh (fst s)"])
      (auto simp: load_balancer_step_def bind_eq_Some_conv Let_def same_hops_def split: if_splits
        dest!: nexthop_state_write_same nexthops_select_same)
  then show ?thesis using r(2) by (auto split: sum.splits prod.splits)
qed (use assms in \<open>simp add: strategy_load_balancer_lookup_nexthops_def\<close>)

lemma local_remote_keeps:
  assumes "strategy_local_remote_lookup_nexthops env e nh c = Some nh'"
  shows "same_hops nh nh'"
proof -
  have loop: "same_hops nh (case r of Inl nh \<Rightarrow> nh | Inr nh \<Rightarrow> nexthops_disable_all nh)"
    if "nexthops_enumerate id (local_remote_step env b) nh = Some r" for b r
  proof -
    have "case r of Inl v \<Rightarrow> same_hops nh v | Inr s' \<Rightarrow> same_hops nh s'"
      by (rule nexthops_enum_invariant [OF that [unfolded nexthops_enumerate_def]])
        (auto simp: local_remote_step_def bind_eq_Some_conv same_hops_def split: if_splits option.splits
          dest!: nexthops_select_same)
    then show ?thesis by (auto split: sum.splits intro: same_hops_trans)
  qed
  show ?thesis using assms loop
    by (auto simp: strategy_local_remote_lookup_nexthops_def bind_eq_Some_conv split: if_splits option.splits)
qed

lemma stop_probing_keeps:
  assumes "stop_probing env e nh w = Some (e', nh', w')"
  shows "same_hops nh nh'"
proof -
  obtain r where r: "nexthops_enumerate fst (stop_step env e) (nh, best_nexthop e, NOT 0, NOT 0) = Some r"
    "\<And>v. r = Inl v \<Longrightarrow> nh' = nh" "\<And>s. r = Inr s \<Longrightarrow> nh' = fst s"
    using assms by (auto simp: stop_probing_def bind_eq_Some_conv Let_def split: prod.splits sum.splits)
  have "case r of Inl v \<Rightarrow> True | Inr s' \<Rightarrow> same_hops nh (fst s')"
    by (rule nexthops_enum_invariant [OF r(1) [unfolded nexthops_enumerate_def], where P = "\<lambda>s. same_hops nh (fst s)"])
      (auto simp: stop_step_def bind_eq_Some_conv Let_def same_hops_def split: if_splits
        dest!: nexthop_state_write_same)
  then show ?thesis using r(2,3) by (cases r) auto
qed

lemma check_stop_probing_keeps: "check_stop_probing env e nh w = Some (e', nh', w') \<Longrightarrow> same_hops nh nh'"
  using stop_probing_keeps by (auto simp: check_stop_probing_def split: probing_state.splits if_splits)

lemma send_step_keeps:
  assumes "send_step env msg_id i n s = Some (Inr s')"
  shows "same_hops (fst s) (fst s')"
proof -
  obtain nh e mp w b where s: "s = (nh, e, mp, w, b)" by (cases s)
  from assms obtain m where m: "nexthop_state_read nh i = Some m" by (auto simp: send_step_def s bind_eq_Some_conv)
  obtain sent recv rtt where "bestpath_state env m = (sent, recv, rtt)" by (cases "bestpath_state env m")
  with assms m show ?thesis
    by (auto simp: send_step_def s bind_eq_Some_conv split: if_splits intro: nexthop_state_write_same)
qed

lemma send_probes_keeps:
  assumes "send_probes env e nh msg_id mp w = Some (e', nh', mp', w')"
  shows "same_hops nh nh'"
proof -
  obtain r where r: "nexthops_enumerate fst (send_step env msg_id) (nh, e, mp, w, False) = Some r"
    using assms by (auto simp: send_probes_def bind_eq_Some_conv)
  have "case r of Inl v \<Rightarrow> True | Inr s' \<Rightarrow> same_hops nh (fst s')"
    by (rule nexthops_enum_invariant [OF r [unfolded nexthops_enumerate_def], where P = "\<lambda>s. same_hops nh (fst s)"])
      (auto intro: same_hops_trans send_step_keeps)
  then show ?thesis using assms r
    by (cases r) (auto simp: send_probes_def bind_eq_Some_conv same_hops_def split: if_splits
        dest!: check_stop_probing_keeps)
qed

lemma bestpath_register_keeps: "bestpath_register env e nh sfx = Some (e', nh') \<Longrightarrow> same_hops nh nh'"
  by (auto simp: bestpath_register_def bind_eq_Some_conv split: if_splits)

lemma bestpath_forward_keeps:
  assumes "bestpath_forward env e nh offset msg_id mp w = Some (e', nh', mp', w')"
  shows "same_hops nh nh'"
proof (cases "st_probing_state (st_state e) = PROBING_ON")
  case True
  then obtain e1 nh1 mp1 w1 sfx where "send_probes env e nh msg_id mp w = Some (e1, nh1, mp1, w1)"
    "bestpath_register env e1 nh1 sfx = Some (e', nh')"
    using assms by (auto simp: bestpath_forward_def bind_eq_Some_conv)
  then show ?thesis by (rule same_hops_trans [OF send_probes_keeps bestpath_register_keeps])
qed (use assms nexthops_select_same in \<open>auto simp: bestpath_forward_def bind_eq_Some_conv split: if_splits\<close>)

lemma bestpath_adopt_keeps:
  "bestpath_adopt env e nh offset w = Some (e', nh', offset', w') \<Longrightarrow> same_hops nh nh'"
  by (auto simp: bestpath_adopt_def bind_eq_Some_conv Let_def split: if_splits)

lemma bestpath_lookup_keeps:
  assumes "strategy_bestpath_lookup_nexthops env e nh msg_id mp w = Some (e', nh', mp', w')"
  shows "same_hops nh nh'"
proof (cases "cur_elts nh = 0 \<or> cur_elts nh = 1")
  case True
  then show ?thesis using assms
    by (auto simp: strategy_bestpath_lookup_nexthops_def bind_eq_Some_conv Let_def split: if_splits)
next
  case False
  then obtain offset e1 nh1 o1 w1 where "bestpath_adopt env e nh offset w = Some (e1, nh1, o1, w1)"
    "bestpath_forward env e1 nh1 o1 msg_id mp w1 = Some (e', nh', mp', w')"
    using assms by (auto simp: strategy_bestpath_lookup_nexthops_def bind_eq_Some_conv)
  then show ?thesis by (rule same_hops_trans [OF bestpath_adopt_keeps bestpath_forward_keeps])
qed

definition strategy_decision ::
  "'w strategy_env \<Rightarrow> nat \<Rightarrow> strategy_entry \<times> msgbuf_pool \<times> 'w \<Rightarrow> nexthops \<Rightarrow>
   ((strategy_entry \<times> msgbuf_pool \<times> 'w) \<times> nexthops) option" where
  "strategy_decision env msg_id s nh = (case s of (e, mp, w) \<Rightarrow>
     map_option (\<lambda>(e, nh, mp, w). ((e, mp, w), nh)) (strategy_lookup_nexthops env e nh msg_id mp w))"

lemma strategy_lookup_keeps:
  assumes "strategy_lookup_nexthops env e nh msg_id mp w = Some (e', nh', mp', w')"
  shows "same_hops nh nh'"
proof (cases "st_type e")
  case STRATEGY_TYPE_RANDOM
  then show ?thesis using assms
    by (auto simp: strategy_lookup_nexthops_def strategy_random_lookup_nexthops_def bind_eq_Some_conv
        split: if_splits prod.splits intro: nexthops_select_same)
qed (use assms in \<open>auto simp: strategy_lookup_nexthops_def bind_eq_Some_conv
  intro: load_balancer_keeps local_remote_keeps bestpath_lookup_keeps\<close>)

interpretation strat: hop_strategy "strategy_decision env msg_id"
  by unfold_locales (auto simp: strategy_decision_def intro: strategy_lookup_keeps)

section \<open>Properties\<close>

definition full_pool :: "(nat \<Rightarrow> 'a) \<Rightarrow> 'a pool" where
  "full_pool f = \<lparr>pool_alloc_size = 64, pool_max_size = 0,
     free_bitmap = \<lparr>cur_size = 1, vector_max_size = 0, cells = [0]\<rparr>,
     free_indices = \<lparr>cur_size = 0, vector_max_size = 0, cells = replicate 64 0\<rparr>, pool_elts = f\<rparr>"

definition example_strategy_env :: "u64 \<Rightarrow> nat \<Rightarrow> (nat \<Rightarrow> connection) \<Rightarrow> unit strategy_env" where
  "example_strategy_env now k conns = \<lparr>se_now = now, se_rand = (\<lambda>w. (k, w)), se_srand = id, se_address = 0,
     se_table = \<lparr>id_by_pair = [], id_by_name = [], connections = full_pool conns\<rparr>,
     se_fib_match = (\<lambda>_ _. Some None), se_set_adjacencies = (\<lambda>_ _ w. Some w), se_send = (\<lambda>_ _ mp w. Some (mp, w)),
     se_as_load_balancer = (\<lambda>_. (0, 0, 0)), se_as_bestpath = (\<lambda>_. (0, 0, 0)),
     se_junk_name = \<lparr>name_prefix = IP_ADDRESS_EMPTY, name_suffix = 0\<rparr>\<rparr>"

lemma update_state_weight_pos: "0 < snd (snd (update_state n avg))"
  by (auto simp: update_state_def Let_def)

lemma sum_list_filter_less:
  assumes "sorted_wrt (<) (pre @ i # post :: nat list)"
  shows "filter (\<lambda>j. j < i) (pre @ i # post) = pre"
  using assms by (auto simp: sorted_wrt_append filter_id_conv filter_empty_conv dest: less_asym)

lemma sum_list_map_pos: "xs \<noteq> [] \<Longrightarrow> \<forall>x \<in> set xs. 0 < f x \<Longrightarrow> 0 < (\<Sum>x\<leftarrow>xs. f x :: real)"
proof (induction xs)
  case (Cons x xs)
  then show ?case by (cases "xs = []") (auto intro: add_pos_pos)
qed simp

lemma enabled_sorted: "sorted_wrt (<) (map fst (enabled nh))"
  by (simp add: enabled_from_def comp_def sorted_wrt_filter)

text \<open>C14: the load balancer chooses exactly one of the hops that are enabled.  With positive
  weights it is the hop in whose share of the interval the random number falls: the weights of
  the enabled hops before it are at most the number scaled to the total weight, and with its own
  weight they exceed it.  Its own counters are updated, with a positive weight again, and
  those of the other hops are not.\<close>

theorem load_balancer_selects_by_weight:
  assumes "nexthops_wf nh" "cur_elts nh \<noteq> 0" "enabled nh \<noteq> []"
    and "\<forall>p \<in> set (enabled nh). 0 < hop_weight env nh (fst p)"
    and "se_rand env w = (k, w')" "k \<le> RAND_MAX"
  shows "\<exists>i n nh'. strategy_load_balancer_lookup_nexthops env nh w = Some (nh', w') \<and>
    (i, n) \<in> set (enabled nh) \<and> enabled nh' = [(i, n)] \<and> cur_elts nh' = 1 \<and>
    (let W = (\<lambda>js. \<Sum>j\<leftarrow>js. hop_weight env nh j); before = filter (\<lambda>j. j < i) (map fst (enabled nh));
         d = real k * W (map fst (enabled nh)) / (real RAND_MAX + 1)
     in W before \<le> d \<and> d < W before + hop_weight env nh i) \<and>
    0 < hop_weight env nh' i \<and> (\<forall>j. j \<noteq> i \<longrightarrow> nexthops_state nh' ! j = nexthops_state nh ! j)"
proof -
  let ?is = "map fst (enabled nh)" and ?wt = "hop_weight env nh"
  let ?W = "\<Sum>j\<leftarrow>?is. ?wt j"
  let ?d = "real k * ?W / (real RAND_MAX + 1)"
  have W: "0 < ?W" using assms(3,4) by (intro sum_list_map_pos) auto
  have "real k / (real RAND_MAX + 1) < 1" using assms(6) by simp
  then have "?d < ?W" using W mult_strict_right_mono [of "real k / (real RAND_MAX + 1)" 1 ?W] by simp
  moreover have "0 \<le> ?d" using W by simp
  ultimately obtain pre i post where pick: "?is = pre @ i # post" "pick ?wt ?is ?d = Some i"
    "(\<Sum>j\<leftarrow>pre. ?wt j) \<le> ?d" "?d < (\<Sum>j\<leftarrow>pre. ?wt j) + ?wt i"
    using pick_spec [of ?d ?wt ?is] by blast
  have before: "filter (\<lambda>j. j < i) ?is = pre"
    using sum_list_filter_less enabled_sorted [of nh] unfolding pick(1) by blast
  have "i \<in> set ?is" unfolding pick(1) by simp
  then obtain n where n: "(i, n) \<in> set (enabled nh)" by auto
  then have i: "i < num_elts nh" "n = elts nh ! i" by (auto simp: enabled_from_def)
  have i64: "i < length (nexthops_state nh)" using i(1) assms(1) by (simp add: nexthops_wf_def MAX_NEXTHOPS_def)
  let ?nh = "load_balanced env i nh"
  have "strategy_load_balancer_lookup_nexthops env nh w = Some (?nh, w')"
    using load_balancer_lookup_eq [OF assms(1,2,5)] pick(2) by simp
  moreover have "enabled ?nh = enabled (selected i nh)" by (simp add: load_balanced_def enabled_from_def)
  then have "enabled ?nh = [(i, n)]" using enabled_selected [OF assms(1) i(1)] i(2) by simp
  moreover have "cur_elts ?nh = 1" "\<forall>j. j \<noteq> i \<longrightarrow> nexthops_state ?nh ! j = nexthops_state nh ! j"
    by (simp_all add: load_balanced_def)
  moreover have "0 < hop_weight env ?nh i"
    using i64 update_state_weight_pos
    by (simp add: hop_weight_def load_balanced_def update_state_inc_def load_balancer_state_def split: prod.split)
      (metis snd_conv)
  ultimately show ?thesis using n pick(3,4) before unfolding Let_def by blast
qed

definition balanced_hops :: nexthops where
  "balanced_hops = example_hops\<lparr>nexthops_state := replicate 64 \<lparr>state_priority = 0, state_member = LoadBalancerState 0 0 1\<rparr>\<rparr>"

theorem load_balancer_selects_by_weight_witness:
  "\<exists>nh'. strategy_load_balancer_lookup_nexthops (example_strategy_env 0 1000000000 (\<lambda>_. zero_connection)) balanced_hops () =
     Some (nh', ()) \<and> enabled nh' = [(1, 7)]"
proof -
  let ?env = "example_strategy_env 0 1000000000 (\<lambda>_. zero_connection)"
  have en: "enabled balanced_hops = [(0, 5), (1, 7), (2, 9)]"
    by (simp add: balanced_hops_def example_hops_def enabled_from_def NEXTHOPS_EMPTY_def upt_rec)
  have wt: "hop_weight ?env balanced_hops i = 1" if "i < 3" for i
    using that by (simp add: hop_weight_def balanced_hops_def load_balancer_state_def)
  have wf: "nexthops_wf balanced_hops" "cur_elts balanced_hops \<noteq> 0"
    by (simp_all add: balanced_hops_def example_hops_def nexthops_wf_def NEXTHOPS_EMPTY_def MAX_NEXTHOPS_def)
  have rand: "se_rand ?env () = (1000000000, ())" "1000000000 \<le> RAND_MAX"
    by (simp_all add: example_strategy_env_def RAND_MAX_def)
  from load_balancer_selects_by_weight [OF wf(1,2) _ _ rand] en wt
  obtain i n nh' where r: "strategy_load_balancer_lookup_nexthops ?env balanced_hops () = Some (nh', ())"
    "(i, n) \<in> set (enabled balanced_hops)" "enabled nh' = [(i, n)]"
    "let W = (\<lambda>js. \<Sum>j\<leftarrow>js. hop_weight ?env balanced_hops j); before = filter (\<lambda>j. j < i) (map fst (enabled balanced_hops));
         d = real 1000000000 * W (map fst (enabled balanced_hops)) / (real RAND_MAX + 1)
     in W before \<le> d \<and> d < W before + hop_weight ?env balanced_hops i"
    by auto
  then have "i = 1 \<and> n = 7" using en wt by (auto simp: Let_def RAND_MAX_def split: if_splits)
  with r show ?thesis by blast
qed

text \<open>C15: in the ending phase of a probing, the first Data packet that does not answer a probe and
  arrives once the waiting time after the last probe is over ends the probing: the best hop becomes
  an enabled hop of least cost, the counters of the enabled hops and the pending probes are
  cleared, and no hop is hidden or disclosed by it. Interests do not end the phase, and the
  counters of hidden hops stay.\<close>

theorem bestpath_ends_probing:
  assumes "nexthops_wf nh" "enabled nh \<noteq> []" "distinct (map snd (enabled nh))"
    and "\<forall>p \<in> set (enabled nh). hop_cost env nh (fst p) = Some (cost (fst p))"
    and "st_pg (st_state e) \<noteq> None"
    and "\<forall>x. update_remote_node_paths env x (st_forwarder e) (st_local_prefixes e) w \<noteq> None"
    and "st_probing_state (st_state e) = PROBING_ENDING"
    and "PROBES_WAINTING_TIME \<le> se_now env - st_probing_time (st_state e)"
    and "is_interest_or_data m" "name_suffix (mb_name m) < MIN_PROBE_SUFFIX"
  shows "\<exists>e' nh' w' i. strategy_bestpath_on_data env e nh data_nexthops m pit_entry_creation w = Some (e', nh', w') \<and>
    st_probing_state (st_state e') = PROBING_OFF \<and> st_pg (st_state e') = Some Map.empty \<and>
    enabled nh' = enabled nh \<and> (\<forall>p \<in> set (enabled nh). state_member (nexthops_state nh' ! fst p) = BestPathState 0 0 0) \<and>
    (i, best_nexthop e') \<in> set (enabled nh) \<and> (\<forall>p \<in> set (enabled nh). cost i \<le> cost (fst p))"
proof -
  let ?nh = "probes_reset (map fst (enabled nh)) nh"
  obtain e' w' i where s: "stop_probing env e nh w = Some (e', ?nh, w')"
    "st_probing_state (st_state e') = PROBING_OFF" "st_pg (st_state e') = Some Map.empty"
    "(i, best_nexthop e') \<in> set (enabled nh)" "\<forall>p \<in> set (enabled nh). cost i \<le> cost (fst p)"
    using stop_probing_picks_cheapest [OF assms(1-5)] assms(6) by blast
  have "strategy_bestpath_on_data env e nh data_nexthops m pit_entry_creation w = Some (e', ?nh, w')"
    using s(1) assms(7-9) assms(10) [folded not_le]
    by (auto simp add: strategy_bestpath_on_data_def msgbuf_get_name_def assert_that_def check_stop_probing_def Let_def)
  moreover have "state_member (nexthops_state ?nh ! fst p) = BestPathState 0 0 0" if "p \<in> set (enabled nh)" for p
    using that assms(1) enabled_fst [OF that]
    by (intro probes_reset_state) (auto simp: nexthops_wf_def MAX_NEXTHOPS_def)
  ultimately show ?thesis using s(2-5) by (metis probes_reset_simps(7))
qed

definition probed_hops :: nexthops where
  "probed_hops = example_hops\<lparr>nexthops_state := [\<lparr>state_priority = 0, state_member = BestPathState 10 8 1600\<rparr>,
     \<lparr>state_priority = 0, state_member = BestPathState 10 10 300\<rparr>, \<lparr>state_priority = 0, state_member = BestPathState 10 0 0\<rparr>]
     @ replicate 61 STRATEGY_NEXTHOP_STATE_EMPTY\<rparr>"

definition probing_entry :: "probing_state \<Rightarrow> u64 \<Rightarrow> probe_generator \<Rightarrow> strategy_entry" where
  "probing_entry p t pg = \<lparr>st_forwarder = True, st_type = STRATEGY_TYPE_BESTPATH, st_local_prefixes = None,
     st_state = \<lparr>st_word = BestNexthop 5, st_probing_time = t, st_probing_state = p, st_pg = Some pg\<rparr>\<rparr>"

definition example_packet :: "u32 \<Rightarrow> u32 \<Rightarrow> msgbuf" where
  "example_packet conn sfx = zero_msgbuf\<lparr>mb_pkbuf := zero_packet 60 HICN_PACKET_FORMAT_IPV6_TCP 2, mb_connection_id := conn,
     mb_name := \<lparr>name_prefix = \<lparr>u64_0 = 1, u64_1 = 0\<rparr>, name_suffix = sfx\<rparr>\<rparr>"

lemma example_packet_simps [simp]:
  "is_interest_or_data (example_packet c s)" "name_suffix (mb_name (example_packet c s)) = s"
  "mb_connection_id (example_packet c s) = c"
  by (simp_all add: example_packet_def is_interest_or_data_def msgbuf_get_type_def hicn_packet_get_type_def)

lemma enabled_probed_hops: "enabled probed_hops = [(0, 5), (1, 7), (2, 9)]"
  by (simp add: probed_hops_def example_hops_def enabled_from_def NEXTHOPS_EMPTY_def upt_rec)

lemma empty_len: "num_elts NEXTHOPS_EMPTY < 31"
  by (simp add: NEXTHOPS_EMPTY_def)

lemma probed_hops_wf: "nexthops_wf probed_hops"
  by (simp add: probed_hops_def example_hops_def nexthops_wf_def NEXTHOPS_EMPTY_def MAX_NEXTHOPS_def)

theorem bestpath_ends_probing_witness:
  "\<exists>e' nh' w'. strategy_bestpath_on_data (example_strategy_env 1000 0 (\<lambda>_. zero_connection))
     (probing_entry PROBING_ENDING 400 Map.empty) probed_hops NEXTHOPS_EMPTY (example_packet 5 77) 9 () = Some (e', nh', w') \<and>
     st_probing_state (st_state e') = PROBING_OFF \<and> best_nexthop e' = 7"
proof -
  let ?env = "example_strategy_env 1000 0 (\<lambda>_. zero_connection)" and ?e = "probing_entry PROBING_ENDING 400 Map.empty"
  let ?cost = "\<lambda>i :: nat. if i = 0 then 58 else if i = 1 then 5 else 100 :: nat"
  have cost: "\<forall>p \<in> set (enabled probed_hops). hop_cost ?env probed_hops (fst p) = Some (?cost (fst p))"
    unfolding enabled_probed_hops
    by (simp add: hop_cost_def probed_hops_def bestpath_state_def get_nexthop_cost_def assert_that_def)
  have "\<forall>x. update_remote_node_paths ?env x (st_forwarder ?e) (st_local_prefixes ?e) () \<noteq> None"
    by (simp add: update_remote_node_paths_def probing_entry_def)
  from bestpath_ends_probing [OF probed_hops_wf _ _ cost _ this, of "example_packet 5 77" NEXTHOPS_EMPTY 9]
  obtain e' nh' w' i where "strategy_bestpath_on_data ?env ?e probed_hops NEXTHOPS_EMPTY (example_packet 5 77) 9 () = Some (e', nh', w')"
    "st_probing_state (st_state e') = PROBING_OFF" "(i, best_nexthop e') \<in> set (enabled probed_hops)"
    "\<forall>p \<in> set (enabled probed_hops). ?cost i \<le> ?cost (fst p)"
    by (auto simp: enabled_probed_hops probing_entry_def example_strategy_env_def PROBES_WAINTING_TIME_def MIN_PROBE_SUFFIX_def)
  then show ?thesis by (auto simp: enabled_probed_hops split: if_splits)
qed

text \<open>C20: while an entry is probing, the answer to one of its pending probes from a connection
  that is not among the enabled hops of the entry, because it was removed or because the last
  decision hid it, writes outside the array of next-hop states.\<close>

theorem bestpath_foreign_probe_fails:
  assumes "nexthops_wf nh" "st_probing_state (st_state e) \<noteq> PROBING_OFF" "st_pg (st_state e) = Some pg"
    and "is_interest_or_data m" "MIN_PROBE_SUFFIX \<le> name_suffix (mb_name m)" "name_suffix (mb_name m) \<le> MAX_PROBE_SUFFIX"
    and "get_from_map pg (name_suffix (mb_name m)) \<noteq> 0" "c \<notin> snd ` set (enabled nh)"
    and "nexthops_add NEXTHOPS_EMPTY c = Some (i, probe_nexthops)"
  shows "strategy_bestpath_on_data env e nh probe_nexthops m 0 w = None"
proof -
  have "nexthops_inv probe_nexthops" "hops probe_nexthops = [c]"
    using nexthops_add_hops [of NEXTHOPS_EMPTY c] empty_len assms(9) by auto
  then have en: "enabled probe_nexthops = [(0, c)]" "nexthops_wf probe_nexthops"
    by (simp_all add: enabled_hops nexthops_inv_def)
  have find: "nexthops_find nh c = Some (unat INVALID_NEXTHOP)"
    using find_some_enabled [of c "enabled nh"] assms(8) by (simp add: nexthops_find_correct [OF assms(1)])
  have "unat INVALID_NEXTHOP = 2 ^ 32 - 1"
    by (simp add: INVALID_NEXTHOP_def unsigned_minus_1_eq_mask mask_eq_exp_minus_1)
  then have "add_rtt_sample env nh (unat INVALID_NEXTHOP) t = None" for t
    using assms(1) by (simp add: add_rtt_sample_def nexthop_state_read_def read_at_def nexthops_wf_def MAX_NEXTHOPS_def)
  then show ?thesis using assms(2-7) en find
    by (simp add: strategy_bestpath_on_data_def msgbuf_get_name_def assert_that_def nexthops_enumerate_const Let_def)
qed

theorem bestpath_foreign_probe_fails_witness:
  "\<exists>i probe_nexthops. nexthops_add NEXTHOPS_EMPTY 6 = Some (i, probe_nexthops) \<and>
     strategy_bestpath_on_data (example_strategy_env 1000 0 (\<lambda>_. zero_connection))
       (probing_entry PROBING_ON 400 [0xf0000000 \<mapsto> 900]) probed_hops probe_nexthops (example_packet 6 0xf0000000) 0 () = None"
proof -
  obtain i pn where pn: "nexthops_add NEXTHOPS_EMPTY 6 = Some (i, pn)"
    using nexthops_add_hops [of NEXTHOPS_EMPTY 6] empty_len by auto
  moreover have "strategy_bestpath_on_data (example_strategy_env 1000 0 (\<lambda>_. zero_connection))
       (probing_entry PROBING_ON 400 [0xf0000000 \<mapsto> 900]) probed_hops pn (example_packet 6 0xf0000000) 0 () = None"
    by (rule bestpath_foreign_probe_fails [OF probed_hops_wf, where pg = "[0xf0000000 \<mapsto> 900]" and c = 6 and i = i])
      (simp_all add: pn probing_entry_def get_from_map_def enabled_probed_hops MIN_PROBE_SUFFIX_def MAX_PROBE_SUFFIX_def)
  ultimately show ?thesis by blast
qed

end
