(* ===== verification/Fib_Entry.thy ===== *)
theory Fib_Entry
  imports Strategy_Correct
begin

text \<open>
  FIB entries, \<open>hicn-light/src/hicn/core/fib_entry.{h,c}\<close>, and the statistics they keep,
  \<open>core/policy_stats.{h,c}\<close>: creation, strategy and its options, the policy filter over the next
  hops, the choice of the next hops of an Interest, and the reactions to Data and timeouts.

  \<^item> The loops of the filter are instances of \<open>filter_pass\<close>: for each enabled hop the conditions are
    tested in order, and each that holds disables the hop, also when another has done so before.
  \<^item> A filter works on the table of the entry itself, so that the flags it leaves stay in
    the entry until the next packet.
  \<^item> \<open>float\<close> is a real number; \<open>user_data\<close> is the MAP-Me state of the entry, a number here.
\<close>

section \<open>Policy statistics\<close>

record interface_counters =
  num_packets :: u32
  num_bytes :: u32
  num_losses :: u32
  latency_idle :: u32

record interface_stats =
  throughput :: real
  latency :: real
  loss_rate :: real

record policy_counters =
  wired_counters :: interface_counters
  wifi_counters :: interface_counters
  cellular_counters :: interface_counters
  all_counters :: interface_counters
  last_update :: u64

record policy_stats =
  wired_stats :: interface_stats
  wifi_stats :: interface_stats
  cellular_stats :: interface_stats
  all_stats :: interface_stats

definition INTERFACE_COUNTERS_EMPTY :: interface_counters where
  "INTERFACE_COUNTERS_EMPTY = \<lparr>num_packets = 0, num_bytes = 0, num_losses = 0, latency_idle = 0\<rparr>"

definition POLICY_COUNTERS_EMPTY :: policy_counters where
  "POLICY_COUNTERS_EMPTY = \<lparr>wired_counters = INTERFACE_COUNTERS_EMPTY, wifi_counters = INTERFACE_COUNTERS_EMPTY,
     cellular_counters = INTERFACE_COUNTERS_EMPTY, all_counters = INTERFACE_COUNTERS_EMPTY, last_update = 0\<rparr>"

definition INTERFACE_STATS_EMPTY :: interface_stats where
  "INTERFACE_STATS_EMPTY = \<lparr>throughput = 0, latency = 0, loss_rate = 0\<rparr>"

definition POLICY_STATS_EMPTY :: policy_stats where
  "POLICY_STATS_EMPTY = \<lparr>wired_stats = INTERFACE_STATS_EMPTY, wifi_stats = INTERFACE_STATS_EMPTY,
     cellular_stats = INTERFACE_STATS_EMPTY, all_stats = INTERFACE_STATS_EMPTY\<rparr>"

definition count_loss :: "interface_counters \<Rightarrow> interface_counters" where
  "count_loss c = c\<lparr>num_losses := num_losses c + 1\<rparr>"

definition count_losses_by_tag :: "connection \<Rightarrow> policy_counters \<Rightarrow> policy_counters" where
  "count_losses_by_tag conn c =
     (let c = (if connection_has_tag conn POLICY_TAG_WIRED then c\<lparr>wired_counters := count_loss (wired_counters c)\<rparr> else c);
          c = (if connection_has_tag conn POLICY_TAG_WIFI then c\<lparr>wifi_counters := count_loss (wifi_counters c)\<rparr> else c)
      in if connection_has_tag conn POLICY_TAG_CELLULAR then c\<lparr>cellular_counters := count_loss (cellular_counters c)\<rparr> else c)"

definition policy_stats_on_retransmission ::
  "connection_table \<Rightarrow> nexthops \<Rightarrow> policy_counters \<Rightarrow> policy_counters option" where
  "policy_stats_on_retransmission table nh counters = do {
     r \<leftarrow> nexthops_enumerate (\<lambda>_. nh) (\<lambda>_ n c. do {
            conn \<leftarrow> connection_table_at table n;
            let c = count_losses_by_tag conn c;
            Some (Inr (c\<lparr>all_counters := count_loss (all_counters c)\<rparr>) :: unit + policy_counters) }) counters;
     Some (case r of Inl _ \<Rightarrow> counters | Inr c \<Rightarrow> c) }"

definition policy_stats_on_timeout ::
  "connection_table \<Rightarrow> nexthops \<Rightarrow> policy_counters \<Rightarrow> policy_counters option" where
  "policy_stats_on_timeout table nh counters = do {
     r \<leftarrow> nexthops_enumerate (\<lambda>_. nh) (\<lambda>_ n c. do {
            conn \<leftarrow> connection_table_at table n;
            Some (Inr (count_losses_by_tag conn c) :: unit + policy_counters) }) counters;
     let c = (case r of Inl _ \<Rightarrow> counters | Inr c \<Rightarrow> c);
     Some (c\<lparr>all_counters := count_loss (all_counters c)\<rparr>) }"

definition smooth :: "real \<Rightarrow> real \<Rightarrow> real" where
  "smooth old new = 9 / 10 * old + (1 - 9 / 10) * new"

definition count_data :: "u32 \<Rightarrow> interface_counters \<Rightarrow> interface_counters" where
  "count_data msg_size c = c\<lparr>num_packets := num_packets c + 1, num_bytes := num_bytes c + msg_size, latency_idle := 0\<rparr>"

definition sample_latency :: "u64 \<Rightarrow> interface_stats \<Rightarrow> interface_stats" where
  "sample_latency rtt s = s\<lparr>latency := smooth (latency s) (real (unat rtt))\<rparr>"

definition update_tag_stats :: "connection \<Rightarrow> u32 \<Rightarrow> u64 \<Rightarrow> policy_stats \<times> policy_counters \<Rightarrow> policy_stats \<times> policy_counters" where
  "update_tag_stats conn msg_size rtt = (\<lambda>(s, c).
     let (s, c) = (if connection_has_tag conn POLICY_TAG_WIRED
           then (s\<lparr>wired_stats := sample_latency rtt (wired_stats s)\<rparr>, c\<lparr>wired_counters := count_data msg_size (wired_counters c)\<rparr>) else (s, c));
         (s, c) = (if connection_has_tag conn POLICY_TAG_WIFI
           then (s\<lparr>wifi_stats := sample_latency rtt (wifi_stats s)\<rparr>, c\<lparr>wifi_counters := count_data msg_size (wifi_counters c)\<rparr>) else (s, c))
     in if connection_has_tag conn POLICY_TAG_CELLULAR
        then (s\<lparr>cellular_stats := sample_latency rtt (cellular_stats s)\<rparr>, c\<lparr>cellular_counters := count_data msg_size (cellular_counters c)\<rparr>)
        else (s, c))"

definition policy_stats_on_data ::
  "connection_table \<Rightarrow> nexthops \<Rightarrow> msgbuf \<Rightarrow> u64 \<Rightarrow> policy_stats \<times> policy_counters \<Rightarrow> (policy_stats \<times> policy_counters) option" where
  "policy_stats_on_data table nh m rtt sc = do {
     let msg_size = of_nat (msgbuf_get_len m);
     r \<leftarrow> nexthops_enumerate (\<lambda>_. nh) (\<lambda>_ n sc. do {
            conn \<leftarrow> connection_table_at table n;
            Some (Inr (update_tag_stats conn msg_size rtt sc) :: unit + policy_stats \<times> policy_counters) }) sc;
     let (s, c) = (case r of Inl _ \<Rightarrow> sc | Inr sc \<Rightarrow> sc);
     Some (s\<lparr>all_stats := sample_latency rtt (all_stats s)\<rparr>, c\<lparr>all_counters := count_data msg_size (all_counters c)\<rparr>) }"

text \<open>One round of \<open>UPDATE_TYPE\<close>: the two rates are integer divisions.\<close>

definition update_type :: "u64 \<Rightarrow> interface_stats \<Rightarrow> interface_counters \<Rightarrow> interface_stats \<times> interface_counters" where
  "update_type elapsed s c =
     (let thr = (if 0 < num_bytes c then real (unat (num_bytes c) div unat elapsed) * 8 / 1024 else 0);
          loss = (if 0 < num_losses c \<and> 0 < num_packets c then real (unat (num_losses c) div unat (num_packets c)) * 100 else 0);
          idle = latency_idle c + 1
      in (s\<lparr>throughput := smooth (throughput s) thr, loss_rate := smooth (loss_rate s) loss,
            latency := (if 1 < idle then 0 else latency s)\<rparr>,
          \<lparr>num_packets = 0, num_bytes = 0, num_losses = 0, latency_idle = idle\<rparr>))"

definition policy_stats_update :: "u64 \<Rightarrow> policy_stats \<times> policy_counters \<Rightarrow> policy_stats \<times> policy_counters" where
  "policy_stats_update now sc = (case sc of (s, c) \<Rightarrow>
     if now = last_update c then (s, c)
     else let elapsed = now - last_update c;
              (ws, wc) = update_type elapsed (wired_stats s) (wired_counters c);
              (fs, fc) = update_type elapsed (wifi_stats s) (wifi_counters c);
              (cs, cc) = update_type elapsed (cellular_stats s) (cellular_counters c);
              (as, ac) = update_type elapsed (all_stats s) (all_counters c)
          in (\<lparr>wired_stats = ws, wifi_stats = fs, cellular_stats = cs, all_stats = as\<rparr>,
              \<lparr>wired_counters = wc, wifi_counters = fc, cellular_counters = cc, all_counters = ac, last_update = now\<rparr>))"

section \<open>FIB entries\<close>

record fib_entry =
  fe_prefix :: hicn_prefix
  fe_nexthops :: nexthops
  fe_nexthops_hash :: u32
  fe_strategy :: strategy_entry
  fe_forwarder :: bool
  fe_policy :: hicn_policy
  fe_counters :: policy_counters
  fe_stats :: policy_stats
  fe_user_data :: "nat option"

text \<open>\<open>options\<close> is the pointer to the options, their only field the pointer to the local prefixes.\<close>

definition fib_entry_add_strategy_options ::
  "strategy_type \<Rightarrow> hicn_prefix list option option \<Rightarrow> fib_entry \<Rightarrow> fib_entry option" where
  "fib_entry_add_strategy_options type options e =
     (if type \<noteq> STRATEGY_TYPE_BESTPATH \<and> type \<noteq> STRATEGY_TYPE_REPLICATION then Some e
      else case options of
        None \<Rightarrow> Some (e\<lparr>fe_strategy := (fe_strategy e)\<lparr>st_local_prefixes := None\<rparr>\<rparr>)
      | Some new_prefixes \<Rightarrow> do {
          let curr = (case st_local_prefixes (fe_strategy e) of None \<Rightarrow> [] | Some ps \<Rightarrow> ps);
          new \<leftarrow> new_prefixes;
          Some (e\<lparr>fe_strategy := (fe_strategy e)\<lparr>st_local_prefixes := Some (local_prefixes_add_prefixes curr new)\<rparr>\<rparr>) })"

definition fib_entry_set_strategy ::
  "'w strategy_env \<Rightarrow> strategy_type \<Rightarrow> hicn_prefix list option option \<Rightarrow> fib_entry \<Rightarrow> 'w \<Rightarrow> (fib_entry \<times> 'w) option" where
  "fib_entry_set_strategy env type options e w =
     (let type = (if strategy_type_valid type then type else STRATEGY_TYPE_RANDOM); s = fe_strategy e
      in if st_type s = type then
           (if type \<noteq> STRATEGY_TYPE_BESTPATH then Some (e, w)
            else do {
              (s, w) \<leftarrow> strategy_initialize env (fe_forwarder e) s w;
              Some (e\<lparr>fe_strategy := s\<rparr>, w) })
         else do {
           let s = s\<lparr>st_type := type\<rparr>;
           let s = (case options of None \<Rightarrow> s | Some ps \<Rightarrow> s\<lparr>st_local_prefixes := ps\<rparr>);
           (s, w) \<leftarrow> strategy_initialize env (fe_forwarder e) s w;
           Some (e\<lparr>fe_strategy := s\<rparr>, w) })"

text \<open>The strategy is initialised before the entry gets its forwarder.\<close>

definition fib_entry_create ::
  "'w strategy_env \<Rightarrow> hicn_prefix \<Rightarrow> strategy_type \<Rightarrow> hicn_prefix list option option \<Rightarrow> bool \<Rightarrow> 'w \<Rightarrow> (fib_entry \<times> 'w) option" where
  "fib_entry_create env pfx type options forwarder w = do {
     let e = \<lparr>fe_prefix = pfx, fe_nexthops = NEXTHOPS_EMPTY, fe_nexthops_hash = 0, fe_strategy = ZERO_STRATEGY_ENTRY,
              fe_forwarder = False, fe_policy = POLICY_EMPTY, fe_counters = POLICY_COUNTERS_EMPTY,
              fe_stats = POLICY_STATS_EMPTY, fe_user_data = None\<rparr>;
     e \<leftarrow> fib_entry_add_strategy_options STRATEGY_TYPE_BESTPATH None e;
     e \<leftarrow> fib_entry_add_strategy_options STRATEGY_TYPE_REPLICATION None e;
     (e, w) \<leftarrow> fib_entry_set_strategy env type options e w;
     Some (e\<lparr>fe_user_data := None, fe_forwarder := forwarder, fe_policy := POLICY_EMPTY,
             fe_stats := POLICY_STATS_EMPTY, fe_counters := POLICY_COUNTERS_EMPTY\<rparr>, w) }"

section \<open>The policy filter\<close>

definition nexthops_disable_if :: "nexthops \<Rightarrow> nat \<Rightarrow> bool \<Rightarrow> nexthops option" where
  "nexthops_disable_if nh i b = (if b then map_option snd (nexthops_disable nh i) else Some nh)"

definition filter_pass ::
  "connection_table \<Rightarrow> (u32 \<Rightarrow> connection \<Rightarrow> bool) list \<Rightarrow> nexthops \<Rightarrow> nexthops option" where
  "filter_pass table conds nh = do {
     r \<leftarrow> nexthops_enumerate id (\<lambda>i n nh. do {
            conn \<leftarrow> connection_table_at table n;
            nh \<leftarrow> foldM (\<lambda>nh cond. nexthops_disable_if nh i (cond n conn)) nh conds;
            Some (Inr nh :: unit + nexthops) }) nh;
     Some (case r of Inl _ \<Rightarrow> nh | Inr nh \<Rightarrow> nh) }"

definition unavailable :: "u32 \<Rightarrow> (u32 \<Rightarrow> connection \<Rightarrow> bool) list" where
  "unavailable ingress_id = [\<lambda>n _. n = ingress_id, \<lambda>_ c. conn_admin_state c = FACE_STATE_DOWN,
     \<lambda>_ c. conn_state c = FACE_STATE_DOWN]"

definition tag_conditions :: "hicn_policy \<Rightarrow> policy_tag \<Rightarrow> (u32 \<Rightarrow> connection \<Rightarrow> bool) list" where
  "tag_conditions policy tag =
     [\<lambda>_ c. policy tag = POLICY_STATE_REQUIRE \<and> \<not> connection_has_tag c tag,
      \<lambda>_ c. policy tag = POLICY_STATE_PROHIBIT \<and> connection_has_tag c tag]"

definition remote_conditions :: "hicn_policy \<Rightarrow> (u32 \<Rightarrow> connection \<Rightarrow> bool) list" where
  "remote_conditions policy = (\<lambda>_ c. conn_local c) # tag_conditions policy POLICY_TAG_WIRED @
     tag_conditions policy POLICY_TAG_WIFI @ tag_conditions policy POLICY_TAG_CELLULAR @
     tag_conditions policy POLICY_TAG_TRUSTED"

text \<open>A preference: hide hops, and bring the hidden ones back when none is left.  Only the flags are
  restored, not the number of enabled hops.\<close>

definition restore_flags :: "u64 \<Rightarrow> nexthops \<Rightarrow> nexthops" where
  "restore_flags flags nh = (if cur_elts nh = 0 then nh\<lparr>nexthops_flags := flags\<rparr> else nh)"

definition prefer_if ::
  "connection_table \<Rightarrow> u64 \<Rightarrow> bool \<Rightarrow> (connection \<Rightarrow> bool) \<Rightarrow> nexthops \<Rightarrow> nexthops option" where
  "prefer_if table flags b cond nh =
     (if b then map_option (restore_flags flags) (filter_pass table [\<lambda>_. cond] nh) else Some nh)"

definition filter_preferences ::
  "connection_table \<Rightarrow> hicn_policy \<Rightarrow> u64 \<Rightarrow> nexthops \<Rightarrow> nexthops option" where
  "filter_preferences table policy flags nh = do {
     nh \<leftarrow> prefer_if table flags (policy POLICY_TAG_WIRED = POLICY_STATE_AVOID) (\<lambda>c. connection_has_tag c POLICY_TAG_WIRED) nh;
     nh \<leftarrow> prefer_if table flags (policy POLICY_TAG_WIFI = POLICY_STATE_AVOID) (\<lambda>c. connection_has_tag c POLICY_TAG_WIFI) nh;
     nh \<leftarrow> prefer_if table flags (policy POLICY_TAG_CELLULAR = POLICY_STATE_AVOID) (\<lambda>c. connection_has_tag c POLICY_TAG_CELLULAR) nh;
     nh \<leftarrow> prefer_if table flags (policy POLICY_TAG_WIRED = POLICY_STATE_PREFER) (\<lambda>c. \<not> connection_has_tag c POLICY_TAG_WIRED) nh;
     nh \<leftarrow> prefer_if table flags (policy POLICY_TAG_WIFI = POLICY_STATE_PREFER) (\<lambda>c. \<not> connection_has_tag c POLICY_TAG_WIFI) nh;
     prefer_if table flags (policy POLICY_TAG_CELLULAR = POLICY_STATE_PREFER) (\<lambda>c. \<not> connection_has_tag c POLICY_TAG_CELLULAR) nh }"

definition filter_face_priority :: "connection_table \<Rightarrow> nexthops \<Rightarrow> nexthops option" where
  "filter_face_priority table nh = do {
     r \<leftarrow> nexthops_enumerate (\<lambda>_. nh) (\<lambda>_ n max_priority. do {
            conn \<leftarrow> connection_table_at table n;
            Some (Inr (if max_priority < conn_priority conn then conn_priority conn else max_priority) :: unit + u32) }) 0;
     let max_priority = (case r of Inl _ \<Rightarrow> 0 | Inr p \<Rightarrow> p);
     filter_pass table [\<lambda>_ c. conn_priority c < max_priority] nh }"

text \<open>The \<open>int\<close> priority of a hop is compared with an unsigned maximum, hence as unsigned.\<close>

definition filter_hop_priority :: "nexthops \<Rightarrow> nexthops option" where
  "filter_hop_priority nh = do {
     r \<leftarrow> nexthops_enumerate (\<lambda>_. nh) (\<lambda>i _ max_priority. do {
            s \<leftarrow> read_at (nexthops_state nh) i;
            Some (Inr (if max_priority < state_priority s then state_priority s else max_priority) :: unit + u32) }) 0;
     let max_priority = (case r of Inl _ \<Rightarrow> 0 | Inr p \<Rightarrow> p);
     r \<leftarrow> nexthops_enumerate id (\<lambda>i _ nh. do {
            s \<leftarrow> read_at (nexthops_state nh) i;
            nh \<leftarrow> nexthops_disable_if nh i (state_priority s < max_priority);
            Some (Inr nh :: unit + nexthops) }) nh;
     Some (case r of Inl _ \<Rightarrow> nh | Inr nh \<Rightarrow> nh) }"

definition single_path :: "hicn_policy \<Rightarrow> bool" where
  "single_path policy \<longleftrightarrow> policy POLICY_TAG_MULTIPATH = POLICY_STATE_PROHIBIT \<or> policy POLICY_TAG_MULTIPATH = POLICY_STATE_AVOID"

definition filter_single_path :: "hicn_policy \<Rightarrow> nexthops \<Rightarrow> nexthops option" where
  "filter_single_path policy nh = (if single_path policy then map_option snd (nexthops_select_first nh) else Some nh)"

definition filter_trusted :: "connection_table \<Rightarrow> hicn_policy \<Rightarrow> nexthops \<Rightarrow> nexthops option" where
  "filter_trusted table policy nh =
     filter_pass table
       [\<lambda>_ c. if policy POLICY_TAG_TRUSTED = POLICY_STATE_REQUIRE \<or> policy POLICY_TAG_TRUSTED = POLICY_STATE_PREFER
              then \<not> connection_has_tag c POLICY_TAG_TRUSTED else connection_has_tag c POLICY_TAG_TRUSTED] nh"

definition filter_remote ::
  "connection_table \<Rightarrow> hicn_policy \<Rightarrow> nexthops \<Rightarrow> nexthops option" where
  "filter_remote table policy nh = do {
     nh \<leftarrow> filter_pass table (remote_conditions policy) nh;
     if cur_elts nh = 0 then Some nh
     else do {
       let flags = nexthops_flags nh;
       nh \<leftarrow> filter_trusted table policy nh;
       if cur_elts nh = 0 \<and> policy POLICY_TAG_TRUSTED = POLICY_STATE_REQUIRE then Some nh
       else do {
         nh \<leftarrow> filter_preferences table policy flags (restore_flags flags nh);
         nh \<leftarrow> filter_face_priority table nh;
         nh \<leftarrow> filter_hop_priority nh;
         filter_single_path policy nh } } }"

definition fib_entry_filter_nexthops ::
  "connection_table \<Rightarrow> hicn_policy \<Rightarrow> nexthops \<Rightarrow> u32 \<Rightarrow> bool \<Rightarrow> nexthops option" where
  "fib_entry_filter_nexthops table policy nh ingress_id prefer_local = do {
     nh \<leftarrow> filter_pass table (unavailable ingress_id) (nexthops_reset nh);
     if prefer_local then do {
       loc \<leftarrow> filter_pass table [\<lambda>_ c. \<not> conn_local c] nh;
       if 0 < cur_elts loc then Some loc
       else filter_remote table policy (loc\<lparr>nexthops_flags := nexthops_flags nh, cur_elts := cur_elts nh\<rparr>) }
     else filter_remote table policy nh }"

section \<open>Next hops of a packet\<close>

text \<open>The connections that are not local, appended to a table.\<close>

definition fib_entry_get_mapme_nexthops :: "connection_table \<Rightarrow> nexthops \<Rightarrow> nexthops option" where
  "fib_entry_get_mapme_nexthops table nh = do {
     ids \<leftarrow> pool_enumerate (connections table);
     foldM (\<lambda>nh i. do {
       conn \<leftarrow> connection_table_at table (of_nat i);
       if conn_local conn then Some nh
       else do {
         es \<leftarrow> write_at (elts nh) (num_elts nh) (of_nat i);
         Some (nh\<lparr>elts := es, num_elts := num_elts nh + 1, cur_elts := cur_elts nh + 1\<rparr>) } }) nh ids }"

text \<open>The result is the table passed in for the wildcard ingress, the entry's own otherwise.\<close>

definition fib_entry_get_available_nexthops ::
  "connection_table \<Rightarrow> fib_entry \<Rightarrow> u32 \<Rightarrow> nexthops option \<Rightarrow> (fib_entry \<times> nexthops) option" where
  "fib_entry_get_available_nexthops table e ingress_id new_nexthops = do {
     assert_that (fe_forwarder e);
     if ingress_id = NOT 0 then do {
       new \<leftarrow> new_nexthops;
       new \<leftarrow> fib_entry_get_mapme_nexthops table new;
       nh \<leftarrow> fib_entry_filter_nexthops table (fe_policy e) new ingress_id False;
       Some (e, nh) }
     else do {
       nh \<leftarrow> fib_entry_filter_nexthops table (fe_policy e) (fe_nexthops e) ingress_id True;
       Some (e\<lparr>fe_nexthops := nh\<rparr>, nh) } }"

definition fib_entry_get_nexthops_from_strategy ::
  "'w strategy_env \<Rightarrow> fib_entry \<Rightarrow> nat \<Rightarrow> bool \<Rightarrow> msgbuf_pool \<Rightarrow> 'w \<Rightarrow> (fib_entry \<times> msgbuf_pool \<times> 'w) option" where
  "fib_entry_get_nexthops_from_strategy env e msg_id is_retransmission mp w = do {
     m \<leftarrow> msgbuf_pool_at mp msg_id;
     (e, nh) \<leftarrow> fib_entry_get_available_nexthops (se_table env) e (mb_connection_id m) None;
     if cur_elts nh = 0 then Some (e, mp, w)
     else do {
       c \<leftarrow> (if is_retransmission then policy_stats_on_retransmission (se_table env) nh (fe_counters e)
            else Some (fe_counters e));
       nh \<leftarrow> filter_hop_priority nh;
       nh \<leftarrow> filter_single_path (fe_policy e) nh;
       (s, nh, mp, w) \<leftarrow> strategy_lookup_nexthops env (fe_strategy e) nh msg_id mp w;
       Some (e\<lparr>fe_counters := c, fe_nexthops := nh, fe_strategy := s\<rparr>, mp, w) } }"

definition fib_entry_nexthops_add :: "u32 \<Rightarrow> fib_entry \<Rightarrow> fib_entry option" where
  "fib_entry_nexthops_add nexthop e = do {
     (i, nh) \<leftarrow> nexthops_add (fe_nexthops e) nexthop;
     nh \<leftarrow> strategy_add_nexthop (fe_strategy e) nh i;
     Some (e\<lparr>fe_nexthops := nh\<rparr>) }"

definition fib_entry_nexthops_remove :: "u32 \<Rightarrow> fib_entry \<Rightarrow> fib_entry option" where
  "fib_entry_nexthops_remove nexthop e = do {
     (i, nh) \<leftarrow> nexthops_remove (fe_nexthops e) nexthop;
     nh \<leftarrow> strategy_remove_nexthop (fe_strategy e) nh i;
     Some (e\<lparr>fe_nexthops := nh\<rparr>) }"

definition fib_entry_nexthops_changed :: "nexthops \<Rightarrow> fib_entry \<Rightarrow> (bool \<times> fib_entry) option" where
  "fib_entry_nexthops_changed nh e = do {
     h \<leftarrow> nexthops_get_hash nh;
     Some (if h \<noteq> fe_nexthops_hash e then (True, e\<lparr>fe_nexthops_hash := h\<rparr>) else (False, e)) }"

definition fib_entry_on_data ::
  "'w strategy_env \<Rightarrow> nexthops \<Rightarrow> msgbuf \<Rightarrow> u64 \<Rightarrow> u64 \<Rightarrow> fib_entry \<Rightarrow> 'w \<Rightarrow> (fib_entry \<times> 'w) option" where
  "fib_entry_on_data env data_nexthops m pit_entry_creation obj_reception e w = do {
     (st, c) \<leftarrow> (if pit_entry_creation \<noteq> 0 then do {
            assert_that (fe_forwarder e);
            policy_stats_on_data (se_table env) data_nexthops m (obj_reception - pit_entry_creation) (fe_stats e, fe_counters e) }
          else Some (fe_stats e, fe_counters e));
     let e = e\<lparr>fe_stats := st, fe_counters := c\<rparr>;
     if pit_entry_creation \<noteq> 0 \<or> st_type (fe_strategy e) = STRATEGY_TYPE_BESTPATH then do {
       (s, nh, w) \<leftarrow> strategy_on_data env (fe_strategy e) (fe_nexthops e) data_nexthops m pit_entry_creation w;
       Some (e\<lparr>fe_strategy := s, fe_nexthops := nh\<rparr>, w) }
     else Some (e, w) }"

definition fib_entry_on_timeout ::
  "'w strategy_env \<Rightarrow> nexthops \<Rightarrow> fib_entry \<Rightarrow> fib_entry option" where
  "fib_entry_on_timeout env timeout_nexthops e = do {
     assert_that (fe_forwarder e);
     c \<leftarrow> policy_stats_on_timeout (se_table env) timeout_nexthops (fe_counters e);
     nh \<leftarrow> strategy_on_timeout env (fe_strategy e) (fe_nexthops e) timeout_nexthops;
     Some (e\<lparr>fe_counters := c, fe_nexthops := nh\<rparr>) }"

definition fib_entry_has_local_nexthop :: "connection_table \<Rightarrow> fib_entry \<Rightarrow> bool option" where
  "fib_entry_has_local_nexthop table e = do {
     assert_that (fe_forwarder e);
     r \<leftarrow> nexthops_enumerate (\<lambda>_. fe_nexthops e) (\<lambda>_ n s. do {
            conn \<leftarrow> connection_table_at table n;
            Some (if conn_local conn then Inl True else Inr s) }) ();
     Some (case r of Inl b \<Rightarrow> b | Inr _ \<Rightarrow> False) }"

definition fib_entry_has_all_local_nexthops :: "connection_table \<Rightarrow> fib_entry \<Rightarrow> bool option" where
  "fib_entry_has_all_local_nexthops table e = do {
     assert_that (fe_forwarder e);
     r \<leftarrow> nexthops_enumerate (\<lambda>_. fe_nexthops e) (\<lambda>_ n cnt. do {
            conn \<leftarrow> connection_table_at table n;
            Some (if conn_local conn then Inr (cnt + 1) else Inl False) }) (0 :: nat);
     Some (case r of Inl b \<Rightarrow> b | Inr cnt \<Rightarrow> 0 < cnt) }"

end
