(* ===== verification/Fib_Entry_Correct.thy ===== *)
theory Fib_Entry_Correct
  imports Fib_Entry
begin

text \<open>
  Correctness of FIB entries: what one pass of the policy filter hides, what the whole filter lets
  through, which operations keep the table of next hops in order, and two consequences of the filter
  working on the table of the entry itself: hops that are not offered, and hops that cannot be removed.
\<close>

section \<open>One pass of the filter\<close>

text \<open>Disabling slot \<open>i\<close> as often as \<open>k\<close> conditions hold.\<close>

definition hide :: "nat \<Rightarrow> nat \<Rightarrow> nexthops \<Rightarrow> nexthops" where
  "hide i k nh = nh\<lparr>nexthops_flags := (if k = 0 then nexthops_flags nh else nexthops_flags nh OR 2 ^ i),
     cur_elts := cur_elts nh - of_nat k\<rparr>"

lemma hide_simps [simp]:
  "num_elts (hide i k nh) = num_elts nh" "elts (hide i k nh) = elts nh"
  "nexthops_state (hide i k nh) = nexthops_state nh" "nexthops_wf (hide i k nh) = nexthops_wf nh"
  "cur_elts (hide i k nh) = cur_elts nh - of_nat k" "hide i 0 nh = nh"
  by (simp_all add: hide_def nexthops_wf_def)

lemma hide_bit: "i < 64 \<Longrightarrow> bit (nexthops_flags (hide i k nh)) j \<longleftrightarrow> bit (nexthops_flags nh) j \<or> 0 < k \<and> j = i"
  by (auto simp: hide_def bit_or_iff bit_exp_iff)

lemma hide_hide: "hide i k (hide i l nh) = hide i (k + l) nh"
  by (auto simp: hide_def or.assoc)

lemma disable_if_hide:
  assumes "nexthops_wf nh" "i < num_elts nh"
  shows "nexthops_disable_if nh i b = Some (hide i (if b then 1 else 0) nh)"
  using assms by (simp add: nexthops_disable_if_def nexthops_disable_def shift1_def nexthops_wf_def hide_def)

lemma foldM_disable_if:
  assumes "nexthops_wf nh" "i < num_elts nh"
  shows "foldM (\<lambda>nh cond. nexthops_disable_if nh i (P cond)) nh conds = Some (hide i (length (filter P conds)) nh)"
  using assms by (induction conds arbitrary: nh) (auto simp: disable_if_hide hide_hide)

definition hide_all :: "(nat \<Rightarrow> u32 \<Rightarrow> nat) \<Rightarrow> (nat \<times> u32) list \<Rightarrow> nexthops \<Rightarrow> nexthops" where
  "hide_all k ps nh = foldl (\<lambda>nh p. hide (fst p) (k (fst p) (snd p)) nh) nh ps"

lemma hide_all_simps [simp]:
  "num_elts (hide_all k ps nh) = num_elts nh" "elts (hide_all k ps nh) = elts nh"
  "nexthops_state (hide_all k ps nh) = nexthops_state nh" "nexthops_wf (hide_all k ps nh) = nexthops_wf nh"
  by (induction ps arbitrary: nh) (simp_all add: hide_all_def)

lemma hide_all_cur: "cur_elts (hide_all k ps nh) = cur_elts nh - of_nat (\<Sum>p\<leftarrow>ps. k (fst p) (snd p))"
  by (induction ps arbitrary: nh) (simp_all add: hide_all_def)

lemma hide_all_bit:
  "\<forall>p \<in> set ps. fst p < 64 \<Longrightarrow> bit (nexthops_flags (hide_all k ps nh)) j \<longleftrightarrow>
     bit (nexthops_flags nh) j \<or> (\<exists>p \<in> set ps. fst p = j \<and> 0 < k (fst p) (snd p))"
proof (induction ps arbitrary: nh)
  case (Cons p ps)
  then show ?case
    using Cons.IH [of "hide (fst p) (k (fst p) (snd p)) nh"] by (auto simp: hide_all_def hide_bit)
qed (simp add: hide_all_def)

lemma enabled_hide_all:
  assumes "nexthops_wf nh"
  shows "enabled (hide_all k (enabled nh) nh) = filter (\<lambda>p. k (fst p) (snd p) = 0) (enabled nh)"
proof -
  have "\<forall>p \<in> set (enabled nh). fst p < 64" using assms enabled_fst [of _ nh] by (fastforce simp: nexthops_wf_def)
  note bits = hide_all_bit [OF this, of k nh]
  define nh' where "nh' = hide_all k (enabled nh) nh"
  have "bit (nexthops_flags nh') j \<longleftrightarrow> bit (nexthops_flags nh) j \<or> 0 < k j (elts nh ! j)" if "j < num_elts nh" for j
    using that bits [of j] by (auto simp: nh'_def enabled_from_def)
  moreover have "num_elts nh' = num_elts nh" "elts nh' = elts nh" by (simp_all add: nh'_def)
  ultimately have "enabled nh' = filter (\<lambda>p. k (fst p) (snd p) = 0) (enabled nh)"
    by (auto simp: enabled_from_def filter_map comp_def intro!: arg_cong [of _ _ "map _"] filter_cong)
  then show ?thesis by (simp add: nh'_def)
qed

lemma enumerate_hide:
  assumes "nexthops_wf nh"
    and body: "\<And>i n nh'. (i, n) \<in> set (enabled nh) \<Longrightarrow> nexthops_wf nh' \<Longrightarrow> num_elts nh' = num_elts nh \<Longrightarrow>
      nexthops_state nh' = nexthops_state nh \<Longrightarrow> body i n nh' = Some (Inr (hide i (k i n) nh'))"
    and frame: "\<And>i n s s'. nexthops_wf s \<Longrightarrow> i < num_elts s \<Longrightarrow> body i n s = Some (Inr s') \<Longrightarrow> \<exists>m. s' = hide i m s"
  shows "nexthops_enumerate id body nh = Some (Inr (hide_all k (enabled nh) nh) :: unit + nexthops)"
proof -
  have "same_from (Suc i) s (hide i m s)" if "nexthops_wf s" "i < num_elts s" for i m s
    using that hide_bit [of i m s] by (auto simp: same_from_def nexthops_wf_def)
  then have "nexthops_enumerate id body nh = loopM body (enabled nh) nh"
    using nexthops_enumerate_loop_wf [of id body nh] assms(1) frame by fastforce
  also have "loopM body ps nh' = Some (Inr (hide_all k ps nh'))"
    if "set ps \<subseteq> set (enabled nh)" "nexthops_wf nh'" "num_elts nh' = num_elts nh" "nexthops_state nh' = nexthops_state nh" for ps nh'
    using that by (induction ps arbitrary: nh') (auto simp: hide_all_def body)
  then have "loopM body (enabled nh) nh = Some (Inr (hide_all k (enabled nh) nh))" using assms(1) by simp
  finally show ?thesis .
qed

definition readable :: "connection_table \<Rightarrow> nexthops \<Rightarrow> bool" where
  "readable table nh \<longleftrightarrow> (\<forall>n \<in> set (hops nh). connection_table_at table n \<noteq> None)"

definition conn_of :: "connection_table \<Rightarrow> u32 \<Rightarrow> connection" where
  "conn_of table n = the (connection_table_at table n)"

lemma enabled_in_hops: "nexthops_wf nh \<Longrightarrow> (i, n) \<in> set (enabled nh) \<Longrightarrow> n \<in> set (hops nh)"
  by (auto simp: enabled_from_def hops_def nexthops_wf_def MAX_NEXTHOPS_def in_set_conv_nth intro!: exI [of _ i])

lemma enabled_readable:
  assumes "nexthops_wf nh" "readable table nh" "(i, n) \<in> set (enabled nh)"
  shows "connection_table_at table n = Some (conn_of table n)" "i < num_elts nh"
  using enabled_in_hops [OF assms(1,3)] enabled_fst [OF assms(3)] assms(2) by (auto simp: readable_def conn_of_def)

definition hits :: "connection_table \<Rightarrow> (u32 \<Rightarrow> connection \<Rightarrow> bool) list \<Rightarrow> u32 \<Rightarrow> nat" where
  "hits table conds n = length (filter (\<lambda>cond. cond n (conn_of table n)) conds)"

lemma filter_pass_eq:
  assumes "nexthops_wf nh" "readable table nh"
  shows "filter_pass table conds nh = Some (hide_all (\<lambda>_. hits table conds) (enabled nh) nh)"
proof -
  let ?body = "\<lambda>i n nh. do {
            conn \<leftarrow> connection_table_at table n;
            nh \<leftarrow> foldM (\<lambda>nh cond. nexthops_disable_if nh i (cond n conn)) nh conds;
            Some (Inr nh :: unit + nexthops) }"
  have "nexthops_enumerate id ?body nh = Some (Inr (hide_all (\<lambda>_. hits table conds) (enabled nh) nh))"
  proof (rule enumerate_hide [OF assms(1)])
    fix i n nh' assume a: "(i, n) \<in> set (enabled nh)" "nexthops_wf nh'" "num_elts nh' = num_elts nh"
    then show "?body i n nh' = Some (Inr (hide i (hits table conds n) nh'))"
      using enabled_readable [OF assms a(1)] foldM_disable_if [of nh' i "\<lambda>c. c n (conn_of table n)" conds]
      by (simp add: hits_def)
  next
    fix i n s s' assume a: "nexthops_wf s" "i < num_elts s" "?body i n s = Some (Inr s')"
    then obtain conn where "connection_table_at table n = Some conn" by (auto simp: bind_eq_Some_conv)
    with a foldM_disable_if [OF a(1,2), of "\<lambda>c. c n conn" conds] show "\<exists>m. s' = hide i m s" by auto
  qed
  then show ?thesis by (simp add: filter_pass_def)
qed

section \<open>The filter hides hops and never adds one\<close>

text \<open>The same hops as \<open>nh0\<close>, at most those enabled there being enabled.\<close>

definition narrowed :: "nexthops \<Rightarrow> nexthops \<Rightarrow> bool" where
  "narrowed nh0 nh \<longleftrightarrow> nexthops_wf nh \<and> num_elts nh = num_elts nh0 \<and> elts nh = elts nh0 \<and>
     nexthops_state nh = nexthops_state nh0 \<and> set (enabled nh) \<subseteq> set (enabled nh0)"

lemma narrowed_refl: "nexthops_wf nh \<Longrightarrow> narrowed nh nh"
  and narrowed_trans: "narrowed a b \<Longrightarrow> narrowed b c \<Longrightarrow> narrowed a c"
  and narrowed_readable: "narrowed a b \<Longrightarrow> readable table b = readable table a"
  and narrowed_wf: "narrowed a b \<Longrightarrow> nexthops_wf b"
  and narrowed_hops: "narrowed a b \<Longrightarrow> hops b = hops a"
  by (auto simp: narrowed_def readable_def hops_def)

lemma enabled_flags: "nexthops_flags a = nexthops_flags b \<Longrightarrow> num_elts a = num_elts b \<Longrightarrow> elts a = elts b \<Longrightarrow> enabled a = enabled b"
  by (simp add: enabled_from_def)

lemma narrowed_restore:
  assumes "nexthops_wf nh0" "narrowed nh0 nh"
  shows "narrowed nh0 (restore_flags (nexthops_flags nh0) nh)"
proof -
  have "enabled (nh\<lparr>nexthops_flags := nexthops_flags nh0\<rparr>) = enabled nh0"
    using assms(2) by (intro enabled_flags) (simp_all add: narrowed_def)
  then show ?thesis using assms by (simp add: restore_flags_def narrowed_def nexthops_wf_def)
qed

lemma narrowed_hide_all: "nexthops_wf nh \<Longrightarrow> narrowed nh (hide_all k (enabled nh) nh)"
  by (auto simp: narrowed_def enabled_hide_all)

lemma narrowed_pass:
  assumes "narrowed nh0 nh" "readable table nh0"
  obtains nh' where "filter_pass table conds nh = Some nh'" "narrowed nh0 nh'"
    "set (enabled nh') = {p \<in> set (enabled nh). hits table conds (snd p) = 0}"
    "cur_elts nh' = cur_elts nh - of_nat (\<Sum>p\<leftarrow>enabled nh. hits table conds (snd p))"
proof -
  have w: "nexthops_wf nh" "readable table nh" using assms by (auto simp: narrowed_readable dest: narrowed_wf)
  show ?thesis
    by (rule that [OF filter_pass_eq [OF w] narrowed_trans [OF assms(1) narrowed_hide_all [OF w(1)]]])
       (auto simp: enabled_hide_all [OF w(1)] hide_all_cur)
qed

lemma narrowed_prefer:
  assumes "nexthops_wf nh0" "readable table nh0" "narrowed nh0 nh"
  obtains nh' where "prefer_if table (nexthops_flags nh0) b cond nh = Some nh'" "narrowed nh0 nh'"
proof (cases b)
  case True
  obtain nh' where "filter_pass table [\<lambda>_. cond] nh = Some nh'" "narrowed nh0 nh'"
    using narrowed_pass [OF assms(3,2)] by metis
  then show ?thesis using True that narrowed_restore [OF assms(1)] by (simp add: prefer_if_def)
qed (use assms that in \<open>simp add: prefer_if_def\<close>)

lemma narrowed_preferences:
  assumes "nexthops_wf nh0" "readable table nh0" "narrowed nh0 nh"
  obtains nh' where "filter_preferences table policy (nexthops_flags nh0) nh = Some nh'" "narrowed nh0 nh'"
proof -
  note p = narrowed_prefer [OF assms(1,2)]
  obtain a where a: "prefer_if table (nexthops_flags nh0) (policy POLICY_TAG_WIRED = POLICY_STATE_AVOID)
    (\<lambda>c. connection_has_tag c POLICY_TAG_WIRED) nh = Some a" "narrowed nh0 a" using p [OF assms(3)] by metis
  obtain b where b: "prefer_if table (nexthops_flags nh0) (policy POLICY_TAG_WIFI = POLICY_STATE_AVOID)
    (\<lambda>c. connection_has_tag c POLICY_TAG_WIFI) a = Some b" "narrowed nh0 b" using p [OF a(2)] by metis
  obtain c where c: "prefer_if table (nexthops_flags nh0) (policy POLICY_TAG_CELLULAR = POLICY_STATE_AVOID)
    (\<lambda>c. connection_has_tag c POLICY_TAG_CELLULAR) b = Some c" "narrowed nh0 c" using p [OF b(2)] by metis
  obtain d where d: "prefer_if table (nexthops_flags nh0) (policy POLICY_TAG_WIRED = POLICY_STATE_PREFER)
    (\<lambda>c. \<not> connection_has_tag c POLICY_TAG_WIRED) c = Some d" "narrowed nh0 d" using p [OF c(2)] by metis
  obtain e where e: "prefer_if table (nexthops_flags nh0) (policy POLICY_TAG_WIFI = POLICY_STATE_PREFER)
    (\<lambda>c. \<not> connection_has_tag c POLICY_TAG_WIFI) d = Some e" "narrowed nh0 e" using p [OF d(2)] by metis
  obtain f where f: "prefer_if table (nexthops_flags nh0) (policy POLICY_TAG_CELLULAR = POLICY_STATE_PREFER)
    (\<lambda>c. \<not> connection_has_tag c POLICY_TAG_CELLULAR) e = Some f" "narrowed nh0 f" using p [OF e(2)] by metis
  have "filter_preferences table policy (nexthops_flags nh0) nh = Some f"
    unfolding filter_preferences_def a(1) bind.bind_lunit b(1) c(1) d(1) e(1) f(1) by simp
  with f(2) show ?thesis using that by blast
qed

lemma loopM_const_fold:
  assumes "\<And>i n s. (i, n) \<in> set ps \<Longrightarrow> body i n s = Some (Inr (f i n s))"
  shows "loopM body ps s = Some (Inr (foldl (\<lambda>s p. f (fst p) (snd p) s) s ps))"
  using assms by (induction ps arbitrary: s) auto

definition highest :: "('b :: linorder) list \<Rightarrow> 'b \<Rightarrow> 'b" where
  "highest xs s = foldl (\<lambda>s x. if s < x then x else s) s xs"

lemma highest_max: "highest xs s = fold max xs s"
  unfolding highest_def foldl_conv_fold by (intro fold_cong) (auto simp: max_def fun_eq_iff)

definition face_priorities :: "connection_table \<Rightarrow> nexthops \<Rightarrow> u32 list" where
  "face_priorities table nh = map (\<lambda>p. conn_priority (conn_of table (snd p))) (enabled nh)"

definition hop_priorities :: "nexthops \<Rightarrow> u32 list" where
  "hop_priorities nh = map (\<lambda>p. state_priority (nexthops_state nh ! fst p)) (enabled nh)"

lemma foldl_top: "foldl (\<lambda>s p. if s < f p then f p else s) s ps = highest (map f ps) s"
  by (simp add: highest_def foldl_map)

lemma filter_face_priority_eq:
  assumes "nexthops_wf nh" "readable table nh"
  shows "filter_face_priority table nh = filter_pass table [\<lambda>_ c. conn_priority c < highest (face_priorities table nh) 0] nh"
proof -
  let ?body = "\<lambda>_ :: nat. \<lambda>n max_priority. do {
            conn \<leftarrow> connection_table_at table n;
            Some (Inr (if max_priority < conn_priority conn then conn_priority conn else max_priority) :: unit + u32) }"
  have "loopM ?body (enabled nh) 0 = Some (Inr (highest (face_priorities table nh) 0))"
    using enabled_readable(1) [OF assms]
    by (subst loopM_const_fold [where f = "\<lambda>i n s. if s < conn_priority (conn_of table n) then conn_priority (conn_of table n) else s"])
       (auto simp: foldl_top [where f = "\<lambda>p. conn_priority (conn_of table (snd p))"] face_priorities_def)
  then show ?thesis using assms(1) by (simp add: filter_face_priority_def nexthops_enumerate_const)
qed

lemma filter_hop_priority_eq:
  assumes "nexthops_wf nh"
  shows "filter_hop_priority nh = Some (hide_all
    (\<lambda>i _. if state_priority (nexthops_state nh ! i) < highest (hop_priorities nh) 0 then 1 else 0) (enabled nh) nh)"
proof -
  have rd: "read_at (nexthops_state s) i = Some (nexthops_state s ! i)" if "nexthops_wf s" "i < num_elts s" for s i
    using that by (simp add: read_at_def nexthops_wf_def MAX_NEXTHOPS_def)
  let ?body = "\<lambda>i :: nat. \<lambda>_ :: u32. \<lambda>max_priority. do {
            s \<leftarrow> read_at (nexthops_state nh) i;
            Some (Inr (if max_priority < state_priority s then state_priority s else max_priority) :: unit + u32) }"
  have m: "loopM ?body (enabled nh) 0 = Some (Inr (highest (hop_priorities nh) 0))"
    using rd [OF assms] enabled_fst [of _ nh]
    by (subst loopM_const_fold [where f = "\<lambda>i n s. if s < state_priority (nexthops_state nh ! i) then state_priority (nexthops_state nh ! i) else s"])
       (fastforce simp: foldl_top [where f = "\<lambda>p. state_priority (nexthops_state nh ! fst p)"] hop_priorities_def)+
  let ?max = "highest (hop_priorities nh) 0"
  let ?dis = "\<lambda>i (_ :: u32) nh. do {
            s \<leftarrow> read_at (nexthops_state nh) i;
            nh \<leftarrow> nexthops_disable_if nh i (state_priority s < ?max);
            Some (Inr nh :: unit + nexthops) }"
  have "nexthops_enumerate id ?dis nh = Some (Inr (hide_all
    (\<lambda>i _. if state_priority (nexthops_state nh ! i) < ?max then 1 else 0) (enabled nh) nh))"
  proof (rule enumerate_hide [OF assms])
    fix i n nh' assume "(i, n) \<in> set (enabled nh)" "nexthops_wf nh'" "num_elts nh' = num_elts nh" "nexthops_state nh' = nexthops_state nh"
    then show "?dis i n nh' = Some (Inr (hide i (if state_priority (nexthops_state nh ! i) < ?max then 1 else 0) nh'))"
      using enabled_fst [of "(i, n)" nh] rd [of nh' i] by (simp add: disable_if_hide)
  next
    fix i n s s' assume "nexthops_wf s" "i < num_elts s" "?dis i n s = Some (Inr s')"
    then show "\<exists>m. s' = hide i m s" using rd [of s i] disable_if_hide [of s i] by auto
  qed
  then show ?thesis using m assms by (simp add: filter_hop_priority_def nexthops_enumerate_const)
qed

lemma narrowed_priorities:
  assumes "readable table nh0" "narrowed nh0 nh"
  obtains a b where "filter_face_priority table nh = Some a" "filter_hop_priority a = Some b" "narrowed nh0 b"
proof -
  obtain a where a: "filter_pass table [\<lambda>_ c. conn_priority c < highest (face_priorities table nh) 0] nh = Some a" "narrowed nh0 a"
    by (rule narrowed_pass [OF assms(2,1)])
  have wf: "nexthops_wf nh" "readable table nh" using assms by (auto simp: narrowed_readable dest: narrowed_wf)
  show ?thesis
    by (rule that [OF _ filter_hop_priority_eq [OF narrowed_wf [OF a(2)]]
          narrowed_trans [OF a(2) narrowed_hide_all [OF narrowed_wf [OF a(2)]]]])
       (simp add: filter_face_priority_eq [OF wf] a(1))
qed

section \<open>What the filter lets through\<close>

definition usable :: "connection_table \<Rightarrow> u32 \<Rightarrow> u32 \<Rightarrow> bool" where
  "usable table ingress_id n \<longleftrightarrow> n \<noteq> ingress_id \<and> conn_admin_state (conn_of table n) \<noteq> FACE_STATE_DOWN \<and>
     conn_state (conn_of table n) \<noteq> FACE_STATE_DOWN"

definition complies :: "hicn_policy \<Rightarrow> connection \<Rightarrow> bool" where
  "complies policy c \<longleftrightarrow> (\<forall>tag \<in> {POLICY_TAG_WIRED, POLICY_TAG_WIFI, POLICY_TAG_CELLULAR, POLICY_TAG_TRUSTED}.
     (policy tag = POLICY_STATE_REQUIRE \<longrightarrow> connection_has_tag c tag) \<and>
     (policy tag = POLICY_STATE_PROHIBIT \<longrightarrow> \<not> connection_has_tag c tag))"

lemma hits_unavailable: "hits table (unavailable ingress_id) n = 0 \<longleftrightarrow> usable table ingress_id n"
  by (auto simp: hits_def unavailable_def usable_def)

lemma hits_remote: "hits table (remote_conditions policy) n = 0 \<longleftrightarrow> \<not> conn_local (conn_of table n) \<and> complies policy (conn_of table n)"
  by (auto simp: hits_def remote_conditions_def tag_conditions_def complies_def)

definition permitted :: "connection_table \<Rightarrow> hicn_policy \<Rightarrow> u32 \<Rightarrow> bool" where
  "permitted table policy n \<longleftrightarrow> \<not> conn_local (conn_of table n) \<and> complies policy (conn_of table n)"

lemma filter_remote_narrowed:
  assumes "nexthops_wf nh" "readable table nh"
  obtains b where "narrowed nh b" "\<forall>p \<in> set (enabled b). permitted table policy (snd p)"
    "filter_remote table policy nh = Some b \<or> filter_remote table policy nh = filter_single_path policy b"
proof -
  obtain a where a: "filter_pass table (remote_conditions policy) nh = Some a" "narrowed nh a"
      "set (enabled a) = {p \<in> set (enabled nh). hits table (remote_conditions policy) (snd p) = 0}"
    by (rule narrowed_pass [OF narrowed_refl [OF assms(1)] assms(2)])
  have wa: "nexthops_wf a" "readable table a" using a(2) assms by (auto simp: narrowed_readable dest: narrowed_wf)
  have ok: "narrowed nh x \<and> (\<forall>p \<in> set (enabled x). permitted table policy (snd p))" if "narrowed a x" for x
    using that a(3) narrowed_trans [OF a(2) that] by (auto simp: narrowed_def hits_remote permitted_def)
  obtain t where t: "filter_trusted table policy a = Some t" "narrowed a t"
    unfolding filter_trusted_def by (rule narrowed_pass [OF narrowed_refl [OF wa(1)] wa(2)])
  let ?r = "restore_flags (nexthops_flags a) t"
  obtain p where p: "filter_preferences table policy (nexthops_flags a) ?r = Some p" "narrowed a p"
    by (rule narrowed_preferences [OF wa narrowed_restore [OF wa(1) t(2)]])
  obtain c d where d: "filter_face_priority table p = Some c" "filter_hop_priority c = Some d" "narrowed a d"
    by (rule narrowed_priorities [OF wa(2) p(2)])
  have "filter_remote table policy nh = (if cur_elts a = 0 then Some a else
      if cur_elts t = 0 \<and> policy POLICY_TAG_TRUSTED = POLICY_STATE_REQUIRE then Some t else filter_single_path policy d)"
    by (simp add: filter_remote_def Let_def a(1) t(1) p(1) d(1,2))
  then show ?thesis
    using that [of a] that [of t] that [of d] ok [OF narrowed_refl [OF wa(1)]] ok [OF t(2)] ok [OF d(3)] by metis
qed

lemma hide_all_undo: "(hide_all k ps nh)\<lparr>nexthops_flags := f, cur_elts := c\<rparr> = nh\<lparr>nexthops_flags := f, cur_elts := c\<rparr>"
  by (induction ps arbitrary: nh) (simp_all add: hide_all_def hide_def)

text \<open>Both branches of \<open>prefer_local\<close> at once.\<close>

definition let_through :: "connection_table \<Rightarrow> hicn_policy \<Rightarrow> u32 \<Rightarrow> bool \<Rightarrow> u32 \<Rightarrow> bool" where
  "let_through table policy ingress_id prefer_local n \<longleftrightarrow> usable table ingress_id n \<and>
     (prefer_local \<and> conn_local (conn_of table n) \<or> permitted table policy n)"

lemma filter_nexthops_narrowed:
  assumes "nexthops_wf nh" "readable table nh"
  obtains b where "narrowed (nexthops_reset nh) b" "\<forall>p \<in> set (enabled b). let_through table policy ingress_id prefer_local (snd p)"
    "fib_entry_filter_nexthops table policy nh ingress_id prefer_local = Some b \<or>
     fib_entry_filter_nexthops table policy nh ingress_id prefer_local = filter_single_path policy b"
proof -
  let ?nh = "nexthops_reset nh"
  have w: "nexthops_wf ?nh" "readable table ?nh"
    using assms by (simp_all add: nexthops_reset_def nexthops_wf_def readable_def hops_def)
  obtain a where a: "filter_pass table (unavailable ingress_id) ?nh = Some a" "narrowed ?nh a"
      "set (enabled a) = {p \<in> set (enabled ?nh). hits table (unavailable ingress_id) (snd p) = 0}"
    by (rule narrowed_pass [OF narrowed_refl [OF w(1)] w(2)])
  have wa: "nexthops_wf a" "readable table a" using a(2) w by (auto simp: narrowed_readable dest: narrowed_wf)
  obtain l where l: "filter_pass table [\<lambda>_ c. \<not> conn_local c] a = Some l" "narrowed a l"
      "set (enabled l) = {p \<in> set (enabled a). hits table [\<lambda>_ c. \<not> conn_local c] (snd p) = 0}"
    by (rule narrowed_pass [OF narrowed_refl [OF wa(1)] wa(2)])
  have same: "l\<lparr>nexthops_flags := nexthops_flags a, cur_elts := cur_elts a\<rparr> = a"
    using l(1) by (auto simp: filter_pass_eq [OF wa] hide_all_undo)
  have us: "\<forall>p \<in> set (enabled a). usable table ingress_id (snd p)" using a(3) by (auto simp: hits_unavailable)
  obtain b where b: "narrowed a b" "\<forall>p \<in> set (enabled b). permitted table policy (snd p)"
    "filter_remote table policy a = Some b \<or> filter_remote table policy a = filter_single_path policy b"
    by (rule filter_remote_narrowed [OF wa])
  have "fib_entry_filter_nexthops table policy nh ingress_id prefer_local =
      (if prefer_local \<and> 0 < cur_elts l then Some l else filter_remote table policy a)"
    by (simp add: fib_entry_filter_nexthops_def a(1) l(1) same)
  moreover have "\<forall>p \<in> set (enabled b). let_through table policy ingress_id prefer_local (snd p)"
    using b us by (auto simp: let_through_def narrowed_def)
  moreover have "\<forall>p \<in> set (enabled l). prefer_local \<longrightarrow> let_through table policy ingress_id prefer_local (snd p)"
    using l us by (auto simp: let_through_def hits_def)
  ultimately show ?thesis
    using that [of b] that [of l] narrowed_trans [OF a(2) b(1)] narrowed_trans [OF a(2) l(2)] b(3) by metis
qed

section \<open>Hops of an entry\<close>






lemma narrowed_same: "narrowed a b \<Longrightarrow> same_hops a b"
  by (simp add: narrowed_def same_hops_def)












section \<open>Passes that hide nothing, passes that hide everything\<close>

lemma hide_none: "\<forall>p \<in> set ps. k (fst p) (snd p) = 0 \<Longrightarrow> hide_all k ps nh = nh"
  by (induction ps) (simp_all add: hide_all_def)

lemma pass_none:
  assumes "nexthops_wf nh" "readable table nh" "\<forall>p \<in> set (enabled nh). hits table conds (snd p) = 0"
  shows "filter_pass table conds nh = Some nh"
  using assms by (simp add: filter_pass_eq hide_none)

lemma pass_each_once:
  assumes "nexthops_wf nh" "readable table nh" "\<forall>p \<in> set (enabled nh). hits table conds (snd p) = 1"
    and "cur_elts nh = of_nat (length (enabled nh))"
  obtains k x where "filter_pass table conds nh = Some x" "x = hide_all k (enabled nh) nh" "cur_elts x = 0"
proof -
  have "(\<Sum>p\<leftarrow>enabled nh. hits table conds (snd p)) = (\<Sum>p\<leftarrow>enabled nh. 1)"
    using assms(3) by (intro arg_cong [of _ _ sum_list] map_cong) auto
  then have "cur_elts (hide_all (\<lambda>_. hits table conds) (enabled nh) nh) = 0"
    using assms(4) by (simp add: hide_all_cur sum_list_triv)
  then show ?thesis using that [OF filter_pass_eq [OF assms(1,2)] refl] by blast
qed

lemma restore_hidden:
  assumes "x = hide_all k ps nh" "cur_elts x = 0"
  shows "restore_flags (nexthops_flags nh) x = nh\<lparr>cur_elts := 0\<rparr>"
    "x\<lparr>nexthops_flags := nexthops_flags nh, cur_elts := cur_elts nh\<rparr> = nh"
proof -
  note u = hide_all_undo [where nh = nh and ps = ps and k = k, folded assms(1)]
  have "x\<lparr>nexthops_flags := nexthops_flags nh\<rparr> = x\<lparr>nexthops_flags := nexthops_flags nh, cur_elts := 0\<rparr>"
    using assms(2) by (cases x) simp
  also have "\<dots> = nh\<lparr>cur_elts := 0\<rparr>" unfolding u by simp
  finally show "restore_flags (nexthops_flags nh) x = nh\<lparr>cur_elts := 0\<rparr>" using assms(2) by (simp add: restore_flags_def)
  show "x\<lparr>nexthops_flags := nexthops_flags nh, cur_elts := cur_elts nh\<rparr> = nh" unfolding u by simp
qed

lemma highest_equal: "xs \<noteq> [] \<Longrightarrow> set xs \<subseteq> {p} \<Longrightarrow> highest xs 0 = (p :: 'a :: len word)"
proof (induction xs)
  case (Cons x xs)
  have "highest ys p = p" if "set ys \<subseteq> {p}" for ys using that by (induction ys) (auto simp: highest_def)
  with Cons.prems show ?case by (auto simp: highest_def word_neq_0_conv [symmetric])
qed simp

lemma equal_priorities:
  assumes "nexthops_wf nh" "enabled nh \<noteq> []"
  shows "readable table nh \<Longrightarrow> \<forall>x \<in> set (enabled nh). conn_priority (conn_of table (snd x)) = p \<Longrightarrow> filter_face_priority table nh = Some nh"
    "\<forall>x \<in> set (enabled nh). state_priority (nexthops_state nh ! fst x) = q \<Longrightarrow> filter_hop_priority nh = Some nh"
proof -
  assume r: "readable table nh" "\<forall>x \<in> set (enabled nh). conn_priority (conn_of table (snd x)) = p"
  then have "highest (face_priorities table nh) 0 = p" using assms(2) by (intro highest_equal) (auto simp: face_priorities_def)
  then show "filter_face_priority table nh = Some nh" using assms(1) r
    by (simp add: filter_face_priority_eq) (intro pass_none; auto simp: hits_def)
next
  assume r: "\<forall>x \<in> set (enabled nh). state_priority (nexthops_state nh ! fst x) = q"
  then have "highest (hop_priorities nh) 0 = q" using assms(2) by (intro highest_equal) (auto simp: hop_priorities_def)
  then show "filter_hop_priority nh = Some nh" using r by (simp add: filter_hop_priority_eq [OF assms(1)] hide_none)
qed

section \<open>Reachable entries\<close>

text \<open>What the forwarder does with an entry, routes apart.  A new policy is an assignment; the
  notification of the route event looks the available hops up.\<close>

inductive entry_step :: "'w strategy_env \<Rightarrow> fib_entry \<Rightarrow> fib_entry \<Rightarrow> bool" for env where
  step_choose: "fib_entry_get_nexthops_from_strategy env e msg_id retransmission mp w = Some (e', mp', w') \<Longrightarrow> entry_step env e e'"
| step_data: "fib_entry_on_data env data_nexthops m t0 t1 e w = Some (e', w') \<Longrightarrow> entry_step env e e'"
| step_timeout: "fib_entry_on_timeout env timeout_nexthops e = Some e' \<Longrightarrow> entry_step env e e'"
| step_strategy: "fib_entry_set_strategy env type options e w = Some (e', w') \<Longrightarrow> entry_step env e e'"
| step_options: "fib_entry_add_strategy_options type options e = Some e' \<Longrightarrow> entry_step env e e'"
| step_policy: "entry_step env e (e\<lparr>fe_policy := policy\<rparr>)"
| step_available: "fib_entry_get_available_nexthops (se_table env) e ingress_id new = Some (e', nh) \<Longrightarrow> entry_step env e e'"

inductive_cases entry_step_cases: "entry_step env e e'"














lemma reset_all_none:
  assumes "nexthops_wf nh" "enabled nh = []"
  shows "reset_all nh = Some nh"
proof -
  have "same_from (Suc i) s s'" if "nexthop_state_write s i m = Some s'" for i m s s'
    using that by (auto simp: nexthop_state_write_def write_at_def read_at_def same_from_def bind_eq_Some_conv split: if_splits)
  then show ?thesis using assms
    by (subst reset_all_def, subst nexthops_enumerate_loop) (auto simp: assms)
qed

text \<open>An Interest that came in over the only hop of its entry: the hop is hidden, and none is left.\<close>

lemma choose_only_hop:
  assumes "nexthops_wf (fe_nexthops e)" "hops (fe_nexthops e) = [n]" "connection_table_at (se_table env) n = Some c"
    and "conn_admin_state c \<noteq> FACE_STATE_DOWN" "conn_state c \<noteq> FACE_STATE_DOWN" "fe_forwarder e"
    and "msgbuf_pool_at mp msg_id = Some m" "mb_connection_id m = n" "n \<noteq> NOT 0"
  shows "fib_entry_get_nexthops_from_strategy env e msg_id retransmission mp w =
    Some (e\<lparr>fe_nexthops := (fe_nexthops e)\<lparr>nexthops_flags := 1, cur_elts := 0\<rparr>\<rparr>, mp, w)"
proof -
  let ?nh = "fe_nexthops e" and ?table = "se_table env"
  let ?h = "?nh\<lparr>nexthops_flags := 1, cur_elts := 0\<rparr>"
  have w: "nexthops_wf (nexthops_reset ?nh)" "readable ?table (nexthops_reset ?nh)" "nexthops_wf ?h" "readable ?table ?h"
    using assms(1-3) by (simp_all add: nexthops_reset_def nexthops_wf_def readable_def hops_def)
  have n: "num_elts ?nh = 1" using length_hops [OF assms(1)] assms(2) by simp
  have "enabled (nexthops_reset ?nh) = [(0, n)]"
    using enabled_reset [OF w(1)] assms(2) by (simp add: hops_def nexthops_reset_def)
  moreover have "hits ?table (unavailable n) n = 1" using assms(3-5) by (simp add: hits_def unavailable_def conn_of_def)
  ultimately have hide: "filter_pass ?table (unavailable n) (nexthops_reset ?nh) = Some ?h"
    using filter_pass_eq [OF w(1,2), of "unavailable n"] n by (simp add: hide_all_def hide_def nexthops_reset_def)
  have "enabled ?h = []" using n by (simp add: enabled_from_def)
  then have none: "filter_pass ?table conds ?h = Some ?h" for conds by (intro pass_none w) auto
  have "fib_entry_filter_nexthops ?table (fe_policy e) ?nh n True = Some ?h"
    by (simp add: fib_entry_filter_nexthops_def hide none filter_remote_def)
  then show ?thesis using assms(6-9)
    by (simp add: fib_entry_get_nexthops_from_strategy_def fib_entry_get_available_nexthops_def assert_that_def)
qed

lemma filter_all_trusted:
  assumes "nexthops_wf nh" "hops nh \<noteq> []" "readable table nh"
    and hop: "\<forall>n \<in> set (hops nh). usable table ingress_id n \<and> \<not> conn_local (conn_of table n) \<and>
      connection_has_tag (conn_of table n) POLICY_TAG_TRUSTED \<and> conn_priority (conn_of table n) = p"
    and st: "\<forall>i < num_elts nh. state_priority (nexthops_state nh ! i) = q"
  shows "fib_entry_filter_nexthops table POLICY_EMPTY nh ingress_id True = Some ((nexthops_reset nh)\<lparr>cur_elts := 0\<rparr>)"
proof -
  let ?r = "nexthops_reset nh" and ?z = "(nexthops_reset nh)\<lparr>cur_elts := 0\<rparr>"
  have w: "nexthops_wf ?r" "readable table ?r" "nexthops_wf ?z" "readable table ?z"
    using assms(1,3) by (simp_all add: nexthops_reset_def nexthops_wf_def readable_def hops_def)
  have en: "enabled ?r = enumerate 0 (hops nh)" "enabled ?z = enumerate 0 (hops nh)"
    using enabled_reset [OF w(1)] enabled_reset [OF w(3)] by (simp_all add: hops_def nexthops_reset_def)
  have elem: "snd x \<in> set (hops nh)" "fst x < num_elts nh" if "x \<in> set (enumerate 0 (hops nh))" for x
    using that snd_enumerate [of 0 "hops nh"] length_hops [OF assms(1)] by (force simp: in_set_enumerate_eq)+
  have ne: "enumerate 0 (hops nh) \<noteq> []" using assms(2) by (cases "hops nh") simp_all
  have pass: "filter_pass table (unavailable ingress_id) ?r = Some ?r" "filter_pass table (remote_conditions POLICY_EMPTY) ?r = Some ?r"
    by (intro pass_none w; use en elem hop in \<open>auto simp: hits_unavailable hits_remote complies_def POLICY_EMPTY_def\<close>)+
  have len: "cur_elts ?r = of_nat (length (enabled ?r))"
    using length_hops [OF assms(1)] by (simp add: en) (simp add: nexthops_reset_def)
  have "0 < num_elts nh" using assms(2) length_hops [OF assms(1)] by (cases "hops nh") auto
  then have cur: "cur_elts ?r \<noteq> 0"
    using assms(1) by (auto simp: nexthops_reset_def nexthops_wf_def word_of_nat_eq_0_iff dest!: dvd_imp_le)
  obtain kl l where l: "filter_pass table [\<lambda>_ c. \<not> conn_local c] ?r = Some l" "l = hide_all kl (enabled ?r) ?r" "cur_elts l = 0"
    by (rule pass_each_once [OF w(1,2) _ len]) (use en elem hop in \<open>auto simp: hits_def\<close>)
  obtain kt t where t: "filter_pass table [\<lambda>_ c. connection_has_tag c POLICY_TAG_TRUSTED] ?r = Some t"
      "t = hide_all kt (enabled ?r) ?r" "cur_elts t = 0"
    by (rule pass_each_once [OF w(1,2) _ len]) (use en elem hop in \<open>auto simp: hits_def\<close>)
  have prio: "filter_face_priority table ?z = Some ?z" "filter_hop_priority ?z = Some ?z"
    by (rule equal_priorities [OF w(3)]; use en ne elem hop st w(4) in \<open>auto simp: nexthops_reset_def\<close>)+
  have neutral: "POLICY_EMPTY tag = POLICY_STATE_NEUTRAL" for tag by (simp add: POLICY_EMPTY_def)
  have "filter_remote table POLICY_EMPTY ?r = Some ?z"
    by (simp add: filter_remote_def pass Let_def filter_trusted_def t(1,3) restore_hidden(1) [OF t(2,3)] cur filter_preferences_def
        prefer_if_def neutral prio filter_single_path_def single_path_def)
  then show ?thesis
    by (simp add: fib_entry_filter_nexthops_def pass l(1,3) restore_hidden(2) [OF l(2,3)])
qed

section \<open>Properties\<close>

definition example_entry :: "hicn_policy \<Rightarrow> fib_entry" where
  "example_entry policy = \<lparr>fe_prefix = \<lparr>prefix_name = IP_ADDRESS_EMPTY, prefix_len = 0\<rparr>, fe_nexthops = example_hops, fe_nexthops_hash = 0,
     fe_strategy = ZERO_STRATEGY_ENTRY\<lparr>st_type := STRATEGY_TYPE_RANDOM\<rparr>, fe_forwarder = True, fe_policy = policy,
     fe_counters = POLICY_COUNTERS_EMPTY, fe_stats = POLICY_STATS_EMPTY, fe_user_data = None\<rparr>"

lemma example_at: "unat n < 64 \<Longrightarrow> connection_table_at (se_table (example_strategy_env t k conns)) n = Some (conns (unat n))"
  by (simp add: connection_table_at_def example_strategy_env_def full_pool_def pool_at_def)

lemma example_hops_wf: "nexthops_wf example_hops" "num_elts example_hops = 3" "nexthops_state example_hops = nexthops_state NEXTHOPS_EMPTY"
  using example_hops_inv(1) by (simp_all add: nexthops_inv_def) (simp_all add: example_hops_def)

definition example_faces :: "nat \<Rightarrow> connection" where
  "example_faces i = (if i = 5 then zero_connection\<lparr>conn_state := FACE_STATE_DOWN\<rparr>
     else if i = 7 then zero_connection\<lparr>conn_tags := 2\<rparr> else zero_connection)"





text \<open>C6: the policy filter always returns, keeps the hops, and every hop it leaves enabled is not the
  ingress, is up, and is either local, where local hops are preferred, or remote and satisfies
  what the policy requires and prohibits.  Multipath must not be prohibited or avoided.\<close>

theorem policy_filter_sound:
  assumes "nexthops_wf nh" "\<forall>n \<in> set (hops nh). connection_table_at table n \<noteq> None" "\<not> single_path policy"
  shows "\<exists>nh'. fib_entry_filter_nexthops table policy nh ingress_id prefer_local = Some nh' \<and> nexthops_wf nh' \<and> hops nh' = hops nh \<and>
    (\<forall>(i, n) \<in> set (enabled nh'). usable table ingress_id n \<and>
       (prefer_local \<and> conn_local (conn_of table n) \<or> \<not> conn_local (conn_of table n) \<and> complies policy (conn_of table n)))"
proof -
  have "readable table nh" using assms(2) by (simp add: readable_def)
  then obtain b where b: "narrowed (nexthops_reset nh) b"
    "\<forall>p \<in> set (enabled b). let_through table policy ingress_id prefer_local (snd p)"
    "fib_entry_filter_nexthops table policy nh ingress_id prefer_local = Some b"
    using filter_nexthops_narrowed [OF assms(1)] assms(3) by (metis filter_single_path_def)
  moreover have "hops (nexthops_reset nh) = hops nh" by (simp add: hops_def nexthops_reset_def)
  ultimately show ?thesis using narrowed_wf [OF b(1)] narrowed_hops [OF b(1)]
    by (auto simp: let_through_def permitted_def)
qed

theorem policy_filter_sound_witness:
  "\<exists>nh'. fib_entry_filter_nexthops (se_table (example_strategy_env 0 0 example_faces)) (POLICY_EMPTY(POLICY_TAG_WIFI := POLICY_STATE_PROHIBIT))
     example_hops 3 True = Some nh' \<and> hops nh' = [5, 7, 9] \<and> snd ` set (enabled nh') \<subseteq> {9}"
proof -
  let ?t = "se_table (example_strategy_env 0 0 example_faces)" and ?p = "POLICY_EMPTY(POLICY_TAG_WIFI := POLICY_STATE_PROHIBIT)"
  have conn: "conn_of ?t 5 = example_faces 5" "conn_of ?t 7 = example_faces 7" "conn_of ?t 9 = example_faces 9"
    by (simp_all add: conn_of_def example_at)
  have "\<forall>n \<in> set (hops example_hops). connection_table_at ?t n \<noteq> None" "\<not> single_path ?p"
    by (simp_all add: example_hops_inv example_at single_path_def POLICY_EMPTY_def)
  from policy_filter_sound [OF example_hops_wf(1) this, of 3 True]
  obtain nh' where r: "fib_entry_filter_nexthops ?t ?p example_hops 3 True = Some nh'" "nexthops_wf nh'" "hops nh' = [5, 7, 9]"
    "\<forall>(i, n) \<in> set (enabled nh'). usable ?t 3 n \<and> (conn_local (conn_of ?t n) \<or> \<not> conn_local (conn_of ?t n) \<and> complies ?p (conn_of ?t n))"
    by (auto simp: example_hops_inv)
  have "n \<in> {5, 7, 9}" if "(i, n) \<in> set (enabled nh')" for i n
    using enabled_in_hops [OF r(2) that] r(3) by simp
  moreover have "\<not> usable ?t 3 5" "\<not> complies ?p (conn_of ?t 7)" "\<not> conn_local (conn_of ?t 7)"
    by (simp_all add: usable_def conn complies_def example_faces_def connection_has_tag_def policy_tags_has_def zero_connection_def)
  ultimately show ?thesis using r by fastforce
qed

text \<open>C18: an Interest that comes in over the only next hop of its entry, which is up, gets no hop and
  leaves this one hidden in the table of the entry, whatever the policy and for each of the
  strategies that exist. Until another packet changes that, removing the route to the hop
  returns with the entry as it is, so that the hop stays in it.\<close>

theorem hidden_hop_survives_removal:
  assumes "nexthops_wf (fe_nexthops e)" "hops (fe_nexthops e) = [n]" "fe_forwarder e"
    and "connection_table_at (se_table env) n = Some c" "conn_admin_state c \<noteq> FACE_STATE_DOWN" "conn_state c \<noteq> FACE_STATE_DOWN"
    and "msgbuf_pool_at mp msg_id = Some m" "mb_connection_id m = n" "n \<noteq> NOT 0"
    and "st_type (fe_strategy e) \<in> {STRATEGY_TYPE_LOADBALANCER, STRATEGY_TYPE_RANDOM, STRATEGY_TYPE_REPLICATION,
      STRATEGY_TYPE_BESTPATH, STRATEGY_TYPE_LOCAL_REMOTE}"
  shows "\<exists>e'. fib_entry_get_nexthops_from_strategy env e msg_id retransmission mp w = Some (e', mp, w) \<and>
    cur_elts (fe_nexthops e') = 0 \<and> hops (fe_nexthops e') = [n] \<and> fib_entry_nexthops_remove n e' = Some e'"
proof -
  define nh where "nh = (fe_nexthops e)\<lparr>nexthops_flags := 1, cur_elts := 0\<rparr>"
  have wf: "nexthops_wf nh" "hops nh = [n]" using assms(1,2) by (simp_all add: nh_def nexthops_wf_def hops_def)
  have "num_elts nh = 1" using length_hops [OF wf(1)] wf(2) by simp
  then have en: "enabled nh = []" by (simp add: nh_def enabled_from_def)
  have "nexthops_remove nh n = Some (unat INVALID_NEXTHOP, nh)"
    by (simp add: nexthops_remove_def nexthops_enumerate_const [OF wf(1)] en)
  moreover have "strategy_remove_nexthop (fe_strategy e) nh i = Some nh" for i
    using assms(10) reset_all_none [OF wf(1) en] by (auto simp: strategy_remove_nexthop_def)
  ultimately have "fib_entry_nexthops_remove n (e\<lparr>fe_nexthops := nh\<rparr>) = Some (e\<lparr>fe_nexthops := nh\<rparr>)"
    by (simp add: fib_entry_nexthops_remove_def)
  with choose_only_hop [OF assms(1,2,4,5,6,3,7,8,9), folded nh_def] wf(2) show ?thesis by (auto simp: nh_def)
qed

theorem hidden_hop_survives_removal_witness:
  "\<exists>e'. fib_entry_get_nexthops_from_strategy (example_strategy_env 0 0 (\<lambda>_. zero_connection))
      ((example_entry POLICY_EMPTY)\<lparr>fe_nexthops := example_hops\<lparr>num_elts := 1, cur_elts := 1\<rparr>\<rparr>) 0 False
      (full_pool (\<lambda>_. example_packet 5 1)) () = Some (e', full_pool (\<lambda>_. example_packet 5 1), ()) \<and>
    hops (fe_nexthops e') = [5] \<and> fib_entry_nexthops_remove 5 e' = Some e'"
proof -
  let ?env = "example_strategy_env 0 0 (\<lambda>_. zero_connection)"
  let ?e = "(example_entry POLICY_EMPTY)\<lparr>fe_nexthops := example_hops\<lparr>num_elts := 1, cur_elts := 1\<rparr>\<rparr>"
  let ?mp = "full_pool (\<lambda>_. example_packet 5 1)"
  have "nexthops_wf (fe_nexthops ?e)" "hops (fe_nexthops ?e) = [5]" using example_hops_wf(1,2) example_hops_inv(2)
    by (simp_all add: nexthops_wf_def hops_def) (simp add: example_hops_def)
  then have "\<exists>e'. fib_entry_get_nexthops_from_strategy ?env ?e 0 False ?mp () = Some (e', ?mp, ()) \<and>
      cur_elts (fe_nexthops e') = 0 \<and> hops (fe_nexthops e') = [5] \<and> fib_entry_nexthops_remove 5 e' = Some e'"
    by (rule hidden_hop_survives_removal [where c = zero_connection and m = "example_packet 5 1"])
      (simp_all add: example_at, simp_all add: zero_connection_def example_entry_def full_pool_def msgbuf_pool_at_def pool_at_def)
  then show ?thesis by blast
qed

text \<open>C19: an entry with the default policy all of whose hops are up, remote and tagged as
  trusted, have the same face priority and the same hop priority, and are not the ingress, never
  reaches its strategy: the filter hides the trusted hops, brings them back because no other is
  left, but leaves the number of available hops at 0, and the Interest is dropped. With unequal
  priorities the number is decremented below 0 instead.\<close>

theorem trusted_hops_not_used:
  assumes "nexthops_wf (fe_nexthops e)" "hops (fe_nexthops e) \<noteq> []" "fe_forwarder e" "fe_policy e = POLICY_EMPTY"
    and "\<forall>n \<in> set (hops (fe_nexthops e)). connection_table_at (se_table env) n \<noteq> None \<and>
      usable (se_table env) (mb_connection_id m) n \<and> \<not> conn_local (conn_of (se_table env) n) \<and>
      connection_has_tag (conn_of (se_table env) n) POLICY_TAG_TRUSTED \<and> conn_priority (conn_of (se_table env) n) = p"
    and "\<forall>i < num_elts (fe_nexthops e). state_priority (nexthops_state (fe_nexthops e) ! i) = q"
    and "msgbuf_pool_at mp msg_id = Some m" "mb_connection_id m \<noteq> NOT 0"
  shows "\<exists>e'. fib_entry_get_nexthops_from_strategy env e msg_id retransmission mp w = Some (e', mp, w) \<and>
    cur_elts (fe_nexthops e') = 0 \<and> map snd (enabled (fe_nexthops e')) = hops (fe_nexthops e)"
proof -
  let ?nh = "fe_nexthops e" and ?table = "se_table env"
  let ?z = "(nexthops_reset ?nh)\<lparr>cur_elts := 0\<rparr>"
  have "readable ?table ?nh" using assms(5) by (simp add: readable_def)
  then have "fib_entry_filter_nexthops ?table POLICY_EMPTY ?nh (mb_connection_id m) True = Some ?z"
    using assms(5,6) by (intro filter_all_trusted [OF assms(1,2)]) auto
  then have "fib_entry_get_nexthops_from_strategy env e msg_id retransmission mp w = Some (e\<lparr>fe_nexthops := ?z\<rparr>, mp, w)"
    using assms(3,4,7,8)
    by (simp add: fib_entry_get_nexthops_from_strategy_def fib_entry_get_available_nexthops_def assert_that_def)
  moreover have "enabled ?z = enumerate 0 (hops ?z)"
    by (rule enabled_reset) (use assms(1) in \<open>simp_all add: nexthops_wf_def nexthops_reset_def\<close>)
  moreover have "hops ?z = hops ?nh" by (simp add: hops_def nexthops_reset_def)
  ultimately show ?thesis by simp
qed

theorem trusted_hops_not_used_witness:
  "\<exists>e'. fib_entry_get_nexthops_from_strategy (example_strategy_env 0 0 (\<lambda>_. zero_connection\<lparr>conn_tags := 64\<rparr>)) (example_entry POLICY_EMPTY) 0 False
     (full_pool (\<lambda>_. example_packet 3 1)) () = Some (e', full_pool (\<lambda>_. example_packet 3 1), ()) \<and> map snd (enabled (fe_nexthops e')) = [5, 7, 9]"
proof -
  let ?env = "example_strategy_env 0 0 (\<lambda>_. zero_connection\<lparr>conn_tags := 64\<rparr>)" and ?e = "example_entry POLICY_EMPTY"
  have n: "fe_nexthops ?e = example_hops" by (simp add: example_entry_def)
  have c: "connection_table_at (se_table ?env) n \<noteq> None \<and> usable (se_table ?env) 3 n \<and> \<not> conn_local (conn_of (se_table ?env) n) \<and>
      connection_has_tag (conn_of (se_table ?env) n) POLICY_TAG_TRUSTED \<and> conn_priority (conn_of (se_table ?env) n) = 0"
    if "n \<in> {5, 7, 9}" for n
  proof -
    have "connection_table_at (se_table ?env) n = Some (zero_connection\<lparr>conn_tags := 64\<rparr>)" "n \<noteq> 3"
      using that by (auto simp: example_at)
    then show ?thesis
      by (simp add: usable_def conn_of_def connection_has_tag_def policy_tags_has_def) (simp add: zero_connection_def)
  qed
  have st: "state_priority (nexthops_state (fe_nexthops ?e) ! i) = 0" if "i < num_elts (fe_nexthops ?e)" for i
    using that by (simp add: n example_hops_wf NEXTHOPS_EMPTY_def STRATEGY_NEXTHOP_STATE_EMPTY_def DEFAULT_PRIORITY_def MAX_NEXTHOPS_def)
  have "\<exists>e'. fib_entry_get_nexthops_from_strategy ?env ?e 0 False (full_pool (\<lambda>_. example_packet 3 1)) () =
      Some (e', full_pool (\<lambda>_. example_packet 3 1), ()) \<and> cur_elts (fe_nexthops e') = 0 \<and>
      map snd (enabled (fe_nexthops e')) = hops (fe_nexthops ?e)"
    by (rule trusted_hops_not_used [where m = "example_packet 3 1" and p = 0 and q = 0])
       (use st c in \<open>simp_all add: n example_hops_wf example_hops_inv\<close>,
        simp_all add: example_entry_def full_pool_def msgbuf_pool_at_def pool_at_def)
  then show ?thesis by (auto simp: n example_hops_inv)
qed

end
