(* ===== verification/Spec2Isabelle.thy ===== *)
theory Spec2Isabelle
  imports Util_Ring Util_Pool Hicn_Name Hicn_Packet Nexthops Msgbuf Content_Store Packet_Cache_Spec Fib_Entry_Correct
begin

text \<open>
  A verification library for hICN: the C library \<open>libhicn\<close> (\<open>src/lib\<close>) and the forwarder
  \<open>hicn-light\<close> (\<open>src/hicn-light\<close>).

  \<^bold>\<open>The program.\<close>  A hICN forwarder receives Interests and Data.  An Interest is looked up in the
  packet cache; if no Data is stored for its name, it becomes a pending Interest and is sent
  along the FIB entry with the longest matching prefix, to the next hops the entry's policy
  and strategy choose.  Data follows the pending Interests back and may be stored.  The packets
  themselves are IPv4 or IPv6 headers over TCP, UDP, ICMP or the header of hICN, in which names,
  lifetimes and path labels are stored in place of addresses and ports.

  \<^bold>\<open>Conventions.\<close>  A C function that may fail an assertion, dereference a null or stale pointer
  or read outside an array returns an option, and all of these are \<^term>\<open>None\<close>; its error codes
  are the integer components of the result.  Machine integers are words; \<open>size_t\<close> and \<open>off_t\<close>
  are natural numbers where they only count.  Pointers into pools are indices.  Output
  parameters are passed with their previous value and uninitialised locals are arguments.  The
  configuration is the default one (\<open>WITH_MAPME\<close>, \<open>WITH_POLICY\<close>, \<open>WITH_POLICY_STATS\<close>, no
  \<open>WITH_WLDR\<close>) on 64-bit little-endian Linux.

  \<^bold>\<open>Theories.\<close>

  \<^item> \<open>Hicn_Prelude\<close>: integer types, assertions, array accesses, monadic folds, \<open>next_pow2\<close>.
  \<^item> \<open>Util_Ring\<close>, \<open>Util_Vector\<close>, \<open>Util_Bitmap\<close>, \<open>Util_Pool\<close>: the containers of
    \<open>lib/includes/hicn/util\<close> and \<open>lib/src/util\<close>.  The ring refines a bounded list, the bitmap
    operations are characterised bit by bit, and the pool is an allocator (locale
    \<open>allocator\<close>) that never hands out an index in use.
  \<^item> \<open>Hicn_Name\<close>: \<open>ip_address.c\<close>, \<open>name.c\<close>, \<open>common.c\<close>: names and prefixes; the length of the
    longest common prefix, computed on 64-bit words, is that of the bit strings.
  \<^item> \<open>Packet_Buffer\<close>, \<open>Packet_Ops\<close>, \<open>Hicn_Packet\<close>: \<open>packet.c\<close>, \<open>ops.c\<close> and
    \<open>protocol/*.c\<close>: the byte buffer, the dispatch over the header stack, every layer, and the
    packet API with its round trips, checksums and the safety of the analysis of arbitrary bytes.
  \<^item> \<open>Nexthops\<close>: \<open>core/nexthops.{h,c}\<close>: the table of next hops with its mask, as a set of hops
    (locale \<open>hop_set\<close>).
  \<^item> \<open>Msgbuf\<close>: \<open>core/msgbuf.{h,c}\<close>, \<open>core/msgbuf_pool.{h,c}\<close>: packet buffers and their reference
    counts.
  \<^item> \<open>Content_Store\<close>: \<open>core/content_store.c\<close>, \<open>content_store/lru.c\<close>: the doubly linked list
    through the cache entries refines a list.
  \<^item> \<open>Packet_Cache\<close>, \<open>Packet_Cache_View\<close>, \<open>Packet_Cache_Spec\<close>: \<open>core/packet_cache.c\<close> and
    \<open>core/pit.h\<close>.  The first translates the code; the second represents a cache by the map of its
    entries; the third gives the specification of the two handlers on an abstract map from names to
    entries, proves that the code refines it, and that the counters, the index and the
    reference counts stay consistent in every cache reached without clearing the store; clearing it
    loses references, which is proved as well.
  \<^item> \<open>Connection_Table\<close>: \<open>core/connection.{h,c}\<close>, \<open>core/connection_table.{h,c}\<close>, the creation
    of connections in \<open>core/listener.c\<close> and the tags of \<open>policy.h\<close>.  The table and its indices by name
    and by address pair agree, for names that fit their key.
  \<^item> \<open>Strategy\<close>, \<open>Strategy_Correct\<close>: \<open>strategies/*.c\<close> and their dispatch \<open>core/strategy.c\<close>.  What
    each strategy chooses; none of them changes which hops there are (locale \<open>hop_strategy\<close>).
  \<^item> \<open>Fib_Entry\<close>, \<open>Fib_Entry_Correct\<close>: \<open>core/fib_entry.{h,c}\<close>, \<open>core/policy_stats.{h,c}\<close>.  What the
    policy filter lets through, that no reachable entry loses or invents a hop, and two failures of
    the filter.

  \<^bold>\<open>Bounds.\<close>  Loops are structural recursions or folds over index lists; the loops that the code
  runs on pointers are \<open>partial_function\<close>s with a proof that they return.  No fuel is used;
  the search for a probe number takes its three tries, as in the code.

  \<^bold>\<open>Not modelled.\<close>  Sockets, event loops and platform code (\<open>io\<close>, \<open>base/loop.c\<close>, \<open>platforms\<close>),
  the FIB trie, the forwarder's dispatch of packets, the listener table and MAP-Me, which are large
  and left for later, the daemon, its configuration and command line, the control library and the face manager, and
  the printing and parsing of strings: their work is I/O and text.  The VPP plugin is glue around
  buffers, hash tables and graph nodes of VPP, which is not in the repository.  The transport
  library, the applications and the telemetry plugins are C++ and plugin code around
  asio, OpenSSL and collectd.  WLDR is not compiled in the modelled configuration.
\<close>

end
